(* ===== verification/HipFT_Prelude.thy ===== *)
theory HipFT_Prelude
  imports Main "HOL-Library.Word"
begin

text \<open>
  Shared vocabulary of the development: the fixed-width integers of
  \<^verbatim>\<open>src/justin-snapshot/hdr/stdtypes.h\<close>, the outcomes of C operations that have no
  defined result (out-of-bounds access, use after free, failed assertion, \<dots>), sequencing of
  such operations, the two pointer-array copy loops that occur all over the code base
  (drop one entry, insert one entry), and the list and word facts the components share.
\<close>

unbundle bit_operations_syntax

type_synonym uint8 = "8 word"
type_synonym uchar8 = "8 word"
type_synonym uint16 = "16 word"
type_synonym uint32 = "32 word"
type_synonym uint64 = "64 word"
type_synonym bytes = "uchar8 list"

text \<open>What can go wrong in a C operation. A result is the error or the value.\<close>

datatype c_error =
    OOB_Read | OOB_Write | Null_Deref | Use_After_Free | Double_Free
  | Uninitialised_Use | Div_By_Zero | Assert_Failed | Deadlock | Diverges

type_synonym 'a c_result = "c_error + 'a"

definition c_bind :: "'a c_result \<Rightarrow> ('a \<Rightarrow> 'b c_result) \<Rightarrow> 'b c_result" where
  "c_bind r f = (case r of Inl e \<Rightarrow> Inl e | Inr x \<Rightarrow> f x)"

definition c_guard :: "bool \<Rightarrow> c_error \<Rightarrow> unit c_result" where
  "c_guard b e = (if b then Inr () else Inl e)"

text \<open>
  The copy loops. \<open>array_remove i xs\<close> is the loop that copies every entry but entry \<open>i\<close>
  into a fresh array one slot shorter; \<open>array_insert i x xs\<close> copies into a fresh array one slot
  longer, with \<open>x\<close> at slot \<open>i\<close>.
\<close>

definition array_remove :: "nat \<Rightarrow> 'a list \<Rightarrow> 'a list" where
  "array_remove i xs = map (\<lambda>j. xs ! j) (filter (\<lambda>j. j < i \<or> i < j) [0..<length xs])"

definition array_insert :: "nat \<Rightarrow> 'a \<Rightarrow> 'a list \<Rightarrow> 'a list" where
  "array_insert i x xs =
     map (\<lambda>j. if j < i then xs ! j else if i < j then xs ! (j - 1) else x) [0..<length xs + 1]"

text \<open>
  Byte buffers. A block from \<^verbatim>\<open>malloc\<close> holds whatever the heap held (\<open>g\<close>); a copy out of or into
  a buffer fails when it leaves the buffer.
\<close>

type_synonym garbage = "nat \<Rightarrow> uchar8"

definition malloc_bytes :: "garbage \<Rightarrow> nat \<Rightarrow> bytes" where
  "malloc_bytes g n = map g [0..<n]"

definition mem_read :: "nat \<Rightarrow> nat \<Rightarrow> bytes \<Rightarrow> bytes c_result" where
  "mem_read off n buf = (if off + n \<le> length buf then Inr (take n (drop off buf)) else Inl OOB_Read)"

definition mem_write :: "nat \<Rightarrow> bytes \<Rightarrow> bytes \<Rightarrow> bytes c_result" where
  "mem_write off dat buf =
     (if off + length dat \<le> length buf
      then Inr (take off buf @ dat @ drop (off + length dat) buf) else Inl OOB_Write)"

named_theorems c_result_iff \<open>inversion of successful or failed sequenced operations\<close>

subsection \<open>Sequencing\<close>

lemma c_bind_simps [simp]:
  "c_bind (Inl e) f = Inl e"
  "c_bind (Inr x) f = f x"
  by (simp_all add: c_bind_def)

lemma c_guard_simps [simp]:
  "c_guard True e = Inr ()"
  "c_guard False e = Inl e"
  by (simp_all add: c_guard_def)

lemma c_bind_Inr_iff [c_result_iff]: "c_bind r f = Inr y \<longleftrightarrow> (\<exists>x. r = Inr x \<and> f x = Inr y)"
  by (cases r) auto

lemma c_bind_Inl_iff [c_result_iff]:
  "c_bind r f = Inl e \<longleftrightarrow> r = Inl e \<or> (\<exists>x. r = Inr x \<and> f x = Inl e)"
  by (cases r) auto

lemma c_guard_Inr_iff [c_result_iff]: "c_guard b e = Inr u \<longleftrightarrow> b"
  by (cases b) auto

lemma c_guard_Inl_iff [c_result_iff]: "c_guard b e = Inl e' \<longleftrightarrow> \<not> b \<and> e' = e"
  by (cases b) auto

subsection \<open>64-bit arithmetic without wrap-around\<close>

lemma unat64_bound: "unat (x :: uint64) < 2 ^ 64"
proof -
  have "unat x < 2 ^ LENGTH(64)"
    by (rule unsigned_less)
  then show ?thesis
    by simp
qed

lemma unat32_bound: "unat (x :: uint32) < 2 ^ 32"
proof -
  have "unat x < 2 ^ LENGTH(32)"
    by (rule unsigned_less)
  then show ?thesis
    by simp
qed

lemma unat_add64: "unat x + unat y < 2 ^ 64 \<Longrightarrow> unat (x + y :: uint64) = unat x + unat y"
  by (simp add: unat_word_ariths)

lemma unat_ucast_32_64 [simp]: "unat (ucast (x :: uint32) :: uint64) = unat x"
proof -
  have "unat x < 2 ^ 64"
    using unat32_bound [of x] by (rule less_le_trans) simp
  then show ?thesis
    by (simp add: unsigned_ucast_eq take_bit_nat_eq_self)
qed

lemma unat_of_nat64: "n < 2 ^ 64 \<Longrightarrow> unat (word_of_nat n :: uint64) = n"
  by (simp add: unat_of_nat take_bit_nat_eq_self)

lemma unat_of_nat32: "n < 2 ^ 32 \<Longrightarrow> unat (word_of_nat n :: uint32) = n"
  by (simp add: unat_of_nat take_bit_nat_eq_self)

lemma unat_ucast_64_32: "unat x < 2 ^ 32 \<Longrightarrow> unat (ucast (x :: uint64) :: uint32) = unat x"
  by (simp add: unsigned_ucast_eq take_bit_nat_eq_self)

lemma unat_div_ceil:
  assumes "1 < unat k"
  shows "unat ((n :: uint64) div k + (if n mod k \<noteq> 0 then 1 else 0)) =
     unat n div unat k + (if unat n mod unat k \<noteq> 0 then 1 else 0)"
proof -
  have "unat n < 2 ^ 64" using unsigned_less [of n] by simp
  moreover have "unat n div unat k \<le> unat n div 2" using assms by (intro div_le_mono2) auto
  ultimately have "unat (n div k + 1) = unat n div unat k + 1"
    by (simp add: unat_word_ariths unat_div)
  moreover have "n mod k = 0 \<longleftrightarrow> unat n mod unat k = 0"
    by (simp add: unat_eq_0 [symmetric] unat_mod)
  ultimately show ?thesis by (simp add: unat_div)
qed

lemma ceil_div: "0 < k \<Longrightarrow> n div k + (if n mod k \<noteq> 0 then 1 else 0) = (n + (k - 1)) div (k :: nat)"
proof -
  assume k: "0 < k"
  have "(n + (k - 1)) div k = n div k + (n mod k + (k - 1)) div k"
    using div_mult_self2 [of k "n mod k + (k - 1)" "n div k"] k by (simp add: add.assoc [symmetric] algebra_simps)
  moreover have "(n mod k + (k - 1)) div k = (if n mod k \<noteq> 0 then 1 else 0)"
  proof (cases "n mod k = 0")
    case False
    moreover have "n mod k < k" using k by simp
    ultimately have "n mod k + (k - 1) = k + (n mod k - 1)" "n mod k - 1 < k" using k by linarith+
    then show ?thesis using False k by (simp only: div_add_self1) simp
  qed (use k in simp)
  ultimately show ?thesis by simp
qed

lemma ucast_32_64_32 [simp]: "ucast (ucast (x :: uint32) :: uint64) = x"
  using unat32_bound [of x] by (simp add: word_unat_eq_iff unat_ucast_64_32)

lemma bit_31_iff: "0 \<le> (n :: int) \<Longrightarrow> n < 2 ^ 32 \<Longrightarrow> bit n 31 \<longleftrightarrow> 2 ^ 31 \<le> n"
proof -
  assume n: "0 \<le> n" "n < 2 ^ 32"
  have "n div 2 ^ 31 = 1" if "2 ^ 31 \<le> n"
    by (rule int_div_pos_eq [of _ _ _ "n - 2 ^ 31"]) (use n that in simp_all)
  moreover have "n div 2 ^ 31 = 0" if "\<not> 2 ^ 31 \<le> n"
    by (rule div_pos_pos_trivial) (use n that in simp_all)
  ultimately show ?thesis
    unfolding bit_iff_odd by (metis even_zero odd_one)
qed

lemma sless_zero_32: "(x :: uint32) <s 0 \<longleftrightarrow> 2 ^ 31 \<le> unat x"
proof -
  obtain n where n: "unat x = n" "uint x = int n"
    by (metis uint_nat)
  have "x <s 0 \<longleftrightarrow> bit (int n) 31"
    unfolding n(2) [symmetric] by (simp add: word_sless_alt sint_uint)
  also have "\<dots> \<longleftrightarrow> 2 ^ 31 \<le> int n"
    using unat32_bound [of x] n(1) by (intro bit_31_iff) simp_all
  finally show ?thesis
    by (simp add: n(1))
qed

subsection \<open>Buffers\<close>

lemma length_malloc_bytes [simp]: "length (malloc_bytes g n) = n"
  by (simp add: malloc_bytes_def)

lemma malloc_bytes_0 [simp]: "malloc_bytes g 0 = []"
  by (simp add: malloc_bytes_def)

lemma nth_malloc_bytes [simp]: "i < n \<Longrightarrow> malloc_bytes g n ! i = g i"
  by (simp add: malloc_bytes_def)

lemma mem_read_Inr_iff [c_result_iff]:
  "mem_read off n buf = Inr d \<longleftrightarrow> off + n \<le> length buf \<and> d = take n (drop off buf)"
  by (auto simp: mem_read_def)

lemma mem_write_Inr_iff [c_result_iff]:
  "mem_write off d buf = Inr buf' \<longleftrightarrow>
     off + length d \<le> length buf \<and> buf' = take off buf @ d @ drop (off + length d) buf"
  by (auto simp: mem_write_def)

lemma mem_write_length: "mem_write off d buf = Inr buf' \<Longrightarrow> length buf' = length buf"
  by (auto simp: mem_write_Inr_iff)

lemma mem_read_append [simp]: "mem_read 0 (length xs) (xs @ ys) = Inr xs"
  by (simp add: mem_read_def)

subsection \<open>The copy loops\<close>

lemma map_nth_upt: "n \<le> length xs \<Longrightarrow> map (\<lambda>j. xs ! j) [m..<n] = take (n - m) (drop m xs)"
  by (rule nth_equalityI) auto

lemma upt_split_at: "i < n \<Longrightarrow> [0..<n] = [0..<i] @ i # [Suc i..<n]"
  by (metis le_add_diff_inverse less_imp_le_nat upt_add_eq_append upt_conv_Cons zero_le)

lemma array_remove_eq:
  assumes "i < length xs"
  shows "array_remove i xs = take i xs @ drop (Suc i) xs"
proof -
  have "filter (\<lambda>j. j < i \<or> i < j) [0..<length xs] = [0..<i] @ [Suc i..<length xs]"
    by (simp add: upt_split_at [OF assms])
  then show ?thesis
    using assms by (simp add: array_remove_def map_nth_upt)
qed

lemma length_array_remove [simp]: "i < length xs \<Longrightarrow> length (array_remove i xs) = length xs - 1"
  by (simp add: array_remove_eq)

lemma array_insert_eq:
  assumes "i \<le> length xs"
  shows "array_insert i x xs = take i xs @ x # drop i xs"
  using assms
  by (intro nth_equalityI) (auto simp: array_insert_def nth_append nth_Cons' not_less le_less_Suc_eq less_Suc_eq)

lemma length_array_insert [simp]: "length (array_insert i x xs) = Suc (length xs)"
  by (simp add: array_insert_def)

end
