(* ===== verification/Random_Uint.thy ===== *)
theory Random_Uint
  imports HipFT_Prelude
begin

text \<open>
  \<^verbatim>\<open>src/justin-snapshot/src/stdtypes.c\<close>: 64-bit random numbers from the low bits of 64 calls of the C library's
  \<^verbatim>\<open>rand\<close>. The library generator is a parameter: its state, what \<^verbatim>\<open>srand\<close> sets it to, and the value and
  next state of one \<^verbatim>\<open>rand\<close> call. The function-local \<^verbatim>\<open>static\<close> flag is part of the state.
\<close>

record 's rng =
  firstTime :: bool
  rand_state :: 's

fun rand_loop :: "('s \<Rightarrow> nat \<times> 's) \<Rightarrow> nat \<Rightarrow> uint64 \<Rightarrow> 's \<Rightarrow> uint64 \<times> 's" where
  "rand_loop rnd 0 r s = (r, s)"
| "rand_loop rnd (Suc n) r s =
     (case rnd s of (x, s') \<Rightarrow> rand_loop rnd n (r * 2 + word_of_nat x mod 2) s')"

definition rand_uint64 :: "('s \<Rightarrow> nat \<times> 's) \<Rightarrow> 's \<Rightarrow> uint64 \<times> 's" where
  "rand_uint64 rnd s = rand_loop rnd 64 0 s"

definition generate_random_uint ::
    "(uint32 \<Rightarrow> 's) \<Rightarrow> ('s \<Rightarrow> nat \<times> 's) \<Rightarrow> uint64 \<Rightarrow> 's rng \<Rightarrow> uint64 \<Rightarrow> uint64
     \<Rightarrow> (uint64 \<times> 's rng) c_result" where
  "generate_random_uint srnd rnd time st lo hi =
     (let st1 = (if firstTime st then \<lparr>firstTime = False, rand_state = srnd (ucast time)\<rparr> else st) in
      case rand_uint64 rnd (rand_state st1) of (r, s') \<Rightarrow>
        if hi - lo = 0 then Inl Div_By_Zero
        else Inr ((r mod (hi - lo)) + lo, st1\<lparr>rand_state := s'\<rparr>))"

subsection \<open>Properties\<close>

text \<open>
  The generator returns a number in the half-open range from \<open>lo\<close> to \<open>hi\<close>, whatever the library
  generator does, and leaves the seeding flag cleared.
\<close>

theorem generate_random_uint_range:
  assumes "lo < hi"
  shows "\<exists>x st'. generate_random_uint srnd rnd time st lo hi = Inr (x, st')
     \<and> lo \<le> x \<and> x < hi \<and> \<not> firstTime st'"
proof -
  let ?st = "if firstTime st then \<lparr>firstTime = False, rand_state = srnd (ucast time)\<rparr> else st"
  obtain r s' where r: "rand_uint64 rnd (rand_state ?st) = (r, s')" by force
  define k where "k = r mod (hi - lo)"
  have pos: "hi - lo \<noteq> 0" using assms by auto
  have d: "unat (hi - lo) = unat hi - unat lo"
    using assms by (intro unat_sub) simp
  have "unat k < unat hi - unat lo"
    using pos d by (metis k_def mod_less_divisor unat_gt_0 unat_mod word_gt_0)
  then have less: "unat k + unat lo < unat hi" by simp
  then have "unat (k + lo) = unat k + unat lo"
    using unat64_bound [of hi] by (intro unat_add64) linarith
  then have "lo \<le> k + lo" "k + lo < hi"
    using less by (simp_all add: word_le_nat_alt word_less_nat_alt)
  then show ?thesis
    using r pos by (auto simp: generate_random_uint_def Let_def k_def)
qed

theorem generate_random_uint_range_witness:
  "\<exists>x st'. generate_random_uint (\<lambda>seed. unat seed) (\<lambda>s. (s, s + 7)) 1234
       \<lparr>firstTime = True, rand_state = 0\<rparr> 300 46744073709551615 = Inr (x, st')
     \<and> 300 \<le> x \<and> x < 46744073709551615 \<and> \<not> firstTime st'"
  by (rule generate_random_uint_range) simp

end
