(* ===== verification/Codec.thy ===== *)
theory Codec
  imports Main
begin

text \<open>
  Interfaces that several components share: a pair of an encoder and a decoder, encoders whose output ends with a
  delimiter that occurs nowhere else, an operation that sends such output over a stream, and a step relation with a predicate that every step keeps. What the users
  of such components rely on is proved here once.
\<close>

subsection \<open>Encoders and decoders\<close>

locale codec =
  fixes enc :: "'a \<Rightarrow> 'b"
    and decode :: "'b \<Rightarrow> 'a option"
    and ok :: "'a \<Rightarrow> bool"
  assumes decode_enc: "ok x \<Longrightarrow> decode (enc x) = Some x"
begin

lemma enc_inject: "ok x \<Longrightarrow> ok y \<Longrightarrow> enc x = enc y \<longleftrightarrow> x = y"
  using decode_enc by (metis option.inject)

lemma map_decode: "list_all ok xs \<Longrightarrow> map decode (map enc xs) = map Some xs"
  by (induction xs) (simp_all add: decode_enc)

end

text \<open>One codec on top of another.\<close>

locale codec_stack = inner: codec enc1 decode1 ok1 + outer: codec enc2 decode2 ok2
  for enc1 :: "'a \<Rightarrow> 'b" and decode1 :: "'b \<Rightarrow> 'a option" and ok1 :: "'a \<Rightarrow> bool"
    and enc2 :: "'b \<Rightarrow> 'c" and decode2 :: "'c \<Rightarrow> 'b option" and ok2 :: "'b \<Rightarrow> bool" +
  assumes ok2_enc1: "ok1 x \<Longrightarrow> ok2 (enc1 x)"

sublocale codec_stack \<subseteq> stack: codec "\<lambda>x. enc2 (enc1 x)" "\<lambda>y. Option.bind (decode2 y) decode1" ok1
  by unfold_locales (simp add: outer.decode_enc ok2_enc1 inner.decode_enc)

subsection \<open>Delimited frames\<close>

text \<open>Cutting a stream behind every delimiter; what follows the last delimiter is no frame.\<close>

fun split_frames :: "'c \<Rightarrow> 'c list \<Rightarrow> 'c list \<Rightarrow> 'c list list" where
  "split_frames z acc [] = []"
| "split_frames z acc (c # cs) =
     (if c = z then (acc @ [c]) # split_frames z [] cs else split_frames z (acc @ [c]) cs)"

lemma split_frames_body: "z \<notin> set b \<Longrightarrow> split_frames z acc (b @ z # rest) = (acc @ b @ [z]) # split_frames z [] rest"
  by (induction b arbitrary: acc) auto

locale delimited = codec enc decode ok
  for enc :: "'a \<Rightarrow> 'c list" and decode :: "'c list \<Rightarrow> 'a option" and ok :: "'a \<Rightarrow> bool" +
  fixes delim :: 'c
  assumes enc_delim: "ok x \<Longrightarrow> \<exists>b. enc x = b @ [delim] \<and> delim \<notin> set b"
begin

lemma split_stream: "list_all ok xs \<Longrightarrow> split_frames delim [] (concat (map enc xs)) = map enc xs"
proof (induction xs)
  case (Cons x xs)
  then obtain b where "enc x = b @ [delim]" "delim \<notin> set b"
    using enc_delim by auto
  then show ?case
    using Cons split_frames_body [of delim b "[]"] by simp
qed simp

lemma decode_stream: "list_all ok xs \<Longrightarrow> map decode (split_frames delim [] (concat (map enc xs))) = map Some xs"
  by (simp only: split_stream map_decode)

end

subsection \<open>Transport of messages\<close>

text \<open>
  Sending a list of messages one after the other over a stream; the state \<open>e\<close> says what the stream accepts, and a failed operation is
  \<open>None\<close>.
\<close>

fun send_all :: "('a \<Rightarrow> 'e \<Rightarrow> ('c list \<times> 'e) option) \<Rightarrow> 'a list \<Rightarrow> 'e \<Rightarrow> ('c list \<times> 'e) option" where
  "send_all send [] e = Some ([], e)"
| "send_all send (x # xs) e =
     Option.bind (send x e) (\<lambda>(w, e). Option.bind (send_all send xs e) (\<lambda>(w', e). Some (w @ w', e)))"

locale transport = delimited enc decode ok delim
  for enc :: "'a \<Rightarrow> 'c list" and decode :: "'c list \<Rightarrow> 'a option" and ok :: "'a \<Rightarrow> bool" and delim :: 'c +
  fixes send :: "'a \<Rightarrow> 'e \<Rightarrow> ('c list \<times> 'e) option"
    and credit :: "'e \<Rightarrow> nat"
  assumes send_enc: "ok x \<Longrightarrow> length (enc x) \<le> credit e \<Longrightarrow> \<exists>e'. send x e = Some (enc x, e') \<and> credit e \<le> credit e' + length (enc x)"
begin

lemma send_all_enc:
  "list_all ok xs \<Longrightarrow> length (concat (map enc xs)) \<le> credit e \<Longrightarrow> \<exists>e'. send_all send xs e = Some (concat (map enc xs), e')"
proof (induction xs arbitrary: e)
  case (Cons x xs)
  then obtain e1 where e1: "send x e = Some (enc x, e1)" "credit e \<le> credit e1 + length (enc x)"
    using send_enc [of x e] by auto
  then obtain e2 where "send_all send xs e1 = Some (concat (map enc xs), e2)"
    using Cons.IH [of e1] Cons.prems by auto
  with e1(1) show ?case by simp
qed simp

lemma transported:
  assumes "list_all ok xs" "length (concat (map enc xs)) \<le> credit e"
  shows "\<exists>w e'. send_all send xs e = Some (w, e') \<and> map decode (split_frames delim [] w) = map Some xs"
  using send_all_enc [OF assms] decode_stream [OF assms(1)] by auto

end

subsection \<open>Step relations\<close>

locale preserved =
  fixes step :: "'s \<Rightarrow> 's \<Rightarrow> bool"
    and inv :: "'s \<Rightarrow> bool"
  assumes step_inv: "inv s \<Longrightarrow> step s s' \<Longrightarrow> inv s'"
begin

lemma run_inv: "step\<^sup>*\<^sup>* s s' \<Longrightarrow> inv s \<Longrightarrow> inv s'"
  by (induction rule: rtranclp_induct) (auto intro: step_inv)

end

end
