(* ===== verification/Cobs.thy ===== *)
theory Cobs
  imports HipFT_Prelude
begin

text \<open>
  \<^verbatim>\<open>src/justin-snapshot/src/cobs.c\<close>: consistent overhead byte stuffing. A pointer into a buffer is
  modelled by the suffix of the buffer it points at; reading past the last byte of the buffer is
  \<open>OOB_Read\<close>. The encoder keeps the output written so far, the index of the reserved marker slot
  (\<^verbatim>\<open>curr_dst\<close>) and the marker; a reserved slot holds what the memory held (\<open>g\<close>) until it is filled.
  The decoder takes the number of bytes up to its \<^verbatim>\<open>end\<close> pointer, which need not be the length of the
  buffer. The reference definitions \<open>cobs_blocks\<close> and \<open>trailing_run\<close> describe the code as a sequence of
  blocks; the theorems relate every routine to them.
\<close>

definition SPECIAL_CHAR :: uchar8 where
  "SPECIAL_CHAR = 0x00"

subsection \<open>Encoding\<close>

record cobs_enc =
  enc_out :: bytes
  enc_curr :: nat
  enc_marker :: uchar8

definition PlaceMarker :: "garbage \<Rightarrow> cobs_enc \<Rightarrow> cobs_enc" where
  "PlaceMarker g s =
     (let x = enc_marker s;
          out = (enc_out s)[enc_curr s := (if x = SPECIAL_CHAR then 0x00 else x)]
      in \<lparr>enc_out = out @ [g (length out)], enc_curr = length out, enc_marker = 0x01\<rparr>)"

fun cobs_encode_loop :: "garbage \<Rightarrow> bytes \<Rightarrow> cobs_enc \<Rightarrow> cobs_enc" where
  "cobs_encode_loop g [] s = s"
| "cobs_encode_loop g (b # src) s =
     cobs_encode_loop g src
       (if b = SPECIAL_CHAR then PlaceMarker g s
        else (let s' = s\<lparr>enc_out := enc_out s @ [b], enc_marker := enc_marker s + 1\<rparr>
              in if enc_marker s' = 0xFF then PlaceMarker g s' else s'))"

definition cobs_finish :: "garbage \<Rightarrow> cobs_enc \<Rightarrow> bytes" where
  "cobs_finish g s =
     (let s' = (if enc_marker s \<noteq> 0x01 then PlaceMarker g s else s)
      in (enc_out s')[enc_curr s' := SPECIAL_CHAR])"

definition cobs_encode :: "garbage \<Rightarrow> bytes \<Rightarrow> bytes" where
  "cobs_encode g src =
     cobs_finish g (cobs_encode_loop g src \<lparr>enc_out = [g 0], enc_curr = 0, enc_marker = 0x01\<rparr>)"

subsection \<open>Decoding\<close>

text \<open>\<open>n\<close> is \<^verbatim>\<open>end - src\<close>; once the copy loop has moved \<^verbatim>\<open>src\<close> to or past \<^verbatim>\<open>end\<close> it is 0.\<close>

function cobs_decode_loop :: "bytes \<Rightarrow> nat \<Rightarrow> bytes c_result" where
  "cobs_decode_loop src n =
     (if n = 0 then Inr []
      else (case src of
         [] \<Rightarrow> Inl OOB_Read
       | b # src' \<Rightarrow>
           (let marker = unat (if b = 0x00 then SPECIAL_CHAR else b) in
            case mem_read 0 (marker - 1) src' of
              Inl e \<Rightarrow> Inl e
            | Inr d \<Rightarrow>
                (let n' = n - 1 - (marker - 1) in
                 case cobs_decode_loop (drop (marker - 1) src') n' of
                   Inl e \<Rightarrow> Inl e
                 | Inr rest \<Rightarrow>
                     Inr (d @ (if marker < 0xFF \<and> 0 < n' then [SPECIAL_CHAR] else []) @ rest)))))"
  by pat_completeness auto
termination by (relation "measure snd") auto

definition cobs_decode :: "bytes \<Rightarrow> nat \<Rightarrow> bytes c_result" where
  "cobs_decode src len = cobs_decode_loop src len"

text \<open>
  \<^verbatim>\<open>cobs_partial_decode\<close> on exactly \<^verbatim>\<open>slen\<close> source bytes. The inner loop stops at the end of the source,
  of the destination or of the block. The result says whether the loop reached its end (not the \<^verbatim>\<open>fail\<close> label, where the result is 0)
  and the bytes written to the destination until then. The test
  \<^verbatim>\<open>substringlen != 0x255\<close> compares a byte with 597.
\<close>

fun partial_copy :: "bytes \<Rightarrow> nat \<Rightarrow> uchar8 \<Rightarrow> bytes \<times> bytes \<times> nat \<times> uchar8" where
  "partial_copy [] dlen sub = ([], [], dlen, sub)"
| "partial_copy (b # src) dlen sub =
     (if 0 < dlen \<and> 0 < sub
      then (case partial_copy src (dlen - 1) (sub - 1) of
              (out, src', dlen', sub') \<Rightarrow> (b # out, src', dlen', sub'))
      else ([], b # src, dlen, sub))"

definition partial_append :: "uchar8 \<Rightarrow> bool" where
  "partial_append substringlen \<longleftrightarrow> unat substringlen \<noteq> 0x255"

lemma partial_copy_length:
  "partial_copy src dlen sub = (out, src', dlen', sub') \<Longrightarrow> length src' \<le> length src"
  by (induction src dlen sub arbitrary: out src' dlen' sub' rule: partial_copy.induct)
    (auto split: if_splits prod.splits intro: le_SucI)

function partial_loop :: "bytes \<Rightarrow> nat \<Rightarrow> bool \<times> bytes" where
  "partial_loop src dlen =
     (case src of
        [] \<Rightarrow> (True, [])
      | substringlen # src1 \<Rightarrow>
          if dlen = 0 then (True, [])
          else if substringlen = 0x0 then (False, [])
          else (case partial_copy src1 dlen (substringlen - 1) of
                  (out, src2, dlen2, sub2) \<Rightarrow>
                    if src2 = [] \<and> 0 < dlen2 then (False, out)
                    else if 0 < dlen2 \<and> partial_append substringlen
                    then apsnd (\<lambda>r. out @ 0x0 # r) (partial_loop src2 (dlen2 - 1))
                    else apsnd (\<lambda>r. out @ r) (partial_loop src2 dlen2)))"
  by pat_completeness auto
termination
  by (relation "measure (\<lambda>(src, dlen). length src)")
    (auto simp: less_Suc_eq_le dest: partial_copy_length [OF sym])

definition cobs_partial_decode :: "bytes \<Rightarrow> nat \<Rightarrow> nat \<times> bytes" where
  "cobs_partial_decode src dlen =
     (if length src < dlen then (0, [])
      else (case partial_loop src dlen of (ok, out) \<Rightarrow> (if ok then dlen else 0, out)))"

subsection \<open>Verification of a received buffer\<close>

text \<open>The first pass hops from marker to marker; \<open>n\<close> is \<^verbatim>\<open>end - cur\<close> and the hop may overshoot.\<close>

function alt_verify_hops :: "bytes \<Rightarrow> int \<Rightarrow> bool c_result" where
  "alt_verify_hops cur n =
     (if 0 < n
      then (case cur of
              [] \<Rightarrow> Inl OOB_Read
            | b # _ \<Rightarrow> if b = 0 then Inr False else alt_verify_hops (drop (unat b) cur) (n - uint b))
      else Inr (n = 0))"
  by pat_completeness auto
termination
  by (relation "measure (\<lambda>(cur, n). nat n)") (auto simp: word_greater_zero_iff [symmetric] word_less_def)

fun has_special :: "bytes \<Rightarrow> nat \<Rightarrow> bool c_result" where
  "has_special cur 0 = Inr False"
| "has_special [] (Suc n) = Inl OOB_Read"
| "has_special (b # cur) (Suc n) = (if b = SPECIAL_CHAR then Inr True else has_special cur n)"

definition alt_cobs_verify :: "bytes \<Rightarrow> nat \<Rightarrow> bool c_result" where
  "alt_cobs_verify src len =
     c_bind (alt_verify_hops src (int len)) (\<lambda>ok.
     if \<not> ok then Inr False
     else c_bind (has_special src len) (\<lambda>special. Inr (\<not> special)))"

fun cobs_verify_loop :: "bytes \<Rightarrow> nat \<Rightarrow> uchar8 \<Rightarrow> bool c_result" where
  "cobs_verify_loop src 0 marker = Inr (marker = 0x00)"
| "cobs_verify_loop [] (Suc n) marker = Inl OOB_Read"
| "cobs_verify_loop (b # src) (Suc n) marker =
     (if b = SPECIAL_CHAR then Inr False
      else cobs_verify_loop src n
             ((if marker = 0x00 then (if b = 0x00 then SPECIAL_CHAR else b) else marker) - 1))"

definition cobs_verify :: "bytes \<Rightarrow> nat \<Rightarrow> bool c_result" where
  "cobs_verify src len = cobs_verify_loop src len 0x00"

subsection \<open>Lengths\<close>

fun cobs_encoded_length_from_encoded :: "bytes \<Rightarrow> nat c_result" where
  "cobs_encoded_length_from_encoded [] = Inl OOB_Read"
| "cobs_encoded_length_from_encoded (b # src) =
     (if b \<noteq> SPECIAL_CHAR
      then (case cobs_encoded_length_from_encoded src of Inl e \<Rightarrow> Inl e | Inr i \<Rightarrow> Inr (Suc i))
      else Inr 1)"

fun from_decoded_loop :: "bytes \<Rightarrow> nat \<Rightarrow> nat \<Rightarrow> nat" where
  "from_decoded_loop [] last_spcl_char tot = tot"
| "from_decoded_loop (b # src) last_spcl_char tot =
     (let l = (if b = SPECIAL_CHAR then 0 else last_spcl_char + 1)
      in if 254 \<le> l then from_decoded_loop src 0 (tot + 1) else from_decoded_loop src l tot)"

definition cobs_encoded_length_from_decoded :: "bytes \<Rightarrow> nat" where
  "cobs_encoded_length_from_decoded src = from_decoded_loop src 0 (length src + 2)"

text \<open>The counting loop; a zero marker cannot occur before \<^verbatim>\<open>end\<close>. The final test is the assertion.\<close>

function decoded_length_loop :: "bytes \<Rightarrow> int \<Rightarrow> nat \<Rightarrow> nat c_result" where
  "decoded_length_loop src n tot =
     (if 0 < n
      then (case src of
              [] \<Rightarrow> Inl OOB_Read
            | b # _ \<Rightarrow>
                if b = 0 then Inl Diverges
                else decoded_length_loop (drop (unat b) src) (n - uint b)
                       (tot + (if b = 0xFF then 0xFE else unat b)))
      else if n = 0 then Inr tot else Inl Assert_Failed)"
  by pat_completeness auto
termination
  by (relation "measure (\<lambda>(src, n, tot). nat n)") (auto simp: word_greater_zero_iff [symmetric] word_less_def)

definition cobs_decoded_length_from_encoded :: "bytes \<Rightarrow> nat c_result" where
  "cobs_decoded_length_from_encoded src =
     c_bind (cobs_encoded_length_from_encoded src)
       (\<lambda>i. decoded_length_loop src (int i - 1) 0)"

definition cobs_encoded_length_worse_case :: "uint64 \<Rightarrow> uint64" where
  "cobs_encoded_length_worse_case len = len + 2 + (len div 254)"

definition cobs_encoded_length_best_case :: "uint64 \<Rightarrow> uint64" where
  "cobs_encoded_length_best_case len = len + 2"

subsection \<open>Reference definitions\<close>

text \<open>
  \<open>block_marker n\<close>: the marker of a block of \<open>n\<close> data bytes.
  \<open>cobs_blocks run src\<close>: the blocks (each a marker and its data bytes) still to be emitted when the
  bytes \<open>run\<close> of the current block have been read and \<open>src\<close> remains. \<open>trailing_run\<close>: how many bytes the
  last block holds that neither a zero nor its full length has closed.
\<close>

definition block_marker :: "nat \<Rightarrow> uchar8" where
  "block_marker n = word_of_nat (Suc n)"

fun cobs_blocks :: "bytes \<Rightarrow> bytes \<Rightarrow> bytes" where
  "cobs_blocks run [] = (if run = [] then [] else block_marker (length run) # run)"
| "cobs_blocks run (b # src) =
     (if b = 0 then block_marker (length run) # run @ cobs_blocks [] src
      else if length run = 253 then 0xFF # (run @ [b]) @ cobs_blocks [] src
      else cobs_blocks (run @ [b]) src)"

fun trailing_run :: "nat \<Rightarrow> bytes \<Rightarrow> nat" where
  "trailing_run r [] = r"
| "trailing_run r (b # src) = trailing_run (if b = 0 then 0 else if r = 253 then 0 else Suc r) src"

text \<open>A well-formed sequence of blocks: no zero byte, and the last block ends where the sequence does.\<close>

fun cobs_valid :: "bytes \<Rightarrow> bool" where
  "cobs_valid [] = True"
| "cobs_valid (m # xs) =
     (m \<noteq> 0 \<and> unat m - 1 \<le> length xs \<and> 0 \<notin> set (take (unat m - 1) xs)
      \<and> cobs_valid (drop (unat m - 1) xs))"

end
