(* ===== verification/Cobs_Correct.thy ===== *)
theory Cobs_Correct
  imports Cobs
begin

text \<open>Theorems on the COBS routines.\<close>

subsection \<open>Markers as bytes\<close>

lemma unat_byte [simp]: "n < 256 \<Longrightarrow> unat (word_of_nat n :: uchar8) = n"
  by (simp add: unat_of_nat take_bit_nat_eq_self)

lemma byte_of_nat_inject: "m < 256 \<Longrightarrow> n < 256 \<Longrightarrow> (word_of_nat m :: uchar8) = word_of_nat n \<longleftrightarrow> m = n"
  by (metis unat_byte)

lemma unat_byte_bound [simp]: "unat (b :: uchar8) < 256"
  using unsigned_less [of b] by simp

lemma unat_block_marker [simp]: "n \<le> 254 \<Longrightarrow> unat (block_marker n) = Suc n"
  unfolding block_marker_def by (rule unat_byte) simp

lemma block_marker_inject: "m \<le> 254 \<Longrightarrow> n \<le> 254 \<Longrightarrow> block_marker m = block_marker n \<longleftrightarrow> m = n"
  by (metis unat_block_marker Suc_inject)

lemma block_marker_consts [simp]: "block_marker 0 = 1" "block_marker 254 = 0xFF"
  by (simp_all add: block_marker_def)

lemma byte_marker_simps [simp]:
  "n \<le> 254 \<Longrightarrow> block_marker n \<noteq> 0"
  "n \<le> 254 \<Longrightarrow> 0 \<noteq> block_marker n"
  "n \<le> 254 \<Longrightarrow> block_marker n = 1 \<longleftrightarrow> n = 0"
  "n \<le> 254 \<Longrightarrow> block_marker n = 0xFF \<longleftrightarrow> n = 254"
  "block_marker n + 1 = block_marker (Suc n)"
  using unat_block_marker [of n] block_marker_inject [of n 0] block_marker_inject [of n 254]
  by (auto simp: block_marker_consts block_marker_def simp del: unat_block_marker block_marker_consts)

subsection \<open>The encoder emits the blocks\<close>

lemma encode_loop_blocks:
  assumes "length run \<le> 253" "0 \<notin> set run"
  shows "cobs_finish g (cobs_encode_loop g src
           \<lparr>enc_out = pre @ x # run, enc_curr = length pre, enc_marker = block_marker (length run)\<rparr>)
         = pre @ cobs_blocks run src @ [0]"
  using assms
proof (induction src arbitrary: pre x run)
  case Nil
  then show ?case
    by (auto simp: cobs_finish_def PlaceMarker_def SPECIAL_CHAR_def Let_def
        list_update_append)
next
  case (Cons b src)
  let ?m = "block_marker (length run)"
  show ?case
  proof (cases "b = 0")
    case True
    then show ?thesis
      using Cons.prems Cons.IH [of "[]" "pre @ ?m # run"]
      by (simp add: PlaceMarker_def SPECIAL_CHAR_def Let_def list_update_append)
  next
    case False
    show ?thesis
    proof (cases "length run = 253")
      case True
      then show ?thesis
        using False Cons.prems Cons.IH [of "[]" "pre @ 0xFF # run @ [b]"]
        by (simp add: PlaceMarker_def SPECIAL_CHAR_def Let_def list_update_append)
    next
      case short: False
      then show ?thesis
        using False Cons.prems Cons.IH [of "run @ [b]" pre x]
        by (simp add: SPECIAL_CHAR_def Let_def)
    qed
  qed
qed

lemma cobs_encode_blocks: "cobs_encode g src = cobs_blocks [] src @ [0]"
  using encode_loop_blocks [of "[]" g src "[]" "g 0"] by (simp add: cobs_encode_def block_marker_consts)

lemma cobs_blocks_no_zero:
  "length run \<le> 253 \<Longrightarrow> 0 \<notin> set run \<Longrightarrow> 0 \<notin> set (cobs_blocks run src)"
  by (induction run src rule: cobs_blocks.induct) (auto simp: split: if_splits)

lemma cobs_blocks_Nil_iff: "cobs_blocks run src = [] \<longleftrightarrow> run = [] \<and> src = []"
  by (induction run src rule: cobs_blocks.induct) auto

subsection \<open>Decoding blocks\<close>

declare cobs_decode_loop.simps [simp del]

lemma cobs_decode_loop_0 [simp]: "cobs_decode_loop src 0 = Inr []"
  by (simp add: cobs_decode_loop.simps)

lemma unat_byte_lt_255: "unat (m :: uchar8) < 255 \<longleftrightarrow> m \<noteq> 0xFF"
  using unat_byte_bound [of m] word_unat_eq_iff [of m "0xFF"] by (simp, linarith)

lemma cobs_decode_loop_block:
  assumes "unat m = Suc (length d)" "n = Suc (length d) + n'"
  shows "cobs_decode_loop (m # d @ rest) n =
     (case cobs_decode_loop rest n' of Inl e \<Rightarrow> Inl e
      | Inr r \<Rightarrow> Inr (d @ (if m \<noteq> 0xFF \<and> 0 < n' then [0] else []) @ r))"
proof -
  have "m \<noteq> 0" using assms(1) by auto
  moreover have "Suc (length d) < 255 \<longleftrightarrow> m \<noteq> 0xFF"
    using unat_byte_lt_255 [of m] assms(1) by simp
  ultimately show ?thesis
    using assms by (subst cobs_decode_loop.simps) (simp add: SPECIAL_CHAR_def Let_def split: sum.split)
qed

lemma cobs_decode_loop_terminator: "cobs_decode_loop (0 # rest) (Suc 0) = Inr []"
  by (subst cobs_decode_loop.simps) (simp add: SPECIAL_CHAR_def mem_read_def)

text \<open>With the delimiter counted in the length, an open last block gains a zero.\<close>

lemma decode_blocks_terminated:
  assumes "length run \<le> 253" "0 \<notin> set run"
  shows "cobs_decode_loop (cobs_blocks run src @ 0 # junk) (Suc (length (cobs_blocks run src))) =
     Inr (run @ src @ (if trailing_run (length run) src = 0 then [] else [0]))"
  using assms
proof (induction run src rule: cobs_blocks.induct)
  case (1 run)
  then show ?case
    by (auto simp: cobs_decode_loop_terminator
        cobs_decode_loop_block [where n' = "Suc 0"])
next
  case (2 run b src)
  then show ?case
    by (auto simp: cobs_decode_loop_block [where n' = "Suc (length (cobs_blocks [] src))"]
        cobs_decode_loop_block [where d = "run @ [b]" and n' = "Suc (length (cobs_blocks [] src))", simplified])
qed

text \<open>A length that goes on behind closed blocks decodes what follows as further blocks.\<close>

lemma decode_blocks_then:
  assumes "length run \<le> 253" "0 \<notin> set run" "trailing_run (length run) src = 0" "0 < k"
  shows "cobs_decode_loop (cobs_blocks run src @ rest) (length (cobs_blocks run src) + k) =
     (case cobs_decode_loop rest k of Inl e \<Rightarrow> Inl e | Inr r \<Rightarrow> Inr (run @ src @ r))"
  using assms
proof (induction run src rule: cobs_blocks.induct)
  case (1 run)
  then show ?case by (simp split: sum.split)
next
  case (2 run b src)
  then show ?case
    by (cases "b = 0"; cases "length run = 253")
      (simp_all add: cobs_decode_loop_block [where n' = "length (cobs_blocks [] src) + k"]
        cobs_decode_loop_block [where d = "run @ [b]" and n' = "length (cobs_blocks [] src) + k", simplified] split: sum.split)
qed

text \<open>Without it, a final zero is lost.\<close>

lemma decode_blocks_unterminated:
  assumes "length run \<le> 253" "0 \<notin> set run"
  shows "cobs_decode_loop (cobs_blocks run src @ junk) (length (cobs_blocks run src)) =
     Inr (if src \<noteq> [] \<and> last src = 0 then run @ butlast src else run @ src)"
  using assms
proof (induction run src rule: cobs_blocks.induct)
  case (1 run)
  then show ?case
    by (auto simp: cobs_decode_loop_block [where n' = 0])
next
  case (2 run b src)
  then show ?case
    by (auto simp: cobs_blocks_Nil_iff
        cobs_decode_loop_block [where n' = "length (cobs_blocks [] src)"]
        cobs_decode_loop_block [where d = "run @ [b]" and n' = "length (cobs_blocks [] src)", simplified])
qed

subsection \<open>Lengths\<close>

lemma encoded_length_scan:
  "0 \<notin> set xs \<Longrightarrow> cobs_encoded_length_from_encoded (xs @ 0 # junk) = Inr (Suc (length xs))"
  by (induction xs) (auto simp: SPECIAL_CHAR_def)

lemma from_decoded_loop_acc: "from_decoded_loop src l tot = tot + from_decoded_loop src l 0"
proof (induction src arbitrary: l tot)
  case (Cons b src)
  show ?case
    using Cons [of 0 "tot + 1"] Cons [of 0 1] Cons [of "if b = SPECIAL_CHAR then 0 else l + 1" tot]
    by (simp add: Let_def)
qed simp

lemma length_cobs_blocks:
  assumes "length run \<le> 253" "0 \<notin> set run"
  shows "length (cobs_blocks run src) + (if trailing_run (length run) src = 0 then 1 else 0) =
     length run + length src + 1 + from_decoded_loop src (length run) 0"
  using assms
proof (induction run src rule: cobs_blocks.induct)
  case (2 run b src)
  then show ?case
    using from_decoded_loop_acc [of src 0 1]
    by (cases "b = 0"; cases "length run = 253") (simp_all add: SPECIAL_CHAR_def Let_def)
qed simp

lemma from_decoded_loop_bound: "r \<le> 253 \<Longrightarrow> from_decoded_loop src r 0 \<le> (r + length src) div 254"
proof (induction src arbitrary: r)
  case (Cons b src)
  have "from_decoded_loop src 0 1 \<le> 1 + length src div 254"
    using Cons.IH [of 0] from_decoded_loop_acc [of src 0 1] by simp
  moreover have "1 + length src div 254 = (254 + length src) div 254" by simp
  moreover have "length src div 254 \<le> (r + Suc (length src)) div 254" by (rule div_le_mono) simp
  ultimately show ?case
    using Cons.prems Cons.IH [of 0] Cons.IH [of "Suc r"]
    by (cases "r = 253") (auto simp: Let_def)
qed simp

lemma length_cobs_blocks_ge:
  assumes "length run \<le> 253" "0 \<notin> set run"
  shows "length run + length src \<le> length (cobs_blocks run src)"
  using length_cobs_blocks [OF assms, of src] by (simp split: if_splits)

subsection \<open>Verification\<close>

declare alt_verify_hops.simps [simp del]
declare decoded_length_loop.simps [simp del]

lemma unat_minus_1 [simp]: "(b :: uchar8) \<noteq> 0 \<Longrightarrow> unat (b - 1) = unat b - 1"
  by (simp add: unat_minus_one)

lemma cobs_verify_loop_valid:
  "n \<le> length src \<Longrightarrow> cobs_verify_loop src n m =
     Inr (unat m \<le> n \<and> 0 \<notin> set (take (unat m) src) \<and> cobs_valid (take (n - unat m) (drop (unat m) src)))"
proof (induction src n m rule: cobs_verify_loop.induct)
  case (1 src m)
  then show ?case by (auto simp: unat_eq_0)
next
  case (3 b src n m)
  show ?case
  proof (cases "m = 0")
    case True
    then show ?thesis
      using 3 by (auto simp: SPECIAL_CHAR_def take_drop min_def)
  next
    case False
    then obtain k where "unat m = Suc k" by (metis not0_implies_Suc unat_eq_0)
    then show ?thesis
      using 3 False by (cases "b = 0") (auto simp: SPECIAL_CHAR_def)
  qed
qed simp

lemma has_special_iff: "n \<le> length src \<Longrightarrow> has_special src n = Inr (0 \<in> set (take n src))"
  by (induction src n rule: has_special.induct) (auto simp: SPECIAL_CHAR_def)

text \<open>One hop of the verifier, over a block of \<open>k\<close> data bytes that may be longer than what is left.\<close>

lemma alt_verify_hop:
  assumes "0 < n" "unat b = Suc k"
  shows "alt_verify_hops (b # xs) (int n) =
     (if Suc k \<le> n then alt_verify_hops (drop k xs) (int (n - Suc k)) else Inr False)"
proof -
  have "b \<noteq> 0" using assms(2) by auto
  then have "alt_verify_hops (b # xs) (int n) = alt_verify_hops (drop k xs) (int n - int (Suc k))"
    using assms by (subst alt_verify_hops.simps) (simp add: uint_nat)
  moreover have "int n - int (Suc k) = int (n - Suc k)" if "Suc k \<le> n" using that by simp
  moreover have "alt_verify_hops (drop k xs) (int n - int (Suc k)) = Inr False" if "\<not> Suc k \<le> n"
    using that by (subst alt_verify_hops.simps) simp
  ultimately show ?thesis by metis
qed

lemma valid_block_take:
  assumes "unat b = Suc k" "Suc k \<le> n" "n \<le> Suc (length xs)"
  shows "cobs_valid (take n (b # xs)) \<longleftrightarrow> 0 \<notin> set (take k xs) \<and> cobs_valid (take (n - Suc k) (drop k xs))"
    "0 \<in> set (take n (b # xs)) \<longleftrightarrow> 0 \<in> set (take k xs) \<or> 0 \<in> set (take (n - Suc k) (drop k xs))"
proof -
  obtain n' where n: "n = Suc n'" using assms(2) by (cases n) auto
  have b: "b \<noteq> 0" using assms(1) by auto
  show "cobs_valid (take n (b # xs)) \<longleftrightarrow> 0 \<notin> set (take k xs) \<and> cobs_valid (take (n - Suc k) (drop k xs))"
    using assms b by (simp add: n drop_take min.absorb1)
  show "0 \<in> set (take n (b # xs)) \<longleftrightarrow> 0 \<in> set (take k xs) \<or> 0 \<in> set (take (n - Suc k) (drop k xs))"
    using assms(2) b take_add [of k "n' - k" xs] by (simp add: n)
qed

lemma alt_verify_hops_valid:
  "n \<le> length src \<Longrightarrow>
     \<exists>h. alt_verify_hops src (int n) = Inr h \<and> (h \<and> 0 \<notin> set (take n src) \<longleftrightarrow> cobs_valid (take n src))"
proof (induction n arbitrary: src rule: less_induct)
  case (less n)
  consider "n = 0" | b xs where "0 < n" "src = b # xs" "b = 0" | b xs k where "0 < n" "src = b # xs" "unat b = Suc k"
    using less.prems by (cases src; cases "unat (hd src)") (auto simp: unat_eq_0)
  then show ?case
  proof cases
    case 1
    then show ?thesis by (auto simp: alt_verify_hops.simps [of src 0])
  next
    case (2 b xs)
    then have "alt_verify_hops src (int n) = Inr False" by (subst alt_verify_hops.simps) simp
    moreover have "\<not> cobs_valid (take n src)" using 2 by (cases n) simp_all
    ultimately show ?thesis by blast
  next
    case (3 b xs k)
    show ?thesis
    proof (cases "Suc k \<le> n")
      case True
      have "n - Suc k < n" "n - Suc k \<le> length (drop k xs)"
        using less.prems 3(1,2) by auto
      then obtain h where "alt_verify_hops (drop k xs) (int (n - Suc k)) = Inr h"
        "h \<and> 0 \<notin> set (take (n - Suc k) (drop k xs)) \<longleftrightarrow> cobs_valid (take (n - Suc k) (drop k xs))"
        using less.IH by blast
      then show ?thesis
        using True valid_block_take [OF 3(3) True, of xs] less.prems by (auto simp: alt_verify_hop [OF 3(1,3)] 3(2))
    next
      case False
      then have "\<not> cobs_valid (take n src)" using 3 less.prems by (cases n) simp_all
      with False show ?thesis by (auto simp: alt_verify_hop [OF 3(1,3)] 3(2))
    qed
  qed
qed

lemma alt_cobs_verify_valid: "len \<le> length src \<Longrightarrow> alt_cobs_verify src len = Inr (cobs_valid (take len src))"
  using alt_verify_hops_valid [of len src]
  by (auto simp: alt_cobs_verify_def has_special_iff split: if_splits)

lemma cobs_verify_valid: "len \<le> length src \<Longrightarrow> cobs_verify src len = Inr (cobs_valid (take len src))"
  by (simp add: cobs_verify_def cobs_verify_loop_valid)

lemma cobs_blocks_valid:
  "length run \<le> 253 \<Longrightarrow> 0 \<notin> set run \<Longrightarrow> cobs_valid (cobs_blocks run src)"
  by (induction run src rule: cobs_blocks.induct) auto

subsection \<open>What decoding a verified buffer yields\<close>

text \<open>
  For a well-formed block sequence \<open>w\<close>: decoding it without the delimiter writes \<open>out\<close>; decoding it
  with the delimiter writes \<open>out @ z\<close>, where \<open>z\<close> is one zero byte unless \<open>w\<close> is empty or its last block is
  full; and the announced decoded length is the length of the latter.
\<close>

lemma decoded_length_loop_block:
  "unat m = Suc (length d) \<Longrightarrow>
   decoded_length_loop (m # d @ rest) (int (Suc (length d) + n)) acc =
   decoded_length_loop rest (int n) (acc + length d + (if m = 0xFF then 0 else 1))"
  by (subst decoded_length_loop.simps) (auto simp: uint_nat)

lemma cobs_valid_decode:
  "cobs_valid w \<Longrightarrow>
   \<exists>out z. cobs_decode_loop (w @ junk) (length w) = Inr out
     \<and> cobs_decode_loop (w @ 0 # junk') (Suc (length w)) = Inr (out @ z)
     \<and> (\<forall>acc. decoded_length_loop (w @ 0 # junk') (int (length w)) acc = Inr (acc + length (out @ z)))
     \<and> (z = [] \<or> z = [0]) \<and> length out \<le> length w - 1"
proof (induction w rule: cobs_valid.induct)
  case 1
  then show ?case
    by (auto simp: cobs_decode_loop_terminator decoded_length_loop.simps)
next
  case (2 m xs)
  define d where "d = take (unat m - 1) xs"
  define w where "w = drop (unat m - 1) xs"
  have xs: "xs = d @ w" by (simp add: d_def w_def)
  have m: "unat m = Suc (length d)" "m \<noteq> 0"
    using "2.prems" unat_gt_0 [of m] by (auto simp: d_def min_def)
  obtain out z where IH: "cobs_decode_loop (w @ junk) (length w) = Inr out"
     "cobs_decode_loop (w @ 0 # junk') (Suc (length w)) = Inr (out @ z)"
     "\<And>acc. decoded_length_loop (w @ 0 # junk') (int (length w)) acc = Inr (acc + length (out @ z))"
     "z = [] \<or> z = [0]" "length out \<le> length w - 1"
    using "2.IH" "2.prems" by (fastforce simp: w_def)
  let ?z1 = "if m \<noteq> 0xFF then [0] else [] :: bytes"
  have dec: "cobs_decode_loop (m # d @ w @ junk) (Suc (length d) + length w) =
       Inr (d @ (if w \<noteq> [] then ?z1 else []) @ out)"
    using m IH(1) by (subst cobs_decode_loop_block [where n' = "length w"]) auto
  have dect: "cobs_decode_loop (m # d @ w @ 0 # junk') (Suc (length d) + Suc (length w)) =
       Inr (d @ ?z1 @ out @ z)"
    using m IH(2) by (subst cobs_decode_loop_block [where n' = "Suc (length w)"]) auto
  have len: "decoded_length_loop (m # d @ w @ 0 # junk') (int (Suc (length d) + length w)) acc =
       Inr (acc + length (d @ ?z1 @ out @ z))" for acc
    using m IH(3) by (subst decoded_length_loop_block) (auto simp: algebra_simps)
  show ?case
  proof (cases "w = []")
    case True
    then have "out = []" "z = []"
      using IH(1,2) by (auto simp: cobs_decode_loop_terminator)
    then show ?thesis
      using True dec dect len by (auto simp: xs add.commute)
  next
    case False
    then have "length out < length w" using IH(5) by (cases w) auto
    then have "length (d @ ?z1 @ out) \<le> length (m # xs) - 1" by (simp add: xs)
    then show ?thesis
      using False dec dect len IH(4)
      by (intro exI [of _ "d @ ?z1 @ out"] exI [of _ z]) (simp add: xs)
  qed
qed

lemma cobs_valid_no_zero: "cobs_valid w \<Longrightarrow> 0 \<notin> set w"
  by (induction w rule: cobs_valid.induct) (auto, metis append_take_drop_id Un_iff set_append)

lemma cobs_valid_block:
  assumes "cobs_valid w"
  obtains out z where "cobs_decode (w @ 0 # junk) (length w) = Inr out"
    "cobs_decode (w @ 0 # junk) (Suc (length w)) = Inr (out @ z)"
    "cobs_decoded_length_from_encoded (w @ 0 # junk) = Inr (length out + length z)"
    "z = [] \<or> z = [0]" "length out \<le> length w - 1"
  using cobs_valid_decode [OF assms, of "0 # junk" junk] cobs_valid_no_zero [OF assms]
  by (auto simp: cobs_decode_def cobs_decoded_length_from_encoded_def encoded_length_scan)

subsection \<open>Partial decoding\<close>

declare partial_loop.simps [simp del]

lemma partial_copy_eq:
  "partial_copy src dlen sub =
     (let k = min (min (length src) dlen) (unat sub)
      in (take k src, drop k src, dlen - k, sub - word_of_nat k))"
proof (induction src dlen sub rule: partial_copy.induct)
  case (2 b src dlen sub)
  show ?case
  proof (cases "0 < dlen \<and> 0 < sub")
    case True
    then obtain d k where "dlen = Suc d" "unat sub = Suc k"
      by (metis gr0_implies_Suc unat_gt_0 word_gt_0)
    then show ?thesis
      using 2 True by (auto simp: Let_def word_gt_0)
  next
    case False
    then show ?thesis by (auto simp: Let_def word_gt_0)
  qed
qed simp

lemma partial_append_True [simp]: "partial_append m"
  using unat_byte_bound [of m] by (auto simp: partial_append_def simp del: unat_byte_bound)

lemma partial_loop_block:
  assumes "unat m = Suc (length d)"
  shows "partial_loop (m # d @ rest) dlen =
     (if dlen \<le> length d then (True, take dlen d)
      else if rest = [] then (False, d)
      else apsnd (\<lambda>r. d @ 0 # r) (partial_loop rest (dlen - length d - 1)))"
proof -
  have "m \<noteq> 0" using assms by auto
  moreover have "unat (m - 1) = length d" using assms calculation by simp
  moreover have "partial_loop src 0 = (True, [])" for src
    by (subst partial_loop.simps) (simp split: list.split)
  ultimately show ?thesis
    using assms by (subst partial_loop.simps) (auto simp: partial_copy_eq Let_def min_def)
qed

lemma partial_decode_blocks:
  assumes "length run \<le> 253" "0 \<notin> set run" "dlen \<le> 254" "dlen < length run + length src"
  shows "partial_loop (cobs_blocks run src) dlen = (True, take dlen (run @ src))"
  using assms
proof (induction run src arbitrary: dlen rule: cobs_blocks.induct)
  case (1 run)
  then show ?case
    using partial_loop_block [of "block_marker (length run)" run "[]"] by auto
next
  case (2 run b src)
  show ?case
  proof (cases "b = 0")
    case True
    show ?thesis
    proof (cases "dlen \<le> length run")
      case short: True
      then show ?thesis
        using True "2.prems" by (simp add: partial_loop_block)
    next
      case False
      then obtain k where "dlen = length run + Suc k" by (metis add_Suc_right less_imp_Suc_add not_le)
      then show ?thesis
        using True "2.prems" "2.IH"(1) [of k]
        by (auto simp: partial_loop_block cobs_blocks_Nil_iff)
    qed
  next
    case False
    show ?thesis
    proof (cases "length run = 253")
      case True
      then show ?thesis
        using False "2.prems" partial_loop_block [of "0xFF" "run @ [b]" "cobs_blocks [] src" dlen]
        by (cases "dlen = 254") simp_all
    next
      case short: False
      then show ?thesis using False 2 by simp
    qed
  qed
qed

lemma cobs_blocks_snoc_zero:
  "trailing_run (length run) src \<noteq> 0 \<Longrightarrow> cobs_blocks run (src @ [0]) = cobs_blocks run src"
  by (induction run src rule: cobs_blocks.induct) (auto split: if_splits)

lemma trailing_run_bound: "r \<le> 253 \<Longrightarrow> trailing_run r src \<le> 253"
  by (induction src arbitrary: r) auto

lemma trailing_run_snoc_zero [simp]: "trailing_run r (src @ [0]) = 0"
  by (induction src arbitrary: r) auto

subsection \<open>Properties\<close>

text \<open>
  C17. Encoding and then decoding with the delimiter counted in the length gives the source back, and
  one extra zero byte exactly when the source ends in an open block (does not end in a zero byte or
  in a full 254-byte block).
\<close>

theorem cobs_roundtrip_delimited:
  "cobs_decode (cobs_encode g src @ junk) (length (cobs_encode g src)) =
   Inr (src @ (if trailing_run 0 src = 0 then [] else [0]))"
  using decode_blocks_terminated [of "[]" src junk] by (simp add: cobs_decode_def cobs_encode_blocks)

text \<open>
  Decoding without the delimiter (the way the block reader calls the decoder) gives the source back
  unless it ends in a zero byte, and then exactly that byte is missing.
\<close>

theorem cobs_roundtrip_undelimited:
  "cobs_decode (cobs_encode g src @ junk) (length (cobs_encode g src) - 1) =
   Inr (if src \<noteq> [] \<and> last src = 0 then butlast src else src)"
  using decode_blocks_unterminated [of "[]" src "0 # junk"]
  by (simp add: cobs_decode_def cobs_encode_blocks)

text \<open>
  The encoder's output holds the delimiter at its end and nowhere else, whatever was in the
  destination memory, and the part before it passes the check that the receiver makes.
\<close>

theorem cobs_encode_framed:
  "\<exists>body. cobs_encode g src = body @ [SPECIAL_CHAR] \<and> SPECIAL_CHAR \<notin> set body
     \<and> alt_cobs_verify (cobs_encode g src) (length body) = Inr True"
  by (intro exI [of _ "cobs_blocks [] src"])
    (simp add: cobs_encode_blocks SPECIAL_CHAR_def alt_cobs_verify_valid cobs_blocks_valid cobs_blocks_no_zero)

text \<open>
  C29. \<^verbatim>\<open>cobs_verify\<close> and the hop-based \<^verbatim>\<open>alt_cobs_verify\<close> written to replace it give the same verdict on every
  buffer, namely whether it is a well-formed sequence of blocks.
\<close>

theorem cobs_verify_equivalence:
  assumes "len \<le> length src"
  shows "cobs_verify src len = alt_cobs_verify src len
    \<and> alt_cobs_verify src len = Inr (cobs_valid (take len src))"
  using assms by (simp add: cobs_verify_valid alt_cobs_verify_valid)

theorem cobs_verify_equivalence_witness:
  "cobs_verify [3, 7, 0, 9] 3 = alt_cobs_verify [3, 7, 0, 9] 3
   \<and> alt_cobs_verify [3, 7, 0, 9] 3 = Inr False"
  using cobs_verify_equivalence [of 3 "[3, 7, 0, 9]"] by simp

text \<open>
  C30. Memory safety of decoding a verified buffer: the decoder reads only the verified bytes and writes
  fewer bytes than it reads, so a destination of the source's size is large enough.
\<close>

theorem cobs_decode_verified_safe:
  assumes "len \<le> length buf" "alt_cobs_verify buf len = Inr True"
  shows "\<exists>out. cobs_decode buf len = Inr out \<and> length out \<le> len - 1"
proof -
  have "cobs_valid (take len buf)"
    using assms by (simp add: alt_cobs_verify_valid)
  then show ?thesis
    using cobs_valid_decode [of "take len buf" "drop len buf"] assms(1)
    by (auto simp: cobs_decode_def)
qed

theorem cobs_decode_verified_safe_witness:
  "\<exists>out. cobs_decode [3, 7, 8, 2, 9] 5 = Inr out \<and> length out \<le> 5 - 1"
  by (rule cobs_decode_verified_safe) (simp_all add: alt_cobs_verify_valid)

text \<open>
  For a verified buffer followed by its delimiter, the announced decoded length is the number of bytes
  written by a decoder run that includes the delimiter. A run that excludes it writes the same bytes
  or all but the last of them.
\<close>

theorem cobs_decoded_length_correct:
  assumes "alt_cobs_verify (w @ 0 # junk) (length w) = Inr True"
  shows "\<exists>out z. cobs_decode (w @ 0 # junk) (length w) = Inr out
     \<and> cobs_decode (w @ 0 # junk) (Suc (length w)) = Inr (out @ z)
     \<and> cobs_decoded_length_from_encoded (w @ 0 # junk) = Inr (length out + length z)
     \<and> (z = [] \<or> z = [0])"
proof -
  have v: "cobs_valid w"
    using assms by (simp add: alt_cobs_verify_valid)
  show ?thesis
    by (rule cobs_valid_block [OF v, of junk]) blast
qed

theorem cobs_decoded_length_correct_witness:
  "\<exists>out z. cobs_decode ([2, 7] @ 0 # [5]) (length [2, 7 :: uchar8]) = Inr out
     \<and> cobs_decode ([2, 7] @ 0 # [5]) (Suc (length [2, 7 :: uchar8])) = Inr (out @ z)
     \<and> cobs_decoded_length_from_encoded ([2, 7] @ 0 # [5]) = Inr (length out + length z)
     \<and> (z = [] \<or> z = [0])"
  by (rule cobs_decoded_length_correct) (simp add: alt_cobs_verify_valid)

text \<open>
  The two encoded-length routines: the scan of an encoded buffer returns the number of bytes the encoder
  wrote; the prediction from the source is that number, or one more when the source ends in a closed
  block.
\<close>

theorem cobs_encoded_length_correct:
  "cobs_encoded_length_from_encoded (cobs_encode g src @ junk) = Inr (length (cobs_encode g src))
   \<and> cobs_encoded_length_from_decoded src =
       length (cobs_encode g src) + (if trailing_run 0 src = 0 then 1 else 0)"
  using length_cobs_blocks [of "[]" src] from_decoded_loop_acc [of src 0 "length src + 2"]
    encoded_length_scan [OF cobs_blocks_no_zero [of "[]" src], of junk]
  by (simp add: cobs_encode_blocks cobs_encoded_length_from_decoded_def split: if_splits)

text \<open>
  C35. The encoder never writes more than \<^verbatim>\<open>cobs_encoded_length_worse_case\<close> bytes, computed in 64-bit
  arithmetic, for every source of fewer than \<open>2 ^ 63\<close> bytes.
\<close>

theorem cobs_worse_case_bound:
  assumes "length src < 2 ^ 63"
  shows "length (cobs_encode g src) \<le> unat (cobs_encoded_length_worse_case (word_of_nat (length src)))"
proof -
  let ?n = "length src"
  have len: "unat (word_of_nat ?n :: uint64) = ?n"
    using assms by (simp add: unat_of_nat take_bit_nat_eq_self)
  have "?n div 254 \<le> ?n" by simp
  then have "unat (cobs_encoded_length_worse_case (word_of_nat ?n)) = ?n + 2 + ?n div 254"
    using assms len
    by (simp add: cobs_encoded_length_worse_case_def unat_word_ariths unat_div)
  moreover have "length (cobs_encode g src) \<le> ?n + 2 + ?n div 254"
    using length_cobs_blocks [of "[]" src] from_decoded_loop_bound [of 0 src]
    by (simp add: cobs_encode_blocks split: if_splits)
  ultimately show ?thesis by simp
qed

theorem cobs_worse_case_bound_witness:
  "length (cobs_encode (\<lambda>_. 5) [7, 0, 9]) \<le> unat (cobs_encoded_length_worse_case (word_of_nat (length [7, 0, 9 :: uchar8])))"
  by (rule cobs_worse_case_bound) simp

text \<open>
  The encoding is not injective: a source whose last block is open is encoded to the same bytes as that
  source with a zero byte appended, so a receiver cannot tell the two apart.
\<close>

theorem cobs_encode_trailing_zero_lost:
  assumes "trailing_run 0 src \<noteq> 0"
  shows "cobs_encode g (src @ [0]) = cobs_encode g src"
  using assms cobs_blocks_snoc_zero [of "[]" src] by (simp add: cobs_encode_blocks)

theorem cobs_encode_trailing_zero_lost_witness:
  "cobs_encode (\<lambda>_. 5) ([7] @ [0]) = cobs_encode (\<lambda>_. 5) [7]"
  by (rule cobs_encode_trailing_zero_lost) simp

text \<open>
  Partial decoding recovers a prefix: for up to 254 bytes (the caller asks for the 56 header bytes) and a
  source longer than that, it returns exactly the first bytes of the source.
\<close>

theorem cobs_partial_decode_prefix:
  assumes "n \<le> 254" "n < length src"
  shows "cobs_partial_decode (butlast (cobs_encode g src)) n = (n, take n src)"
  using assms partial_decode_blocks [of "[]" n src] length_cobs_blocks_ge [of "[]" src]
  by (simp add: cobs_encode_blocks cobs_partial_decode_def)

theorem cobs_partial_decode_prefix_witness:
  "cobs_partial_decode (butlast (cobs_encode (\<lambda>_. 5) [7, 0, 9, 0])) 3 = (3, [7, 0, 9])"
  using cobs_partial_decode_prefix [of 3 "[7, 0, 9, 0]"] by (simp add: numeral_3_eq_3)

text \<open>
  The test for a full block in the partial decoder compares with 0x255 instead of 0xFF and never fires:
  after a full 254-byte block it inserts a zero byte that the source does not have.
\<close>

theorem cobs_partial_decode_full_block:
  "cobs_partial_decode (0xFF # replicate 254 1 @ [2, 7]) 255 = (255, replicate 254 1 @ [0])
   \<and> cobs_decode (0xFF # replicate 254 1 @ [2, 7]) 257 = Inr (replicate 254 1 @ [7])"
proof
  have z: "partial_loop src 0 = (True, [])" for src
    by (subst partial_loop.simps) (simp split: list.split)
  show "cobs_partial_decode (0xFF # replicate 254 1 @ [2, 7]) 255 = (255, replicate 254 1 @ [0])"
    using partial_loop_block [of "0xFF" "replicate 254 1" "[2, 7]" 255]
    by (simp add: cobs_partial_decode_def z)
  show "cobs_decode (0xFF # replicate 254 1 @ [2, 7]) 257 = Inr (replicate 254 1 @ [7])"
  proof -
    have "cobs_decode_loop (2 # [7] @ []) 2 = Inr [7]"
      by (subst cobs_decode_loop_block [where n' = 0]) simp_all
    then show ?thesis
      using cobs_decode_loop_block [of "0xFF" "replicate 254 1" 257 2 "[2, 7]"]
      by (simp add: cobs_decode_def)
  qed
qed

end
