(* ===== verification/Byte_Help.thy ===== *)
theory Byte_Help
  imports HipFT_Prelude
begin

text \<open>
  \<^verbatim>\<open>src/justin-snapshot/src/byte_help.c\<close>: copies and comparisons of byte arrays given as a pointer and
  a length. A buffer is the list of the bytes the pointer may access; a length that exceeds it is
  an out-of-bounds access. The sizes are 64-bit, so \<open>s1 + s2\<close> wraps.
\<close>

definition copy_void :: "bytes \<Rightarrow> uint64 \<Rightarrow> bytes c_result" where
  "copy_void b n = mem_read 0 (unat n) b"

definition combine_voids :: "garbage \<Rightarrow> bytes \<Rightarrow> uint64 \<Rightarrow> bytes \<Rightarrow> uint64 \<Rightarrow> bytes c_result" where
  "combine_voids g b1 s1 b2 s2 =
     (let buffer = malloc_bytes g (unat (s1 + s2)) in
      c_bind (if s1 \<noteq> 0 then c_bind (mem_read 0 (unat s1) b1) (\<lambda>d. mem_write 0 d buffer)
              else Inr buffer)
      (\<lambda>buffer. if s2 \<noteq> 0
         then c_bind (mem_read 0 (unat s2) b2) (\<lambda>d. mem_write (unat s1) d buffer)
         else Inr buffer))"

definition add_to_void :: "garbage \<Rightarrow> bytes \<Rightarrow> uint64 \<Rightarrow> uint64 \<Rightarrow> bytes c_result" where
  "add_to_void g b1 s1 s2 =
     (let buffer = malloc_bytes g (unat (s1 + s2)) in
      if s1 \<noteq> 0 then c_bind (mem_read 0 (unat s1) b1) (\<lambda>d. mem_write 0 d buffer)
      else Inr buffer)"

text \<open>The loop of \<^verbatim>\<open>compare_bytes\<close> from index \<open>i\<close>; the sizes are equal when it is entered.\<close>

function compare_loop :: "bytes \<Rightarrow> bytes \<Rightarrow> nat \<Rightarrow> nat \<Rightarrow> bool" where
  "compare_loop b1 b2 s1 i =
     (if i < s1 then (if b1 ! i \<noteq> b2 ! i then False else compare_loop b1 b2 s1 (Suc i)) else True)"
  by pat_completeness auto
termination by (relation "measure (\<lambda>(b1, b2, s1, i). s1 - i)") auto

definition compare_bytes :: "bytes \<Rightarrow> uint64 \<Rightarrow> bytes \<Rightarrow> uint64 \<Rightarrow> bool c_result" where
  "compare_bytes b1 s1 b2 s2 =
     (if s1 \<noteq> s2 then Inr False
      else if unat s1 \<le> length b1 \<and> unat s2 \<le> length b2
      then Inr (compare_loop b1 b2 (unat s1) 0) else Inl OOB_Read)"

declare compare_loop.simps [simp del]

subsection \<open>What the operations compute\<close>

lemma compare_loop_iff:
  "compare_loop b1 b2 s i \<longleftrightarrow> (\<forall>j. i \<le> j \<and> j < s \<longrightarrow> b1 ! j = b2 ! j)"
proof (induction b1 b2 s i rule: compare_loop.induct)
  case (1 b1 b2 s i)
  then show ?case
    by (subst compare_loop.simps) (auto simp: Suc_le_eq le_eq_less_or_eq dest: Suc_leI)
qed

lemma copy_void_whole [simp]: "length b < 2 ^ 64 \<Longrightarrow> copy_void b (word_of_nat (length b)) = Inr b"
  by (simp add: copy_void_def mem_read_def unat_of_nat take_bit_nat_eq_self)

text \<open>
  The comparison decides equality of the two byte strings (contents and length), for buffers
  that hold exactly their announced length.
\<close>

lemma compare_bytes_eq:
  assumes "length b1 = unat s1" "length b2 = unat s2"
  shows "compare_bytes b1 s1 b2 s2 = Inr (b1 = b2)"
  using assms
  by (auto simp: compare_bytes_def compare_loop_iff list_eq_iff_nth_eq word_unat_eq_iff)

text \<open>Concatenation: the result is the two strings one after the other, unless the size wraps.\<close>

lemma combine_voids_append:
  assumes "length b1 = unat s1" "length b2 = unat s2" "unat s1 + unat s2 < 2 ^ 64"
  shows "combine_voids g b1 s1 b2 s2 = Inr (b1 @ b2)"
proof -
  have "unat (s1 + s2) = unat s1 + unat s2"
    using assms(3) by (simp add: unat_word_ariths)
  then show ?thesis
    using assms(1,2)
    by (auto simp: combine_voids_def Let_def mem_read_def mem_write_def unat_eq_0)
qed

lemma add_to_void_prefix:
  assumes "length b1 = unat s1" "unat s1 + unat s2 < 2 ^ 64"
  shows "\<exists>tail. add_to_void g b1 s1 s2 = Inr (b1 @ tail) \<and> length tail = unat s2"
proof -
  have "unat (s1 + s2) = unat s1 + unat s2"
    using assms(2) by (simp add: unat_word_ariths)
  then show ?thesis
    using assms(1)
    by (auto simp: add_to_void_def Let_def mem_read_def mem_write_def unat_eq_0)
qed

end
