(* ===== verification/Byte_Order.thy ===== *)
theory Byte_Order
  imports HipFT_Prelude
begin

text \<open>
  \<^verbatim>\<open>src/justin-snapshot/src/byte_order.c\<close>. The machine the program runs on stores an integer either
  least or most significant byte first; that choice is the parameter \<open>host\<close> of every function whose
  result depends on it. \<open>object_bytes\<close> and \<open>object_word\<close> are the C object representation: what a
  \<^verbatim>\<open>memcpy\<close> or a union reads and writes. The conversions are the byte loops of the source.
\<close>

datatype host = Little_Host | Big_Host

datatype ENDIANNESS = LITTLEENDIAN | BIGENDIAN | UNHANDLE

definition le_bytes :: "'a::len word \<Rightarrow> bytes" where
  "le_bytes x = map (\<lambda>i. ucast (drop_bit (8 * i) x)) [0..<LENGTH('a) div 8]"

definition object_bytes :: "host \<Rightarrow> 'a::len word \<Rightarrow> bytes" where
  "object_bytes h x = (case h of Little_Host \<Rightarrow> le_bytes x | Big_Host \<Rightarrow> rev (le_bytes x))"

text \<open>The accumulation \<^verbatim>\<open>dst = (dst << 8) + byte[i]\<close> over the bytes in order.\<close>

definition be_fold :: "bytes \<Rightarrow> 'a::len word" where
  "be_fold bs = foldl (\<lambda>d b. push_bit 8 d + ucast b) 0 bs"

definition object_word :: "host \<Rightarrow> bytes \<Rightarrow> 'a::len word" where
  "object_word h bs = (case h of Little_Host \<Rightarrow> be_fold (rev bs) | Big_Host \<Rightarrow> be_fold bs)"

text \<open>Network byte order, most significant byte first.\<close>

definition be_bytes :: "'a::len word \<Rightarrow> bytes" where
  "be_bytes x = rev (le_bytes x)"

definition check_endianness :: "host \<Rightarrow> ENDIANNESS" where
  "check_endianness h = (if hd (object_bytes h (1 :: uint32)) = 1 then LITTLEENDIAN else BIGENDIAN)"

definition ntoh8 :: "host \<Rightarrow> uint8 \<Rightarrow> uint8" where
  "ntoh8 h src = src"

definition ntoh16 :: "host \<Rightarrow> uint16 \<Rightarrow> uint16" where
  "ntoh16 h src = (if check_endianness h = LITTLEENDIAN then be_fold (object_bytes h src) else src)"

definition ntoh32 :: "host \<Rightarrow> uint32 \<Rightarrow> uint32" where
  "ntoh32 h src = (if check_endianness h = LITTLEENDIAN then be_fold (object_bytes h src) else src)"

definition ntoh64 :: "host \<Rightarrow> uint64 \<Rightarrow> uint64" where
  "ntoh64 h src = (if check_endianness h = LITTLEENDIAN then be_fold (object_bytes h src) else src)"

definition hton8 :: "host \<Rightarrow> uint8 \<Rightarrow> uint8" where
  "hton8 h src = ntoh8 h src"

definition hton16 :: "host \<Rightarrow> uint16 \<Rightarrow> uint16" where
  "hton16 h src = ntoh16 h src"

definition hton32 :: "host \<Rightarrow> uint32 \<Rightarrow> uint32" where
  "hton32 h src = ntoh32 h src"

definition hton64 :: "host \<Rightarrow> uint64 \<Rightarrow> uint64" where
  "hton64 h src = ntoh64 h src"

subsection \<open>Bits of the byte loops\<close>

lemma length_le_bytes [simp]: "length (le_bytes (x :: 'a::len word)) = LENGTH('a) div 8"
  by (simp add: le_bytes_def)

lemma bit_be_fold:
  "8 * length bs \<le> LENGTH('a) \<Longrightarrow>
   bit (be_fold bs :: 'a::len word) n \<longleftrightarrow> n < 8 * length bs \<and> bit (rev bs ! (n div 8)) (n mod 8)"
proof (induction bs arbitrary: n rule: rev_induct)
  case Nil
  then show ?case by (simp add: be_fold_def)
next
  case (snoc b bs)
  let ?d = "be_fold bs :: 'a word"
  have fold: "(be_fold (bs @ [b]) :: 'a word) = push_bit 8 ?d + ucast b"
    by (simp add: be_fold_def)
  have "\<not> bit b n" if "8 \<le> n" for n
    using bit_imp_le_length [of b n] that by auto
  then have "push_bit 8 ?d AND ucast b = 0"
    by (intro bit_eqI) (simp add: bit_simps)
  then have or: "push_bit 8 ?d + ucast b = push_bit 8 ?d OR ucast b"
    by (rule disjunctive_add_eq_or)
  have IH: "bit ?d m \<longleftrightarrow> m < 8 * length bs \<and> bit (rev bs ! (m div 8)) (m mod 8)" for m
    using snoc by simp
  show ?case
  proof (cases "n < 8")
    case True
    then show ?thesis
      using snoc.prems by (auto simp: fold or bit_simps)
  next
    case False
    then have "n div 8 = Suc ((n - 8) div 8)" "n mod 8 = (n - 8) mod 8"
      by (simp_all add: le_div_geq le_mod_geq)
    moreover have "\<not> bit b n"
      using False by (auto dest: bit_imp_le_length)
    ultimately show ?thesis
      using False snoc.prems by (auto simp: fold or bit_simps IH)
  qed
qed

lemma be_fold_rev_le_bytes:
  "LENGTH('a) mod 8 = 0 \<Longrightarrow> be_fold (rev (le_bytes x)) = (x :: 'a::len word)"
  by (rule bit_eqI)
    (auto simp: bit_be_fold le_bytes_def bit_simps mult.commute [of 8] less_mult_imp_div_less
        div_mult_mod_eq intro!: arg_cong2 [where f = bit])

lemma le_bytes_be_fold:
  assumes "8 * length bs = LENGTH('a)"
  shows "le_bytes (be_fold bs :: 'a::len word) = rev bs"
proof (rule nth_equalityI)
  show len: "length (le_bytes (be_fold bs :: 'a word)) = length (rev bs)"
    using assms by simp
  fix i
  assume "i < length (le_bytes (be_fold bs :: 'a word))"
  then have i: "i < length bs" using len by simp
  show "le_bytes (be_fold bs :: 'a word) ! i = rev bs ! i"
  proof (rule bit_eqI)
    fix n
    assume "possible_bit TYPE(8 word) n"
    then have "n < 8" by simp
    moreover from this have "(8 * i + n) div 8 = i" "(8 * i + n) mod 8 = n" by auto
    ultimately show "bit (le_bytes (be_fold bs :: 'a word) ! i) n = bit (rev bs ! i) n"
      using i assms by (simp add: le_bytes_def bit_simps bit_be_fold)
  qed
qed

lemma length_object_bytes [simp]: "length (object_bytes h (x :: 'a::len word)) = LENGTH('a) div 8"
  by (simp add: object_bytes_def split: host.split)

text \<open>Reading back an object representation gives the value, on either kind of host.\<close>

lemma object_word_bytes [simp]:
  "LENGTH('a) mod 8 = 0 \<Longrightarrow> object_word h (object_bytes h x) = (x :: 'a::len word)"
  by (simp add: object_word_def object_bytes_def be_fold_rev_le_bytes split: host.split)

lemma object_bytes_word:
  "8 * length bs = LENGTH('a) \<Longrightarrow> object_bytes h (object_word h bs :: 'a::len word) = bs"
  by (simp add: object_word_def object_bytes_def le_bytes_be_fold split: host.split)

lemma check_endianness_host [simp]:
  "check_endianness Little_Host = LITTLEENDIAN"
  "check_endianness Big_Host = BIGENDIAN"
  by (simp_all add: check_endianness_def object_bytes_def le_bytes_def upt_rec hd_rev last_map)

subsection \<open>The wire format does not depend on the host\<close>

text \<open>
  Converting with \<open>hton\<close> and storing gives those bytes on either
  host, and loading and converting with \<open>ntoh\<close> reads them, so two hosts of different byte order
  agree on every field.
\<close>

lemma length_be_bytes [simp]: "length (be_bytes (x :: 'a::len word)) = LENGTH('a) div 8"
  by (simp add: be_bytes_def)

lemma be_fold_be_bytes [simp]: "LENGTH('a) mod 8 = 0 \<Longrightarrow> be_fold (be_bytes x) = (x :: 'a::len word)"
  by (simp add: be_bytes_def be_fold_rev_le_bytes)

lemma store_hton_gen:
  assumes "LENGTH('a) mod 8 = 0"
  shows "object_bytes h (if check_endianness h = LITTLEENDIAN
           then be_fold (object_bytes h x) else x :: 'a::len word) = be_bytes x"
proof -
  have "8 * length (le_bytes x) = LENGTH('a)"
    using assms by (simp add: mod_0_imp_dvd)
  then show ?thesis
    by (cases h) (simp_all add: object_bytes_def be_bytes_def le_bytes_be_fold)
qed

lemma load_ntoh_gen:
  assumes "8 * length bs = LENGTH('a)"
  shows "(if check_endianness h = LITTLEENDIAN
          then be_fold (object_bytes h (object_word h bs :: 'a::len word))
          else object_word h bs :: 'a word) = be_fold bs"
  using assms by (cases h) (simp_all add: object_bytes_word, simp add: object_word_def)

lemmas hton_defs = hton16_def hton32_def hton64_def ntoh16_def ntoh32_def ntoh64_def

lemma store_hton [simp]:
  "object_bytes h (hton16 h x16) = be_bytes x16"
  "object_bytes h (hton32 h x32) = be_bytes x32"
  "object_bytes h (hton64 h x64) = be_bytes x64"
  unfolding hton_defs by (rule store_hton_gen, simp)+

lemma load_ntoh:
  "length bs = 2 \<Longrightarrow> ntoh16 h (object_word h bs) = be_fold bs"
  "length bs = 4 \<Longrightarrow> ntoh32 h (object_word h bs) = be_fold bs"
  "length bs = 8 \<Longrightarrow> ntoh64 h (object_word h bs) = be_fold bs"
  by (simp_all only: hton_defs) (rule load_ntoh_gen, simp)+

lemma ntoh_hton_gen:
  assumes "LENGTH('a) mod 8 = 0" "\<And>x. object_bytes h (hton x :: 'a::len word) = be_bytes x"
    "\<And>bs. 8 * length bs = LENGTH('a) \<Longrightarrow> ntoh (object_word h bs :: 'a word) = be_fold bs"
  shows "ntoh (hton x) = (x :: 'a word)"
proof -
  have "ntoh (hton x) = ntoh (object_word h (object_bytes h (hton x)))"
    by (simp add: assms(1))
  also have "\<dots> = x"
    using assms(1) by (subst assms(2), subst assms(3)) (auto simp: mod_0_imp_dvd)
  finally show ?thesis .
qed

lemma ntoh_hton [simp]:
  "ntoh16 h (hton16 h x16) = x16"
  "ntoh32 h (hton32 h x32) = x32"
  "ntoh64 h (hton64 h x64) = x64"
  by (rule ntoh_hton_gen [of h]; simp add: load_ntoh)+

end
