(* ===== verification/Msg_Parity.thy ===== *)
theory Msg_Parity
  imports HipFT_Prelude
begin

text \<open>
  \<^verbatim>\<open>src/justin-snapshot/src/parity.c\<close>: odd parity over a buffer, vertically (per bit position of 32-byte
  rows) and horizontally (one bit per 32-bit word). A buffer is the list of its \<^verbatim>\<open>buflen\<close> bytes; the
  loop counters of the C code are \<^verbatim>\<open>int\<close>, so the model speaks about buffers of fewer than \<open>2 ^ 31\<close>
  bytes (message contents are far smaller).

  The vertical routines shift the 32-bit \<^verbatim>\<open>int\<close> 1 by up to 63 places and convert the result to 64 bits.
  C leaves that undefined from place 31 on. The model follows the x86-64 code that gcc generates
  (the build products under \<^verbatim>\<open>src/justin-snapshot/unit_test\<close> are x86-64): the shift count is taken modulo
  32 and the conversion extends the sign.
\<close>

definition bit_table :: "nat list" where
  "bit_table = [0, 1, 1, 2, 1, 2, 2, 3, 1, 2, 2, 3, 2, 3, 3, 4]"

subsection \<open>Vertical parity\<close>

definition compute_vparity_length :: uint64 where
  "compute_vparity_length = 8 * 4"

text \<open>The counting loop of one bit position, from row \<open>j\<close>.\<close>

function vparity_count :: "bytes \<Rightarrow> uchar8 \<Rightarrow> nat \<Rightarrow> nat" where
  "vparity_count buf bitmask j =
     (if j < length buf
      then (if buf ! j AND bitmask \<noteq> 0 then 1 else 0) + vparity_count buf bitmask (j + 32)
      else 0)"
  by pat_completeness auto
termination by (relation "measure (\<lambda>(buf, bitmask, j). length buf - j)") auto

definition vparity_total :: "bytes \<Rightarrow> nat \<Rightarrow> nat" where
  "vparity_total buf i = vparity_count buf (push_bit (i mod 8) 1) (i mod 32)"

text \<open>\<^verbatim>\<open>(uint64)(1 << (i % 64))\<close>\<close>

definition int_shl_1 :: "nat \<Rightarrow> uint32" where
  "int_shl_1 n = push_bit (n mod 32) 1"

definition vparity_mask :: "nat \<Rightarrow> uint64" where
  "vparity_mask i = scast (int_shl_1 (i mod 64))"

definition vparity_step :: "bytes \<Rightarrow> uint64 list \<Rightarrow> nat \<Rightarrow> uint64 list" where
  "vparity_step buf parity i =
     (if even (vparity_total buf i)
      then parity[i div 64 := parity ! (i div 64) OR vparity_mask i] else parity)"

definition compute_vparity :: "bytes \<Rightarrow> uint64 list" where
  "compute_vparity buf = foldl (vparity_step buf) (replicate 4 0) [0..<256]"

definition check_vparity :: "bytes \<Rightarrow> uint64 list \<Rightarrow> bool" where
  "check_vparity buf parity \<longleftrightarrow>
     list_all (\<lambda>i. odd (vparity_total buf i
                        + (if parity ! (i div 64) AND vparity_mask i \<noteq> 0 then 1 else 0))) [0..<256]"

subsection \<open>Horizontal parity\<close>

definition compute_hparity_words :: "uint64 \<Rightarrow> uint64" where
  "compute_hparity_words buflen = (buflen div 4) + (if buflen mod 4 \<noteq> 0 then 1 else 0)"

definition compute_hparity_length :: "uint64 \<Rightarrow> uint64" where
  "compute_hparity_length bufflen =
     (let w = compute_hparity_words bufflen in (w div 8) + (if w mod 8 \<noteq> 0 then 1 else 0))"

definition byte_bits :: "uchar8 \<Rightarrow> nat" where
  "byte_bits b = bit_table ! unat (drop_bit 4 b) + bit_table ! unat (b AND 0xF)"

definition hparity_total :: "bytes \<Rightarrow> nat \<Rightarrow> nat" where
  "hparity_total buf i =
     sum_list (map (\<lambda>j. if i * 4 + j < length buf then byte_bits (buf ! (i * 4 + j)) else 0) [0..<4])"

definition num_words :: "bytes \<Rightarrow> nat" where
  "num_words buf = unat (compute_hparity_words (word_of_nat (length buf)))"

definition hparity_step :: "bytes \<Rightarrow> bytes \<Rightarrow> nat \<Rightarrow> bytes" where
  "hparity_step buf parity i =
     (if even (hparity_total buf i)
      then parity[i div 8 := parity ! (i div 8) OR push_bit (i mod 8) 1] else parity)"

definition compute_hparity :: "bytes \<Rightarrow> bytes" where
  "compute_hparity buf =
     foldl (hparity_step buf)
       (replicate (unat (compute_hparity_length (word_of_nat (length buf)))) 0) [0..<num_words buf]"

definition check_hparity :: "bytes \<Rightarrow> bytes \<Rightarrow> bool c_result" where
  "check_hparity buf parity =
     (if num_words buf \<le> 8 * length parity
      then Inr (list_all (\<lambda>i. odd ((if parity ! (i div 8) AND push_bit (i mod 8) 1 \<noteq> 0 then 1 else 0)
                                  + hparity_total buf i)) [0..<num_words buf])
      else Inl OOB_Read)"

declare vparity_count.simps [simp del]

subsection \<open>Setting bits in a loop\<close>

text \<open>
  Both routines fold over bit positions and set a mask in one cell of an array. A cell's bit is set at
  the end exactly when a position with that cell and bit was selected.
\<close>

lemma foldl_set_masks:
  fixes p :: "'a::len word list"
  assumes "\<And>i. i \<in> set is \<Longrightarrow> cell i < length p" "c < length p"
  shows "bit (foldl (\<lambda>p i. if sel i then p[cell i := p ! cell i OR msk i] else p) p is ! c) n \<longleftrightarrow>
     bit (p ! c) n \<or> (\<exists>i \<in> set is. sel i \<and> cell i = c \<and> bit (msk i) n)"
  using assms
proof (induction "is" arbitrary: p)
  case (Cons i "is")
  let ?p = "if sel i then p[cell i := p ! cell i OR msk i] else p"
  have "bit (?p ! c) n \<longleftrightarrow> bit (p ! c) n \<or> (sel i \<and> cell i = c \<and> bit (msk i) n)"
    using Cons.prems by (auto simp: nth_list_update bit_simps)
  then show ?case
    using Cons.prems Cons.IH [of ?p] by auto
qed simp

lemma length_foldl_set_masks [simp]:
  "length (foldl (\<lambda>p i. if sel i then p[cell i := p ! cell i OR msk i] else p) p is) = length p"
  by (induction "is" arbitrary: p) auto

lemma and_mask_nonzero: "(x AND m :: 'a::len word) \<noteq> 0 \<longleftrightarrow> (\<exists>n < LENGTH('a). bit x n \<and> bit m n)"
  by (auto simp: bit_eq_iff bit_simps dest: bit_imp_le_length)

subsection \<open>Vertical parity\<close>

lemma bit_vparity_mask: "bit (vparity_mask i) n \<longleftrightarrow> n < 64 \<and> min n 31 = i mod 32"
proof -
  have "i mod 64 mod 32 = i mod 32" by (simp add: mod_mod_cancel)
  moreover have "i mod 32 < 32" by simp
  ultimately show ?thesis
    by (auto simp: vparity_mask_def int_shl_1_def bit_simps min_def)
qed

lemma vparity_total_mod: "vparity_total buf (i mod 32) = vparity_total buf i"
  by (simp add: vparity_total_def mod_mod_cancel)

lemma compute_vparity_fold:
  "compute_vparity buf = foldl (\<lambda>p i. if even (vparity_total buf i)
     then p[i div 64 := p ! (i div 64) OR vparity_mask i] else p) (replicate 4 0) [0..<256]"
  unfolding compute_vparity_def vparity_step_def ..

lemma length_compute_vparity [simp]: "length (compute_vparity buf) = 4"
  by (simp add: compute_vparity_fold)

lemma bit_compute_vparity:
  assumes "c < 4"
  shows "bit (compute_vparity buf ! c) n \<longleftrightarrow> n < 64 \<and> even (vparity_total buf (min n 31))"
proof -
  have "bit (compute_vparity buf ! c) n \<longleftrightarrow>
      (\<exists>i<256. even (vparity_total buf i) \<and> i div 64 = c \<and> bit (vparity_mask i) n)"
    unfolding compute_vparity_fold using assms
    by (subst foldl_set_masks) (auto simp: less_mult_imp_div_less)
  also have "\<dots> \<longleftrightarrow> n < 64 \<and> even (vparity_total buf (min n 31))"
  proof (safe)
    fix i assume "i < 256" "even (vparity_total buf i)" "bit (vparity_mask i) n"
    then show "even (vparity_total buf (min n 31))" "n < 64"
      using vparity_total_mod [of buf i] by (auto simp: bit_vparity_mask)
  next
    assume "n < 64" "even (vparity_total buf (min n 31))"
    moreover have "(64 * c + min n 31) mod 32 = min n 31"
      using mod_mult_self3 [of "2 * c" 32 "min n 31"] by (simp add: min_def)
    ultimately show "\<exists>i<256. even (vparity_total buf i) \<and> i div 64 = c \<and> bit (vparity_mask i) n"
      using assms vparity_total_mod [of buf "64 * c + min n 31"]
      by (intro exI [of _ "64 * c + min n 31"]) (simp add: bit_vparity_mask)
  qed
  finally show ?thesis .
qed

lemma vparity_bit_tested:
  assumes "i < 256"
  shows "compute_vparity a ! (i div 64) AND vparity_mask i \<noteq> 0 \<longleftrightarrow> even (vparity_total a i)"
proof -
  have "i div 64 < 4" using assms by (simp add: less_mult_imp_div_less)
  then have "compute_vparity a ! (i div 64) AND vparity_mask i \<noteq> 0 \<longleftrightarrow>
      (\<exists>n<64. even (vparity_total a (min n 31)) \<and> min n 31 = i mod 32)"
    by (auto simp: and_mask_nonzero bit_compute_vparity bit_vparity_mask)
  also have "\<dots> \<longleftrightarrow> even (vparity_total a (i mod 32))"
    by (auto intro!: exI [of _ "i mod 32"] simp: min_def)
  finally show ?thesis by (simp add: vparity_total_mod)
qed

lemma check_compute_vparity:
  "check_vparity b (compute_vparity a) \<longleftrightarrow> (\<forall>i<256. even (vparity_total b i) = even (vparity_total a i))"
proof -
  have "odd (vparity_total b i + (if compute_vparity a ! (i div 64) AND vparity_mask i \<noteq> 0 then 1 else 0))
      \<longleftrightarrow> even (vparity_total b i) = even (vparity_total a i)" if "i < 256" for i
    using vparity_bit_tested [OF that, of a] by auto
  then show ?thesis
    by (auto simp: check_vparity_def list_all_iff)
qed

subsection \<open>Which bits the vertical parity sees\<close>

lemma byte_and_bit: "(b AND 2 ^ k :: uchar8) = 0 \<longleftrightarrow> \<not> bit b k"
  using and_mask_nonzero [of b "2 ^ k"] by (auto simp: bit_simps dest: bit_imp_le_length)

lemma vparity_count_cong:
  assumes "length a = length b" "\<And>k. j + 32 * k < length a \<Longrightarrow> bit (a ! (j + 32 * k)) m = bit (b ! (j + 32 * k)) m"
  shows "vparity_count a (push_bit m 1) j = vparity_count b (push_bit m 1) j"
  using assms(2)
proof (induction "length a - j" arbitrary: j rule: less_induct)
  case less
  show ?case
  proof (cases "j < length a")
    case True
    then have "vparity_count a (push_bit m 1) (j + 32) = vparity_count b (push_bit m 1) (j + 32)"
      using less.prems [of "Suc _"] by (intro less.hyps) (auto simp: algebra_simps)
    then show ?thesis
      using True less.prems [of 0] assms(1)
      by (simp add: vparity_count.simps [of _ _ j] byte_and_bit)
  next
    case False
    then show ?thesis using assms(1) by (simp add: vparity_count.simps)
  qed
qed

lemma vparity_total_cong:
  assumes "length a = length b" "\<forall>j<length a. bit (a ! j) (j mod 8) = bit (b ! j) (j mod 8)"
  shows "vparity_total a i = vparity_total b i"
proof -
  have "(i mod 32 + 32 * k) mod 8 = i mod 8" for k
    using mod_mult_self1 [of "i mod 32" "4 * k" 8] by (simp add: mod_mod_cancel)
  then show ?thesis
    unfolding vparity_total_def using assms by (intro vparity_count_cong) (metis | simp)+
qed

subsection \<open>Horizontal parity\<close>

lemma unat_hparity_words: "unat (compute_hparity_words n) = (unat n + 3) div 4"
  using unat_div_ceil [of 4 n] ceil_div [of 4 "unat n"] by (simp add: compute_hparity_words_def)

lemma unat_hparity_length: "unat (compute_hparity_length n) = (unat n + 31) div 32"
proof -
  have "unat (compute_hparity_length n) = ((unat n + 3) div 4 + 7) div 8"
    using unat_div_ceil [of 8 "compute_hparity_words n"] ceil_div [of 8 "(unat n + 3) div 4"]
    by (simp add: compute_hparity_length_def Let_def unat_hparity_words)
  also have "\<dots> = ((unat n + 3 + 7 * 4) div 4) div 8"
    by simp
  finally show ?thesis by (simp add: div_mult2_eq [symmetric])
qed

lemma bit_table_eq:
  assumes "n < 16"
  shows "bit_table ! n = of_bool (bit n 0) + of_bool (bit n 1) + of_bool (bit n 2) + of_bool (bit n 3)"
proof -
  have "\<forall>n \<in> set [0..<16]. bit_table ! n =
      of_bool (bit n 0) + of_bool (bit n 1) + of_bool (bit n 2) + of_bool (bit n 3)"
    by code_simp
  then show ?thesis using assms by simp
qed

lemma byte_bits_eq: "byte_bits b = (\<Sum>k<8. of_bool (bit b k))"
proof -
  have hi: "unat (drop_bit 4 b) < 16"
  proof -
    have "unat b < 256" using unsigned_less [of b] by simp
    then show ?thesis by (simp add: drop_bit_eq_div unat_div)
  qed
  have lo: "unat (b AND 0xF) < 16"
    using word_and_le1 [of b "0xF"] by (simp add: word_le_nat_alt)
  have "{..<8::nat} = {0, 1, 2, 3, 4, 5, 6, 7}" by auto
  then show ?thesis
    unfolding byte_bits_def bit_table_eq [OF hi] bit_table_eq [OF lo] bit_unsigned_iff
    by (simp add: bit_simps)
qed

lemma num_words_eq [simp]: "length buf < 2 ^ 64 \<Longrightarrow> num_words buf = (length buf + 3) div 4"
  by (simp add: num_words_def unat_hparity_words unat_of_nat take_bit_nat_eq_self)

lemma compute_hparity_fold:
  "compute_hparity buf = foldl (\<lambda>p i. if even (hparity_total buf i)
     then p[i div 8 := p ! (i div 8) OR push_bit (i mod 8) 1] else p)
       (replicate (unat (compute_hparity_length (word_of_nat (length buf)))) 0) [0..<num_words buf]"
  unfolding compute_hparity_def hparity_step_def ..

lemma length_compute_hparity [simp]:
  "length (compute_hparity buf) = unat (compute_hparity_length (word_of_nat (length buf)))"
  by (simp only: compute_hparity_fold length_foldl_set_masks length_replicate)

lemma hparity_cell_bound:
  assumes "length buf < 2 ^ 64" "i < num_words buf"
  shows "i div 8 < unat (compute_hparity_length (word_of_nat (length buf)))"
proof -
  have "i \<le> (length buf + 3) div 4 - 1" "0 < length buf"
    using assms by (auto intro: Suc_leI)
  then have "i * 4 \<le> length buf + 3 - 4"
    by (simp add: le_diff_conv less_eq_div_iff_mult_less_eq) 
  then have "i div 8 * 32 + 32 \<le> length buf + 31"
    using div_times_less_eq_dividend [of i 8] \<open>0 < length buf\<close> by linarith
  then have "Suc (i div 8) \<le> (length buf + 31) div 32"
    by (simp add: less_eq_div_iff_mult_less_eq)
  then show ?thesis
    using assms(1) by (simp add: unat_hparity_length unat_of_nat take_bit_nat_eq_self)
qed

lemma byte_single_bit: "k < 8 \<Longrightarrow> bit (2 ^ k :: uchar8) n \<longleftrightarrow> n = k"
  by (auto simp: bit_simps)

lemma hparity_bit_tested:
  assumes "length a < 2 ^ 64" "i < num_words a"
  shows "compute_hparity a ! (i div 8) AND push_bit (i mod 8) 1 = 0 \<longleftrightarrow> odd (hparity_total a i)"
proof -
  have "bit (compute_hparity a ! (i div 8)) (i mod 8) \<longleftrightarrow>
      (\<exists>i' < num_words a. even (hparity_total a i') \<and> i' div 8 = i div 8
         \<and> bit (push_bit (i' mod 8) (1 :: uchar8)) (i mod 8))"
    unfolding compute_hparity_fold
    using hparity_cell_bound [OF assms(1)] assms(2)
    by (subst foldl_set_masks) auto
  also have "\<dots> \<longleftrightarrow> even (hparity_total a i)"
    using assms(2) by (auto simp: byte_single_bit) (metis div_mult_mod_eq)
  finally show ?thesis by (simp add: byte_and_bit)
qed

lemma check_compute_hparity:
  assumes "length a < 2 ^ 64" "length b = length a"
  shows "check_hparity b (compute_hparity a) =
     Inr (\<forall>i<num_words a. even (hparity_total b i) = even (hparity_total a i))"
proof -
  have nw: "num_words b = num_words a" using assms by simp
  have "num_words a \<le> 8 * length (compute_hparity a)"
  proof (cases "num_words a")
    case (Suc k)
    then have "k div 8 < length (compute_hparity a)"
      using hparity_cell_bound [OF assms(1), of k] by simp
    then show ?thesis using Suc by linarith
  qed simp
  then show ?thesis
    using hparity_bit_tested [OF assms(1)]
    by (auto simp: check_hparity_def list_all_iff nw simp del: num_words_eq length_compute_hparity)
qed

lemma even_byte_bits_flip: "k < 8 \<Longrightarrow> even (byte_bits (flip_bit k b)) \<longleftrightarrow> odd (byte_bits b)"
proof -
  assume k: "k < 8"
  have s: "(\<Sum>n<8. f n) = f k + (\<Sum>n \<in> {..<8} - {k}. f n)" for f :: "nat \<Rightarrow> nat"
    using k by (intro sum.remove) auto
  have "(\<Sum>n \<in> {..<8} - {k}. of_bool (bit (flip_bit k b) n)) = (\<Sum>n \<in> {..<8} - {k}. of_bool (bit b n) :: nat)"
    by (intro sum.cong) (auto simp: bit_simps)
  then show ?thesis
    using k by (simp add: byte_bits_eq s bit_simps)
qed

lemma sum4: "sum_list (map f [0..<4]) = f 0 + f 1 + f 2 + (f 3 :: nat)"
  by (simp add: upt_rec numeral_eq_Suc)

lemma hparity_total_flip:
  assumes "j < length a" "k < 8"
  shows "even (hparity_total (a[j := flip_bit k (a ! j)]) (j div 4)) \<longleftrightarrow> odd (hparity_total a (j div 4))"
proof -
  define f where "f x m = (if j div 4 * 4 + m < length a then byte_bits (x ! (j div 4 * 4 + m)) else 0)" for x m
  define F G where "F = f (a[j := flip_bit k (a ! j)])" and "G = f a"
  have tot: "hparity_total x (j div 4) = f x 0 + f x 1 + f x 2 + f x 3" if "length x = length a" for x
    using that by (simp add: hparity_total_def sum4 f_def)
  have same: "F m = G m" if "m \<noteq> j mod 4" for m
  proof -
    have "j \<noteq> j div 4 * 4 + m" using that div_mult_mod_eq [of j 4] by linarith
    then show ?thesis by (simp add: F_def G_def f_def)
  qed
  have flip: "even (F (j mod 4)) \<longleftrightarrow> odd (G (j mod 4))"
    using assms even_byte_bits_flip by (simp add: F_def G_def f_def)
  have "even (F 0 + F 1 + F 2 + F 3) \<longleftrightarrow> odd (G 0 + G 1 + G 2 + G 3)"
  proof -
    consider "j mod 4 = 0" | "j mod 4 = 1" | "j mod 4 = 2" | "j mod 4 = 3" by linarith
    then show ?thesis
      using flip same [of 0] same [of 1] same [of 2] same [of 3] by cases auto
  qed
  then show ?thesis by (simp add: tot F_def G_def)
qed

lemma check_hparity_flip:
  assumes "length a < 2 ^ 64" "j < length a" "k < 8"
  shows "check_hparity (a[j := flip_bit k (a ! j)]) (compute_hparity a) = Inr False"
proof -
  have "j div 4 < num_words a"
    using assms(1,2) by (simp add: less_mult_imp_div_less div_less_iff_less_mult)
  then show ?thesis
    using hparity_total_flip [OF assms(2,3)] assms(1)
      check_compute_hparity [of a "a[j := flip_bit k (a ! j)]"]
    by (auto simp del: num_words_eq)
qed

subsection \<open>Properties\<close>

text \<open>
  Sizes, in 64-bit arithmetic: the horizontal parity of \<open>n\<close> bytes takes one bit per 32-bit word, that is
  \<open>n / 32\<close> bytes rounded up, for every \<open>n\<close>; the routine that fills it writes exactly that many bytes, and
  the vertical parity is four 64-bit words.
\<close>

theorem parity_lengths:
  "unat (compute_hparity_length n) = (unat n + 31) div 32
   \<and> length (compute_hparity buf) = unat (compute_hparity_length (word_of_nat (length buf)))
   \<and> 8 * length (compute_vparity buf) = unat compute_vparity_length"
  by (simp add: unat_hparity_length compute_vparity_length_def)

text \<open>
  Horizontal parity, exactly: a buffer passes the check against the parity of another buffer of the same
  length if and only if every 32-bit word has the same parity of set bits in both.
\<close>

theorem check_hparity_iff:
  assumes "length a < 2 ^ 31" "length b = length a"
  shows "check_hparity b (compute_hparity a) =
     Inr (\<forall>i<(length a + 3) div 4. even (hparity_total b i) = even (hparity_total a i))"
  using assms check_compute_hparity [of a b] by simp

theorem check_hparity_iff_witness:
  "check_hparity [3, 5] (compute_hparity [1, 7]) = Inr True"
proof -
  have "check_hparity [3, 5] (compute_hparity [1, 7]) =
     Inr (\<forall>i<(length [1, 7 :: uchar8] + 3) div 4. even (hparity_total [3, 5] i) = even (hparity_total [1, 7] i))"
    by (rule check_hparity_iff) simp_all
  moreover have "hparity_total [3, 5] 0 = 4" "hparity_total [1, 7] 0 = 4" by code_simp+
  ultimately show ?thesis by simp
qed

text \<open>
  Every single-bit error in a message's content is caught by the horizontal parity.
\<close>

theorem hparity_detects_single_bit:
  assumes "length a < 2 ^ 31" "j < length a" "k < 8"
  shows "check_hparity (a[j := flip_bit k (a ! j)]) (compute_hparity a) = Inr False"
  using assms by (intro check_hparity_flip) simp_all

theorem hparity_detects_single_bit_witness:
  "check_hparity ([1, 7, 9][1 := flip_bit 6 ([1, 7, 9] ! 1)]) (compute_hparity [1, 7, 9]) = Inr False"
  by (rule hparity_detects_single_bit) simp_all

text \<open>
  Vertical parity, exactly: a buffer passes the check against the parity of another one if and only if the
  bit counts of the 32 tested positions have the same parity in both. In particular a buffer passes
  the check against its own parity, although the masks for bit positions 32 to 63 of each word alias
  those for 0 to 31.
\<close>

theorem check_vparity_iff:
  "check_vparity b (compute_vparity a) \<longleftrightarrow> (\<forall>i<32. even (vparity_total b i) = even (vparity_total a i))"
proof
  assume "\<forall>i<32. even (vparity_total b i) = even (vparity_total a i)"
  then have "even (vparity_total b (i mod 32)) = even (vparity_total a (i mod 32))" for i
    by simp
  then show "check_vparity b (compute_vparity a)"
    by (simp add: check_compute_vparity vparity_total_mod)
qed (simp add: check_compute_vparity)

theorem check_vparity_iff_witness: "\<not> check_vparity [1] (compute_vparity [2])"
proof -
  have "vparity_total [1] 0 = 1" "vparity_total [2] 0 = 0"
    by (simp_all add: vparity_total_def vparity_count.simps)
  then show ?thesis
    using check_vparity_iff [of "[1]" "[2]"] by (auto intro!: exI [of _ 0])
qed

text \<open>
  The vertical parity sees one bit of each byte only: buffers that agree, in every byte \<open>j\<close>, on bit
  \<open>j mod 8\<close> have the same vertical parity. The header comment claims parity over all 256 bit positions of a
  32-byte row; 224 of them are never looked at.
\<close>

theorem vparity_blind:
  assumes "length a = length b"
    and "\<forall>j<length a. bit (a ! j) (j mod 8) = bit (b ! j) (j mod 8)"
  shows "compute_vparity a = compute_vparity b \<and> check_vparity b (compute_vparity a)"
proof -
  have "vparity_total a i = vparity_total b i" for i
    using assms by (rule vparity_total_cong)
  then have "vparity_total a = vparity_total b" by blast
  moreover from this have "compute_vparity a = compute_vparity b"
    by (simp add: compute_vparity_fold)
  ultimately show ?thesis
    by (simp add: check_vparity_iff)
qed

theorem vparity_blind_witness:
  "compute_vparity [0, 0] = compute_vparity [254, 253]
   \<and> check_vparity [254, 253] (compute_vparity [0, 0])"
proof (rule vparity_blind)
  show "\<forall>j<length [0, 0 :: uchar8].
      bit ([0, 0 :: uchar8] ! j) (j mod 8) = bit ([254, 253 :: uchar8] ! j) (j mod 8)"
    by (simp add: less_Suc_eq)
qed simp

end
