(* ===== verification/Message.thy ===== *)
theory Message
  imports Byte_Help Byte_Order Msg_Parity
begin

text \<open>
  \<^verbatim>\<open>src/justin-snapshot/src/message.c\<close> and \<^verbatim>\<open>hdr/message.h\<close>: the message, its construction, its byte layout and its
  verification. Header and trailer have the same layout, 56 bytes without padding; the model uses
  one record for both. A conversion takes the byte order of the host it runs on. The random message
  number that \<^verbatim>\<open>form_msg\<close> draws is an argument of the model. Allocation succeeds, except that
  \<^verbatim>\<open>malloc\<close> of a negative \<^verbatim>\<open>int\<close> (a size above \<open>2 ^ 63\<close>) returns \<^verbatim>\<open>NULL\<close>. A pointer into a received buffer is
  the suffix of the buffer it points at.
\<close>

datatype CHANNEL_TYPE = DATA | CONTROL

datatype DATA_TYPE = SYN | ACK | RTS | NACK | FIN

fun chan_code :: "CHANNEL_TYPE \<Rightarrow> uint8" where
  "chan_code DATA = 0"
| "chan_code CONTROL = 1"

fun data_code :: "DATA_TYPE \<Rightarrow> uint8" where
  "data_code SYN = 0"
| "data_code ACK = 1"
| "data_code RTS = 2"
| "data_code NACK = 3"
| "data_code FIN = 4"

record msg_header_t =
  mbz :: uint16
  chanType :: uint8
  dataType :: uint8
  msgID :: uint32
  totalLength :: uint32
  bodyLength :: uint32
  contentLength :: uint32
  parityLength :: uint32
  sendID :: uint64
  recvID :: uint64
  segmentNum :: uint64
  crc :: uint64

type_synonym msg_trailer_t = msg_header_t

record msg_body_t =
  content :: bytes
  vparityData :: "uint64 list"
  hparityData :: bytes

record msg_t =
  head :: msg_header_t
  body :: msg_body_t
  trail :: msg_trailer_t

definition MAX_MESSAGE_SIZE :: uint64 where
  "MAX_MESSAGE_SIZE = 65536"

text \<open>\<^verbatim>\<open>sizeof(msg_header_t)\<close>: two bytes, two single bytes, five 4-byte and four 8-byte fields.\<close>

definition sizeof_msg_header :: nat where
  "sizeof_msg_header = 2 + 1 + 1 + 5 * 4 + 4 * 8"

definition calculate_header_length :: uint64 where
  "calculate_header_length = word_of_nat sizeof_msg_header"

definition calculate_trailer_length :: uint64 where
  "calculate_trailer_length = word_of_nat sizeof_msg_header"

definition calculate_parity_length :: "uint64 \<Rightarrow> uint64" where
  "calculate_parity_length bufflen = compute_vparity_length + compute_hparity_length bufflen"

definition calculate_body_length :: "uint64 \<Rightarrow> uint64" where
  "calculate_body_length clen = clen + calculate_parity_length clen"

definition calculate_total_length :: "uint64 \<Rightarrow> uint64" where
  "calculate_total_length clen =
     calculate_header_length + calculate_body_length clen + calculate_trailer_length"

subsection \<open>Forming a message\<close>

definition form_head ::
    "uint64 \<Rightarrow> uint64 \<Rightarrow> uint64 \<Rightarrow> uint8 \<Rightarrow> uint8 \<Rightarrow> uint64 \<Rightarrow> uint32 \<Rightarrow> msg_header_t" where
  "form_head rnd sID rID chant datat snum clen =
     \<lparr>mbz = 0, chanType = chant, dataType = datat, msgID = ucast rnd,
      totalLength = ucast (calculate_total_length (ucast clen)),
      bodyLength = ucast (calculate_body_length (ucast clen)),
      contentLength = clen,
      parityLength = ucast (calculate_parity_length (ucast clen)),
      sendID = sID, recvID = rID, segmentNum = snum, crc = 0\<rparr>"

definition form_msg ::
    "uint64 \<Rightarrow> uint64 \<Rightarrow> uint64 \<Rightarrow> uint8 \<Rightarrow> uint8 \<Rightarrow> uint64 \<Rightarrow> bytes \<Rightarrow> uint32 \<Rightarrow> msg_t c_result" where
  "form_msg rnd sID rID chant datat snum src clen =
     (let h = form_head rnd sID rID chant datat snum clen in
      c_bind (copy_void src (ucast clen)) (\<lambda>c.
      let hp = compute_hparity c in
      c_bind (c_guard (length hp \<le> unat (ucast (parityLength h) - compute_vparity_length)) OOB_Write) (\<lambda>_.
      Inr \<lparr>head = h,
           body = \<lparr>content = c, vparityData = compute_vparity c, hparityData = hp\<rparr>,
           trail = \<lparr>mbz = 0, chanType = chanType h, dataType = dataType h, msgID = msgID h,
             totalLength = totalLength h, bodyLength = bodyLength h,
             contentLength = contentLength h, parityLength = parityLength h,
             sendID = sendID h, recvID = recvID h, segmentNum = segmentNum h, crc = crc h\<rparr>\<rparr>)))"

subsection \<open>Message to bytes\<close>

text \<open>The C library's \<^verbatim>\<open>htonl\<close> family: the value whose representation in memory is in network byte order.\<close>

definition c_hton :: "host \<Rightarrow> 'a::len word \<Rightarrow> 'a word" where
  "c_hton h x = object_word h (be_bytes x)"

definition c_ntoh :: "host \<Rightarrow> 'a::len word \<Rightarrow> 'a word" where
  "c_ntoh h x = be_fold (object_bytes h x)"

definition msg_header_to_bytes :: "host \<Rightarrow> msg_header_t \<Rightarrow> nat \<Rightarrow> bytes c_result" where
  "msg_header_to_bytes h hdr dstlen =
     c_bind (c_guard (sizeof_msg_header \<le> dstlen) Assert_Failed) (\<lambda>_.
     Inr (object_bytes h (c_hton h (mbz hdr)) @ [chanType hdr] @ [dataType hdr]
        @ object_bytes h (c_hton h (msgID hdr))
        @ object_bytes h (c_hton h (totalLength hdr))
        @ object_bytes h (c_hton h (bodyLength hdr))
        @ object_bytes h (c_hton h (contentLength hdr))
        @ object_bytes h (c_hton h (parityLength hdr))
        @ object_bytes h (hton64 h (sendID hdr))
        @ object_bytes h (hton64 h (recvID hdr))
        @ object_bytes h (hton64 h (segmentNum hdr))
        @ object_bytes h (hton64 h (crc hdr))))"

text \<open>The trailer routine first asserts \<^verbatim>\<open>dstlen >= sizeof(t)\<close> for the pointer \<^verbatim>\<open>t\<close>, 8 bytes.\<close>

definition msg_trailer_to_bytes :: "host \<Rightarrow> msg_trailer_t \<Rightarrow> nat \<Rightarrow> bytes c_result" where
  "msg_trailer_to_bytes h t dstlen =
     c_bind (c_guard (8 \<le> dstlen) Assert_Failed) (\<lambda>_. msg_header_to_bytes h t dstlen)"

definition put_vparity :: "host \<Rightarrow> uint64 list \<Rightarrow> nat \<Rightarrow> bytes \<Rightarrow> bytes c_result" where
  "put_vparity h vp off buf =
     foldl (\<lambda>r i. c_bind r (\<lambda>buf.
        if i < length vp then mem_write (off + 8 * i) (object_bytes h (hton64 h (vp ! i))) buf
        else Inl OOB_Read)) (Inr buf) [0..<4]"

definition msg_to_bytes :: "host \<Rightarrow> msg_t \<Rightarrow> bytes c_result" where
  "msg_to_bytes h src =
     (let clen = ucast (contentLength (head src)) :: uint64;
          len = unat (calculate_total_length clen);
          buf = replicate len 0;
          p1 = sizeof_msg_header;
          p2 = p1 + unat clen;
          p3 = p2 + 8 * 4;
          hlen = unat (compute_hparity_length clen);
          p4 = p3 + hlen
      in c_bind (msg_header_to_bytes h (head src) len) (\<lambda>hb.
         c_bind (mem_write 0 hb buf) (\<lambda>buf.
         c_bind (mem_read 0 (unat clen) (content (body src))) (\<lambda>c.
         c_bind (mem_write p1 c buf) (\<lambda>buf.
         c_bind (put_vparity h (vparityData (body src)) p2 buf) (\<lambda>buf.
         c_bind (mem_read 0 hlen (hparityData (body src))) (\<lambda>hp.
         c_bind (mem_write p3 hp buf) (\<lambda>buf.
         c_bind (msg_trailer_to_bytes h (trail src) p4) (\<lambda>tb.
         c_bind (mem_write p4 tb buf) (\<lambda>buf.
         Inr (take (p4 + sizeof_msg_header) buf)))))))))))"

subsection \<open>Bytes to message\<close>

text \<open>\<open>src\<close> ends at \<^verbatim>\<open>eob\<close>; \<open>None\<close> is the overrun.\<close>

definition safe_memcpy :: "bytes \<Rightarrow> uint32 \<Rightarrow> bytes option" where
  "safe_memcpy src len = (if unat len \<le> length src then Some (take (unat len) src) else None)"

definition field :: "host \<Rightarrow> nat \<Rightarrow> nat \<Rightarrow> bytes \<Rightarrow> 'a::len word" where
  "field h off n bs = object_word h (take n (drop off bs))"

definition msg_ht_from_bytes :: "host \<Rightarrow> bytes \<Rightarrow> (msg_header_t \<times> bytes) option" where
  "msg_ht_from_bytes h src =
     (case safe_memcpy src (word_of_nat sizeof_msg_header) of
        None \<Rightarrow> None
      | Some r \<Rightarrow>
          Some (\<lparr>mbz = c_ntoh h (field h 0 2 r), chanType = r ! 2, dataType = r ! 3,
                 msgID = c_ntoh h (field h 4 4 r),
                 totalLength = c_ntoh h (field h 8 4 r),
                 bodyLength = c_ntoh h (field h 12 4 r),
                 contentLength = c_ntoh h (field h 16 4 r),
                 parityLength = c_ntoh h (field h 20 4 r),
                 sendID = ntoh64 h (field h 24 8 r),
                 recvID = ntoh64 h (field h 32 8 r),
                 segmentNum = ntoh64 h (field h 40 8 r),
                 crc = ntoh64 h (field h 48 8 r)\<rparr>,
                drop sizeof_msg_header src))"

definition msg_header_from_bytes :: "host \<Rightarrow> bytes \<Rightarrow> (msg_header_t \<times> bytes) option" where
  "msg_header_from_bytes h src = msg_ht_from_bytes h src"

definition msg_trailer_from_bytes :: "host \<Rightarrow> bytes \<Rightarrow> (msg_trailer_t \<times> bytes) option" where
  "msg_trailer_from_bytes h src = msg_ht_from_bytes h src"

definition msg_body_from_bytes ::
    "host \<Rightarrow> bytes \<Rightarrow> uint64 \<Rightarrow> uint64 \<Rightarrow> (msg_body_t \<times> bytes) option" where
  "msg_body_from_bytes h src contentlen paritylen =
     (if src = [] \<or> MAX_MESSAGE_SIZE \<le> contentlen then None
      else (case safe_memcpy src (ucast contentlen) of
        None \<Rightarrow> None
      | Some c \<Rightarrow>
          (let cur = drop (unat contentlen) src in
           case safe_memcpy cur (ucast compute_vparity_length) of
             None \<Rightarrow> None
           | Some v \<Rightarrow>
               (let cur = drop (unat compute_vparity_length) cur;
                    hparlen = ucast (paritylen - compute_vparity_length) :: uint32
                in if hparlen <s 0 then None
                   else (case safe_memcpy cur hparlen of
                      None \<Rightarrow> None
                    | Some hp \<Rightarrow>
                        Some (\<lparr>content = c,
                               vparityData = map (\<lambda>i. ntoh64 h (field h (8 * i) 8 v)) [0..<4],
                               hparityData = hp\<rparr>,
                              drop (unat hparlen) cur))))))"

definition msg_from_bytes :: "host \<Rightarrow> bytes \<Rightarrow> msg_t option" where
  "msg_from_bytes h src =
     (case msg_header_from_bytes h src of
        None \<Rightarrow> None
      | Some (hp, src) \<Rightarrow>
          (case msg_body_from_bytes h src (ucast (contentLength hp)) (ucast (parityLength hp)) of
             None \<Rightarrow> None
           | Some (bd, src) \<Rightarrow>
               (case msg_trailer_from_bytes h src of
                  None \<Rightarrow> None
                | Some (tr, src) \<Rightarrow> Some \<lparr>head = hp, body = bd, trail = tr\<rparr>)))"

subsection \<open>Verification of a message\<close>

datatype alert =
    SendID_Mismatch | RecvID_Mismatch | MsgID_Mismatch | ChanType_Mismatch | DataType_Mismatch
  | TotalLength_Mismatch | BodyLength_Mismatch | ContentLength_Mismatch | ParityLength_Mismatch
  | SegmentNum_Mismatch | CRC_Mismatch
  | TotalLength_ContentLength | TotalLength_BodyLength | ParityLength_ContentLength
  | Vertical_Parity | Horizontal_Parity | CRC_Nonzero

definition header_alert :: "msg_header_t \<Rightarrow> msg_trailer_t \<Rightarrow> alert option" where
  "header_alert h t =
     (if sendID h \<noteq> sendID t then Some SendID_Mismatch
      else if recvID h \<noteq> recvID t then Some RecvID_Mismatch
      else if msgID h \<noteq> msgID t then Some MsgID_Mismatch
      else if chanType h \<noteq> chanType t then Some ChanType_Mismatch
      else if dataType h \<noteq> dataType t then Some DataType_Mismatch
      else if totalLength h \<noteq> totalLength t then Some TotalLength_Mismatch
      else if bodyLength h \<noteq> bodyLength t then Some BodyLength_Mismatch
      else if contentLength h \<noteq> contentLength t then Some ContentLength_Mismatch
      else if parityLength h \<noteq> parityLength t then Some ParityLength_Mismatch
      else if segmentNum h \<noteq> segmentNum t then Some SegmentNum_Mismatch
      else if crc h \<noteq> crc t then Some CRC_Mismatch
      else None)"

definition length_alert :: "msg_header_t \<Rightarrow> alert option" where
  "length_alert h =
     (if ucast (totalLength h) \<noteq> calculate_total_length (ucast (contentLength h))
      then Some TotalLength_ContentLength
      else if totalLength h
         \<noteq> ucast (calculate_header_length + ucast (bodyLength h) + calculate_trailer_length)
      then Some TotalLength_BodyLength
      else if ucast (parityLength h) \<noteq> calculate_parity_length (ucast (contentLength h))
      then Some ParityLength_ContentLength
      else None)"

definition parity_alert :: "msg_header_t \<Rightarrow> msg_body_t \<Rightarrow> alert option c_result" where
  "parity_alert h b =
     c_bind (mem_read 0 (unat (contentLength h)) (content b)) (\<lambda>c.
     c_bind (c_guard (4 \<le> length (vparityData b)) OOB_Read) (\<lambda>_.
     if \<not> check_vparity c (vparityData b) then Inr (Some Vertical_Parity)
     else c_bind (check_hparity c (hparityData b)) (\<lambda>ok.
       if \<not> ok then Inr (Some Horizontal_Parity)
       else if crc h \<noteq> 0 then Inr (Some CRC_Nonzero)
       else Inr None)))"

text \<open>The alert that \<^verbatim>\<open>verify_msg\<close> logs when it returns false; \<open>None\<close> when it returns true.\<close>

definition verify_msg_alert :: "msg_t \<Rightarrow> alert option c_result" where
  "verify_msg_alert src =
     (case header_alert (head src) (trail src) of
        Some a \<Rightarrow> Inr (Some a)
      | None \<Rightarrow>
          (case length_alert (head src) of
             Some a \<Rightarrow> Inr (Some a)
           | None \<Rightarrow> parity_alert (head src) (body src)))"

definition verify_msg :: "msg_t \<Rightarrow> bool c_result" where
  "verify_msg src = c_bind (verify_msg_alert src) (\<lambda>a. Inr (a = None))"

end
