(* ===== verification/Message_Correct.thy ===== *)
theory Message_Correct
  imports Message
begin

text \<open>Theorems on messages: byte layout, round trips between hosts, verification.\<close>

text \<open>
  The wire image of a header and of a message, and what a message must satisfy for its lengths to be
  consistent: \<open>wf_msg\<close> is what \<^verbatim>\<open>form_msg\<close> establishes.
\<close>

definition header_wire :: "msg_header_t \<Rightarrow> bytes" where
  "header_wire hdr =
     be_bytes (mbz hdr) @ [chanType hdr] @ [dataType hdr] @ be_bytes (msgID hdr)
     @ be_bytes (totalLength hdr) @ be_bytes (bodyLength hdr) @ be_bytes (contentLength hdr)
     @ be_bytes (parityLength hdr) @ be_bytes (sendID hdr) @ be_bytes (recvID hdr)
     @ be_bytes (segmentNum hdr) @ be_bytes (crc hdr)"

definition msg_wire :: "msg_t \<Rightarrow> bytes" where
  "msg_wire m =
     header_wire (head m) @ content (body m) @ concat (map be_bytes (vparityData (body m)))
     @ hparityData (body m) @ header_wire (trail m)"

definition wf_msg :: "msg_t \<Rightarrow> bool" where
  "wf_msg m \<longleftrightarrow>
     length (content (body m)) = unat (contentLength (head m))
   \<and> unat (contentLength (head m)) < 65536
   \<and> length (vparityData (body m)) = 4
   \<and> unat (parityLength (head m)) = 32 + length (hparityData (body m))
   \<and> length (hparityData (body m)) = (unat (contentLength (head m)) + 31) div 32"

text \<open>What a message read from bytes satisfies: the announced lengths are those of the arrays.\<close>

definition layout_ok :: "msg_t \<Rightarrow> bool" where
  "layout_ok m \<longleftrightarrow>
     length (content (body m)) = unat (contentLength (head m))
   \<and> unat (contentLength (head m)) < 65536
   \<and> length (vparityData (body m)) = 4
   \<and> unat (parityLength (head m)) = 32 + length (hparityData (body m))
   \<and> length (hparityData (body m)) < 2 ^ 31"

text \<open>The message with a given header and content, and one concrete message.\<close>

definition formed_msg :: "msg_header_t \<Rightarrow> bytes \<Rightarrow> msg_t" where
  "formed_msg h c = \<lparr>head = h, body = \<lparr>content = c, vparityData = compute_vparity c, hparityData = compute_hparity c\<rparr>,
     trail = h\<rparr>"

definition sample_msg :: msg_t where
  "sample_msg = formed_msg (form_head 7 1 2 0 0 5 3) [65, 66, 0]"

subsection \<open>Buffers filled from the front\<close>

lemma mem_write_fill:
  "length pre = off \<Longrightarrow> length d \<le> n \<Longrightarrow>
   mem_write off d (pre @ replicate n 0) = Inr (pre @ d @ replicate (n - length d) 0)"
  by (simp add: mem_write_def)

subsection \<open>Byte order of the C library\<close>

lemma store_c_hton [simp]:
  "LENGTH('a) mod 8 = 0 \<Longrightarrow> object_bytes h (c_hton h (x :: 'a::len word)) = be_bytes x"
  by (simp add: c_hton_def object_bytes_word mod_0_imp_dvd)

lemma load_c_ntoh:
  "8 * length bs = LENGTH('a) \<Longrightarrow> c_ntoh h (object_word h bs :: 'a::len word) = be_fold bs"
  by (simp add: c_ntoh_def object_bytes_word)

subsection \<open>Headers\<close>

lemma length_header_wire [simp]: "length (header_wire hdr) = 56"
  by (simp add: header_wire_def)

lemma msg_header_to_bytes_eq:
  "msg_header_to_bytes h hdr n = (if 56 \<le> n then Inr (header_wire hdr) else Inl Assert_Failed)"
  by (simp add: msg_header_to_bytes_def sizeof_msg_header_def header_wire_def c_guard_def)

lemma msg_trailer_to_bytes_eq:
  "msg_trailer_to_bytes h t n = (if 56 \<le> n then Inr (header_wire t) else Inl Assert_Failed)"
  by (simp add: msg_trailer_to_bytes_def msg_header_to_bytes_eq c_guard_def)

lemma take_drop_pieces:
  "length a = n \<Longrightarrow> take n (drop 0 (a @ b)) = a"
  "length a = m \<Longrightarrow> m \<le> off \<Longrightarrow> take n (drop off (a @ b)) = take n (drop (off - m) b)"
  "0 < off \<Longrightarrow> take n (drop off (x # b)) = take n (drop (off - 1) b)"
  by (simp_all add: drop_Cons')

lemma msg_ht_from_bytes_wire: "msg_ht_from_bytes h (header_wire hdr @ rest) = Some (hdr, rest)"
proof -
  have cp: "safe_memcpy (header_wire hdr @ rest) (word_of_nat sizeof_msg_header) = Some (header_wire hdr)"
    by (simp add: safe_memcpy_def sizeof_msg_header_def)
  have b: "header_wire hdr ! 2 = chanType hdr" "header_wire hdr ! 3 = dataType hdr"
    by (simp_all add: header_wire_def nth_append)
  have f16: "c_ntoh h (field h 0 2 (header_wire hdr)) = mbz hdr"
    unfolding field_def header_wire_def by (subst load_c_ntoh) simp_all
  have f32: "c_ntoh h (field h 4 4 (header_wire hdr)) = msgID hdr"
    "c_ntoh h (field h 8 4 (header_wire hdr)) = totalLength hdr"
    "c_ntoh h (field h 12 4 (header_wire hdr)) = bodyLength hdr"
    "c_ntoh h (field h 16 4 (header_wire hdr)) = contentLength hdr"
    "c_ntoh h (field h 20 4 (header_wire hdr)) = parityLength hdr"
    unfolding field_def header_wire_def by (subst load_c_ntoh; simp add: take_drop_pieces)+
  have f64: "ntoh64 h (field h 24 8 (header_wire hdr)) = sendID hdr"
    "ntoh64 h (field h 32 8 (header_wire hdr)) = recvID hdr"
    "ntoh64 h (field h 40 8 (header_wire hdr)) = segmentNum hdr"
    "ntoh64 h (field h 48 8 (header_wire hdr)) = crc hdr"
    unfolding field_def header_wire_def by (subst load_ntoh; simp add: take_drop_pieces)+
  show ?thesis
    by (simp only: msg_ht_from_bytes_def cp option.simps b f16 f32 f64) (simp add: sizeof_msg_header_def)
qed

lemma msg_ht_from_bytes_None_iff: "msg_ht_from_bytes h src = None \<longleftrightarrow> length src < 56"
  by (auto simp: msg_ht_from_bytes_def safe_memcpy_def sizeof_msg_header_def)

subsection \<open>Lengths\<close>

lemma unat_parity_length:
  "unat (calculate_parity_length (ucast (c :: uint32))) = 32 + (unat c + 31) div 32"
proof -
  have "32 + (unat c + 31) div 32 < 2 ^ 64"
    using unat32_bound [of c] by simp
  then show ?thesis
    by (simp add: calculate_parity_length_def unat_add64 unat_hparity_length compute_vparity_length_def)
qed

lemma unat_body_length:
  "unat (calculate_body_length (ucast (c :: uint32))) = unat c + 32 + (unat c + 31) div 32"
proof -
  have "unat c + (32 + (unat c + 31) div 32) < 2 ^ 64"
    using unat32_bound [of c] by simp
  then show ?thesis
    by (simp add: calculate_body_length_def unat_add64 unat_parity_length)
qed

lemma unat_total_length:
  "unat (calculate_total_length (ucast (c :: uint32))) = 56 + unat c + 32 + (unat c + 31) div 32 + 56"
proof -
  have "56 + (unat c + 32 + (unat c + 31) div 32) + 56 < 2 ^ 64"
    using unat32_bound [of c] by simp
  then show ?thesis
    by (simp add: calculate_total_length_def calculate_header_length_def calculate_trailer_length_def
        sizeof_msg_header_def unat_add64 unat_body_length)
qed

lemmas message_lengths = unat_parity_length unat_body_length unat_total_length

subsection \<open>A message and its wire image\<close>

lemma length_4_cases:
  assumes "length vp = 4"
  obtains a b c d where "vp = [a, b, c, d]"
  using assms by (auto simp: numeral_eq_Suc length_Suc_conv)

lemma length_vparity_wire [simp]:
  "length vp = 4 \<Longrightarrow> length (concat (map be_bytes (vp :: uint64 list))) = 32"
  by (erule length_4_cases) simp

lemma put_vparity_fill:
  assumes "length vp = 4" "length pre = off" "32 \<le> n"
  shows "put_vparity h vp off (pre @ replicate n 0) =
     Inr (pre @ concat (map be_bytes vp) @ replicate (n - 32) 0)"
proof -
  obtain a b c d where vp: "vp = [a, b, c, d]"
    using assms(1) by (rule length_4_cases)
  have u: "[0..<4] = [0, 1, 2, 3 :: nat]"
    by (simp add: upt_rec)
  have w: "mem_write (off + length xs) (be_bytes (x :: uint64)) (pre @ xs @ replicate m 0) =
     Inr (pre @ (xs @ be_bytes x) @ replicate (m - 8) 0)" if "8 \<le> m" for xs x m
    using mem_write_fill [of "pre @ xs" "off + length xs" "be_bytes x" m] that assms(2) by simp
  have w0: "mem_write off (be_bytes a) (pre @ replicate n 0) = Inr (pre @ be_bytes a @ replicate (n - 8) 0)"
    using w [of n "[]" a] assms(3) by simp
  have w1: "mem_write (off + 8) (be_bytes b) (pre @ be_bytes a @ replicate (n - 8) 0) =
     Inr (pre @ (be_bytes a @ be_bytes b) @ replicate (n - 16) 0)"
    using w [of "n - 8" "be_bytes a" b] assms(3) by simp
  have w2: "mem_write (off + 16) (be_bytes c) (pre @ (be_bytes a @ be_bytes b) @ replicate (n - 16) 0) =
     Inr (pre @ ((be_bytes a @ be_bytes b) @ be_bytes c) @ replicate (n - 24) 0)"
    using w [of "n - 16" "be_bytes a @ be_bytes b" c] assms(3) by simp
  have w3: "mem_write (off + 24) (be_bytes d) (pre @ ((be_bytes a @ be_bytes b) @ be_bytes c) @ replicate (n - 24) 0) =
     Inr (pre @ (((be_bytes a @ be_bytes b) @ be_bytes c) @ be_bytes d) @ replicate (n - 32) 0)"
    using w [of "n - 24" "(be_bytes a @ be_bytes b) @ be_bytes c" d] assms(3) by simp
  show ?thesis
    using w0 w1 w2 w3 by (simp add: put_vparity_def u vp store_hton)
qed

lemma msg_to_bytes_wire:
  assumes "wf_msg m"
  shows "msg_to_bytes h m = Inr (msg_wire m)"
proof -
  define c where "c = unat (contentLength (head m))"
  define k where "k = (c + 31) div 32"
  have wf: "length (content (body m)) = c" "length (vparityData (body m)) = 4" "length (hparityData (body m)) = k"
    using assms by (simp_all add: wf_msg_def c_def k_def)
  have len: "unat (calculate_total_length (ucast (contentLength (head m)))) = 56 + c + 32 + k + 56"
    by (simp add: unat_total_length c_def k_def)
  have hl: "unat (compute_hparity_length (ucast (contentLength (head m)))) = k"
    by (simp add: unat_hparity_length c_def k_def)
  have cl: "unat (ucast (contentLength (head m)) :: uint64) = c"
    by (simp add: c_def)
  have vl: "length (concat (map be_bytes (vparityData (body m)))) = 32"
    using wf(2) by simp
  have r: "mem_read 0 c (content (body m)) = Inr (content (body m))"
    "mem_read 0 k (hparityData (body m)) = Inr (hparityData (body m))"
    using wf by (simp_all add: mem_read_def)
  have w0: "mem_write 0 (header_wire (head m)) (replicate (56 + c + 32 + k + 56) 0) =
      Inr (header_wire (head m) @ replicate (c + 32 + k + 56) 0)"
    using mem_write_fill [of "[]" 0 "header_wire (head m)" "56 + c + 32 + k + 56"] by simp
  have w1: "mem_write 56 (content (body m)) (header_wire (head m) @ replicate (c + 32 + k + 56) 0) =
      Inr ((header_wire (head m) @ content (body m)) @ replicate (32 + k + 56) 0)"
    using mem_write_fill [of "header_wire (head m)" 56 "content (body m)" "c + 32 + k + 56"] wf by simp
  have w2: "put_vparity h (vparityData (body m)) (56 + c)
        ((header_wire (head m) @ content (body m)) @ replicate (32 + k + 56) 0) =
      Inr ((header_wire (head m) @ content (body m) @ concat (map be_bytes (vparityData (body m)))) @ replicate (k + 56) 0)"
    using put_vparity_fill [of "vparityData (body m)" "header_wire (head m) @ content (body m)"
        "56 + c" "32 + k + 56" h] wf by simp
  have w3: "mem_write (56 + c + 32) (hparityData (body m))
        ((header_wire (head m) @ content (body m) @ concat (map be_bytes (vparityData (body m)))) @ replicate (k + 56) 0) =
      Inr ((header_wire (head m) @ content (body m) @ concat (map be_bytes (vparityData (body m)))
        @ hparityData (body m)) @ replicate 56 0)"
    by (subst mem_write_fill) (simp_all add: wf vl)
  have w4: "mem_write (56 + c + 32 + k) (header_wire (trail m))
        ((header_wire (head m) @ content (body m) @ concat (map be_bytes (vparityData (body m)))
        @ hparityData (body m)) @ replicate 56 0) = Inr (msg_wire m)"
    by (subst mem_write_fill) (simp_all add: wf vl msg_wire_def)
  have "length (msg_wire m) = 56 + c + 32 + k + 56"
    by (simp add: msg_wire_def wf vl)
  then show ?thesis
    using w0 w1 w2 w3 w4
    by (simp add: msg_to_bytes_def Let_def len hl c_def [symmetric] r sizeof_msg_header_def
        msg_header_to_bytes_eq msg_trailer_to_bytes_eq)
qed

lemma vparity_from_wire:
  assumes "length vp = 4"
  shows "map (\<lambda>i. ntoh64 h (field h (8 * i) 8 (concat (map be_bytes vp)))) [0..<4] = vp"
proof -
  obtain a b c d where vp: "vp = [a, b, c, d]"
    using assms by (rule length_4_cases)
  have u: "[0..<4] = [0, 1, 2, 3 :: nat]"
    by (simp add: upt_rec)
  show ?thesis
    by (simp add: u vp field_def load_ntoh take_drop_pieces)
qed

lemma safe_memcpy_append: "unat n = length xs \<Longrightarrow> safe_memcpy (xs @ ys) n = Some xs"
  by (simp add: safe_memcpy_def)

lemma length_msg_wire:
  "wf_msg m \<Longrightarrow> length (msg_wire m) =
     144 + unat (contentLength (head m)) + (unat (contentLength (head m)) + 31) div 32"
  by (simp add: wf_msg_def msg_wire_def)

lemma wf_msg_layout: "wf_msg m \<Longrightarrow> layout_ok m"
  by (auto simp: wf_msg_def layout_ok_def)

lemma hparlen_eq:
  fixes p :: uint32
  defines "l \<equiv> ucast (ucast p - compute_vparity_length :: uint64) :: uint32"
  shows "\<not> l <s 0 \<longleftrightarrow> 32 \<le> unat p \<and> unat p < 2 ^ 31 + 32"
    and "\<not> l <s 0 \<Longrightarrow> unat l = unat p - 32"
proof -
  have l: "l = p - 32"
    unfolding l_def compute_vparity_length_def by transfer (simp add: take_bit_eq_mod mod_mod_cancel mod_diff_left_eq)
  have ge: "unat l = unat p - 32" if "32 \<le> unat p"
    using that unfolding l by (subst unat_sub) (simp_all add: word_le_nat_alt)
  have lt: "2 ^ 31 \<le> unat l" if "unat p < 32"
  proof -
    have "unat l = (unat p + (2 ^ 32 - 32)) mod 2 ^ 32"
      using unat_word_ariths(1) [of p "- 32"] by (simp add: l)
    then show ?thesis
      using that by simp
  qed
  show 1: "\<not> l <s 0 \<longleftrightarrow> 32 \<le> unat p \<and> unat p < 2 ^ 31 + 32"
    using ge lt by (cases "32 \<le> unat p") (auto simp: sless_zero_32)
  show "unat l = unat p - 32" if "\<not> l <s 0"
    using that 1 ge by blast
qed

lemma be_bytes_be_fold: "8 * length bs = LENGTH('a) \<Longrightarrow> be_bytes (be_fold bs :: 'a::len word) = bs"
  by (simp add: be_bytes_def le_bytes_be_fold)

lemma take_drop_glue: "take n (drop off bs) @ take m (drop (off + n) bs) = take (n + m) (drop off bs)"
  by (simp only: take_add drop_drop add.commute [of off n])

text \<open>Every 56 bytes are the image of exactly one header.\<close>

lemma header_wire_surj:
  assumes "length r = 56"
  obtains hdr where "header_wire hdr = r"
proof
  let ?f = "\<lambda>off n. take n (drop off r)"
  define hdr where "hdr = \<lparr>mbz = be_fold (?f 0 2), chanType = r ! 2, dataType = r ! 3, msgID = be_fold (?f 4 4),
     totalLength = be_fold (?f 8 4), bodyLength = be_fold (?f 12 4), contentLength = be_fold (?f 16 4),
     parityLength = be_fold (?f 20 4), sendID = be_fold (?f 24 8), recvID = be_fold (?f 32 8),
     segmentNum = be_fold (?f 40 8), crc = be_fold (?f 48 8)\<rparr>"
  have one: "[r ! 2] = ?f 2 1" "[r ! 3] = ?f 3 1"
    using assms by (simp_all add: take_Suc_conv_app_nth [of 0] hd_drop_conv_nth take_Suc_Cons flip: Cons_nth_drop_Suc)
  have g: "?f a n @ ?f b m @ zs = ?f a (n + m) @ zs" if "b = a + n" for a b n m zs
    using take_drop_glue [of n a r m] that by (simp flip: append_assoc)
  have "header_wire hdr = ?f 0 2 @ ?f 2 1 @ ?f 3 1 @ ?f 4 4 @ ?f 8 4 @ ?f 12 4 @ ?f 16 4 @ ?f 20 4
     @ ?f 24 8 @ ?f 32 8 @ ?f 40 8 @ ?f 48 8 @ []"
    unfolding header_wire_def hdr_def msg_header_t.select_convs one
    using assms by (simp add: be_bytes_be_fold)
  also have "\<dots> = ?f 0 (2 + 1 + 1 + 4 + 4 + 4 + 4 + 4 + 8 + 8 + 8 + 8) @ []"
    by (simp only: g) simp
  finally show "header_wire hdr = r"
    using assms by simp
qed

lemma vparity_to_wire:
  assumes "length v = 32"
  shows "concat (map be_bytes (map (\<lambda>i. ntoh64 h (field h (8 * i) 8 v)) [0..<4])) = v"
proof -
  let ?f = "\<lambda>off n. take n (drop off v)"
  have u: "[0..<4] = [0, 1, 2, 3 :: nat]"
    by (simp add: upt_rec)
  have g: "?f a n @ ?f b m = ?f a (n + m)" if "b = a + n" for a b n m
    using take_drop_glue [of n a v m] that by simp
  have "concat (map be_bytes (map (\<lambda>i. ntoh64 h (field h (8 * i) 8 v)) [0..<4])) =
      ?f 0 8 @ ?f 8 8 @ ?f 16 8 @ ?f 24 8"
    using assms by (simp add: u field_def load_ntoh be_bytes_be_fold)
  also have "\<dots> = ?f 0 (8 + (8 + (8 + 8)))"
    by (simp only: g)
  finally show ?thesis
    using assms by simp
qed

lemma safe_memcpy_Some_iff: "safe_memcpy src n = Some d \<longleftrightarrow> (\<exists>rest. src = d @ rest \<and> length d = unat n)"
  by (auto simp: safe_memcpy_def) (metis append_take_drop_id length_take min.absorb2)

lemma msg_body_from_bytes_iff:
  fixes cl pl :: uint32
  shows "msg_body_from_bytes h src (ucast cl) (ucast pl) = Some (b, rest) \<longleftrightarrow>
     src = content b @ concat (map be_bytes (vparityData b)) @ hparityData b @ rest
     \<and> length (content b) = unat cl \<and> unat cl < 65536 \<and> length (vparityData b) = 4
     \<and> unat pl = 32 + length (hparityData b) \<and> length (hparityData b) < 2 ^ 31" (is "?L \<longleftrightarrow> ?R")
proof
  let ?l = "ucast (ucast pl - compute_vparity_length :: uint64) :: uint32"
  have big: "MAX_MESSAGE_SIZE \<le> (ucast cl :: uint64) \<longleftrightarrow> 65536 \<le> unat cl"
    by (simp add: MAX_MESSAGE_SIZE_def word_le_nat_alt)
  have v32: "unat (ucast compute_vparity_length :: uint32) = 32" "unat compute_vparity_length = 32"
    by (simp_all add: compute_vparity_length_def)
  note [simp] = big v32
  show ?R if L: ?L
  proof -
    obtain c v hp where *: "src = c @ v @ hp @ rest" "length c = unat cl" "length v = 32" "length hp = unat ?l" "\<not> ?l <s 0" "unat cl < 65536"
      "b = \<lparr>content = c, vparityData = map (\<lambda>i. ntoh64 h (field h (8 * i) 8 v)) [0..<4], hparityData = hp\<rparr>"
      using L
      by (auto simp: msg_body_from_bytes_def Let_def safe_memcpy_Some_iff split: if_splits option.splits)
    moreover have "unat pl = 32 + length hp" "length hp < 2 ^ 31"
      using * hparlen_eq [of pl] by auto
    ultimately show ?thesis
      using vparity_to_wire [of v h] by simp
  qed
  show ?L if ?R
  proof -
    obtain c vp hp where b: "b = \<lparr>content = c, vparityData = vp, hparityData = hp\<rparr>"
      by (cases b)
    have l: "\<not> ?l <s 0" "unat ?l = length hp"
      using that hparlen_eq [of pl] by (auto simp: b)
    have ne: "concat (map be_bytes vp) \<noteq> []"
      using that length_vparity_wire [of vp] by (metis b list.size(3) msg_body_t.select_convs(2) zero_neq_numeral)
    show ?thesis
      using that l ne vparity_from_wire [of vp h]
      by (simp add: b msg_body_from_bytes_def Let_def safe_memcpy_append)
  qed
qed

text \<open>The parser accepts exactly the byte strings that start with the wire image of a message with sound lengths.\<close>

lemma msg_from_bytes_Some_iff:
  "msg_from_bytes h src = Some m \<longleftrightarrow> layout_ok m \<and> (\<exists>extra. src = msg_wire m @ extra)"
proof
  assume "msg_from_bytes h src = Some m"
  then obtain hd r1 b r2 tl r3 where p: "msg_ht_from_bytes h src = Some (hd, r1)"
    "msg_body_from_bytes h r1 (ucast (contentLength hd)) (ucast (parityLength hd)) = Some (b, r2)"
    "msg_ht_from_bytes h r2 = Some (tl, r3)" "m = \<lparr>head = hd, body = b, trail = tl\<rparr>"
    by (auto simp: msg_from_bytes_def msg_header_from_bytes_def msg_trailer_from_bytes_def split: option.splits)
  have ht: "src = header_wire hdr @ rest" if "msg_ht_from_bytes h src = Some (hdr, rest)" for src hdr rest
  proof -
    have "56 \<le> length src"
      using that msg_ht_from_bytes_None_iff [of h src] by (metis not_le option.distinct(1))
    then obtain hdr' where "header_wire hdr' = take 56 src"
      using header_wire_surj [of "take 56 src"] by auto
    then have "src = header_wire hdr' @ drop 56 src"
      by (metis append_take_drop_id)
    then show ?thesis
      using that msg_ht_from_bytes_wire [of h hdr' "drop 56 src"] by (metis option.inject prod.inject)
  qed
  show "layout_ok m \<and> (\<exists>extra. src = msg_wire m @ extra)"
    using p(2,4) ht [OF p(1)] ht [OF p(3)] by (auto simp: msg_body_from_bytes_iff layout_ok_def msg_wire_def)
next
  assume "layout_ok m \<and> (\<exists>extra. src = msg_wire m @ extra)"
  then obtain extra where *: "layout_ok m" "src = msg_wire m @ extra"
    by blast
  have "msg_body_from_bytes h (content (body m) @ concat (map be_bytes (vparityData (body m))) @ hparityData (body m)
      @ header_wire (trail m) @ extra) (ucast (contentLength (head m))) (ucast (parityLength (head m)))
      = Some (body m, header_wire (trail m) @ extra)"
    using *(1) by (subst msg_body_from_bytes_iff) (simp add: layout_ok_def)
  then show "msg_from_bytes h src = Some m"
    using *(2) by (simp add: msg_from_bytes_def msg_header_from_bytes_def msg_trailer_from_bytes_def
        msg_wire_def msg_ht_from_bytes_wire)
qed

subsection \<open>Formed messages\<close>

lemma form_head_simps [simp]:
  "contentLength (form_head r s d ct dt n clen) = clen"
  "crc (form_head r s d ct dt n clen) = 0"
  by (simp_all add: form_head_def)

lemma form_head_lengths:
  assumes "unat clen < 65536"
  shows "unat (totalLength (form_head r s d ct dt n clen)) = 144 + unat clen + (unat clen + 31) div 32"
    and "unat (bodyLength (form_head r s d ct dt n clen)) = 32 + unat clen + (unat clen + 31) div 32"
    and "unat (parityLength (form_head r s d ct dt n clen)) = 32 + (unat clen + 31) div 32"
proof -
  have "144 + unat clen + (unat clen + 31) div 32 < 2 ^ 32"
    using assms by simp
  then show "unat (totalLength (form_head r s d ct dt n clen)) = 144 + unat clen + (unat clen + 31) div 32"
    "unat (bodyLength (form_head r s d ct dt n clen)) = 32 + unat clen + (unat clen + 31) div 32"
    "unat (parityLength (form_head r s d ct dt n clen)) = 32 + (unat clen + 31) div 32"
    by (simp_all add: form_head_def unat_ucast_64_32 message_lengths)
qed

lemma form_msg_eq:
  assumes "unat clen \<le> length src" "unat clen < 65536"
  shows "form_msg r s d ct dt n src clen =
     Inr (formed_msg (form_head r s d ct dt n clen) (take (unat clen) src))"
proof -
  let ?h = "form_head r s d ct dt n clen"
  have "unat (ucast (parityLength ?h) - 32 :: uint64) = (unat clen + 31) div 32"
    using form_head_lengths(3) [OF assms(2)] by (subst unat_sub) (simp_all add: word_le_nat_alt)
  moreover have "length (compute_hparity (take (unat clen) src)) = (unat clen + 31) div 32"
    using assms by (simp add: unat_hparity_length unat_of_nat64)
  moreover have "copy_void src (ucast clen) = Inr (take (unat clen) src)"
    using assms by (simp add: copy_void_def mem_read_def)
  ultimately show ?thesis
    by (simp add: form_msg_def Let_def formed_msg_def compute_vparity_length_def)
      (simp add: form_head_def)
qed

lemma form_msg_formed: "formed_msg h c\<lparr>body := (body (formed_msg h c))\<lparr>content := c\<rparr>\<rparr> = formed_msg h c"
  by (simp add: formed_msg_def)

lemma wf_formed_msg:
  assumes "unat clen < 65536" "length c = unat clen"
  shows "wf_msg (formed_msg (form_head r s d ct dt n clen) c)"
  using assms form_head_lengths [OF assms(1), of r s d ct dt n]
  by (simp add: wf_msg_def formed_msg_def unat_hparity_length unat_of_nat64)

subsection \<open>Verification\<close>

lemma header_alert_None_iff:
  "header_alert h t = None \<longleftrightarrow> t\<lparr>mbz := mbz h\<rparr> = (h :: msg_header_t)"
  by (cases h; cases t) (auto simp: header_alert_def)

lemma length_alert_None_iff:
  "length_alert h = None \<longleftrightarrow>
     unat (totalLength h) = 144 + unat (contentLength h) + (unat (contentLength h) + 31) div 32
   \<and> totalLength h = bodyLength h + 112
   \<and> unat (parityLength h) = 32 + (unat (contentLength h) + 31) div 32"
proof -
  have t: "ucast (totalLength h) = calculate_total_length (ucast (contentLength h)) \<longleftrightarrow>
     unat (totalLength h) = 144 + unat (contentLength h) + (unat (contentLength h) + 31) div 32"
    by (simp add: word_unat_eq_iff unat_total_length add.assoc)
  have p: "ucast (parityLength h) = calculate_parity_length (ucast (contentLength h)) \<longleftrightarrow>
     unat (parityLength h) = 32 + (unat (contentLength h) + 31) div 32"
    by (simp add: word_unat_eq_iff unat_parity_length)
  have b: "ucast (calculate_header_length + ucast (bodyLength h) + calculate_trailer_length) = bodyLength h + 112"
    by (simp add: calculate_header_length_def calculate_trailer_length_def sizeof_msg_header_def
        word_unat_eq_iff unsigned_ucast_eq unat_word_ariths take_bit_nat_def mod_mod_cancel)
      (simp only: add.commute)
  show ?thesis
    unfolding length_alert_def t p b by simp
qed

lemma verify_msg_eq:
  assumes "length (content (body m)) = unat (contentLength (head m))" "length (vparityData (body m)) = 4"
    "length_alert (head m) = None \<longrightarrow> length (hparityData (body m)) = (unat (contentLength (head m)) + 31) div 32"
  shows "verify_msg m = Inr (header_alert (head m) (trail m) = None \<and> length_alert (head m) = None
         \<and> check_vparity (content (body m)) (vparityData (body m))
         \<and> check_hparity (content (body m)) (hparityData (body m)) = Inr True \<and> crc (head m) = 0)"
proof -
  have rd: "mem_read 0 (unat (contentLength (head m))) (content (body m)) = Inr (content (body m))"
    using assms by (simp add: mem_read_def)
  have "num_words (content (body m)) = (unat (contentLength (head m)) + 3) div 4"
    using assms(1) unat32_bound [of "contentLength (head m)"] by simp
  moreover have "(n + 3) div 4 \<le> 8 * ((n + 31) div 32)" for n :: nat
    by simp
  ultimately have hp: "\<exists>ok. check_hparity (content (body m)) (hparityData (body m)) = Inr ok"
    if "length_alert (head m) = None"
    using assms(3) that by (simp add: check_hparity_def)
  show ?thesis
    using rd hp assms(2)
    by (auto simp: verify_msg_def verify_msg_alert_def parity_alert_def split: option.split)
qed

lemma layout_verify_msg:
  assumes "layout_ok m"
  shows "verify_msg m = Inr (header_alert (head m) (trail m) = None \<and> length_alert (head m) = None
         \<and> check_vparity (content (body m)) (vparityData (body m))
         \<and> check_hparity (content (body m)) (hparityData (body m)) = Inr True \<and> crc (head m) = 0)"
  using assms by (intro verify_msg_eq) (auto simp: layout_ok_def length_alert_None_iff)

lemma formed_alerts:
  assumes "unat clen < 65536"
  shows "length_alert (form_head r s d ct dt n clen) = None"
proof -
  let ?h = "form_head r s d ct dt n clen"
  have "unat (totalLength ?h) = unat (bodyLength ?h + 112)"
  proof -
    have "unat (bodyLength ?h) + 112 < 2 ^ 32"
      using assms by (simp add: form_head_lengths)
    then have "unat (bodyLength ?h + 112) = unat (bodyLength ?h) + 112"
      by (simp add: unat_word_ariths)
    then show ?thesis
      using assms by (simp add: form_head_lengths)
  qed
  then show ?thesis
    using assms by (simp add: length_alert_None_iff form_head_lengths word_unat_eq_iff)
qed

lemma formed_with_content:
  assumes "unat clen < 65536" "length c = unat clen" "length c' = unat clen"
    and m_def: "m = formed_msg (form_head r s d ct dt n clen) c"
  shows "verify_msg (m\<lparr>body := (body m)\<lparr>content := c'\<rparr>\<rparr>) =
     Inr (check_vparity c' (compute_vparity c) \<and> check_hparity c' (compute_hparity c) = Inr True)"
proof -
  have "layout_ok m"
    unfolding m_def by (intro wf_msg_layout wf_formed_msg assms)
  then have "layout_ok (m\<lparr>body := (body m)\<lparr>content := c'\<rparr>\<rparr>)"
    using assms(2,3) by (simp add: layout_ok_def m_def formed_msg_def)
  moreover have "header_alert (head m) (trail m) = None" "crc (head m) = 0"
    by (simp_all add: m_def formed_msg_def header_alert_None_iff form_head_def)
  moreover have "length_alert (head m) = None"
    by (simp add: m_def formed_msg_def formed_alerts [OF assms(1)])
  ultimately show ?thesis
    by (subst layout_verify_msg) (simp_all add: m_def formed_msg_def)
qed

subsection \<open>One corrupted byte in a header\<close>

lemma header_wire_fields:
  "totalLength hdr = be_fold (take 4 (drop 8 (header_wire hdr)))"
  "contentLength hdr = be_fold (take 4 (drop 16 (header_wire hdr)))"
  by (simp_all add: header_wire_def take_drop_pieces)

lemma take_drop_update:
  "j < off \<or> off + n \<le> j \<Longrightarrow> take n (drop off (xs[j := x])) = take n (drop off xs)"
  by (cases "j < off") (simp_all add: drop_update_swap)

lemma header_wire_byte:
  assumes "header_wire hdr' = (header_wire hdr)[j := x]"
  shows "totalLength hdr' = totalLength hdr \<or> contentLength hdr' = contentLength hdr"
proof (cases "j < 12")
  case True
  then have "contentLength hdr' = contentLength hdr"
    by (simp add: header_wire_fields assms take_drop_update)
  then show ?thesis ..
next
  case False
  then have "totalLength hdr' = totalLength hdr"
    by (simp add: header_wire_fields assms take_drop_update)
  then show ?thesis ..
qed

text \<open>Two messages with the same layout whose wire images agree up to some bytes parse piecewise.\<close>

lemma wire_pieces:
  "header_wire h1 @ c1 @ v1 @ p1 @ t1 = header_wire h2 @ c2 @ v2 @ p2 @ t2 \<Longrightarrow>
   length c1 = length c2 \<Longrightarrow> length v1 = length v2 \<Longrightarrow> length p1 = length p2 \<Longrightarrow>
   header_wire h1 = header_wire h2 \<and> c1 = c2 \<and> v1 = v2 \<and> p1 = p2 \<and> t1 = t2"
  by simp

lemma header_wire_inj: "header_wire h1 = header_wire h2 \<Longrightarrow> h1 = h2"
  using msg_ht_from_bytes_wire [of Little_Host h1 "[]"] msg_ht_from_bytes_wire [of Little_Host h2 "[]"]
  by simp

lemma verify_True_facts:
  assumes "layout_ok m" "verify_msg m = Inr True"
  shows "(trail m)\<lparr>mbz := mbz (head m)\<rparr> = head m"
    and "unat (totalLength (head m)) = 144 + unat (contentLength (head m)) + (unat (contentLength (head m)) + 31) div 32"
    and "unat (parityLength (head m)) = 32 + (unat (contentLength (head m)) + 31) div 32"
    and "check_hparity (content (body m)) (hparityData (body m)) = Inr True"
  using assms(2) unfolding layout_verify_msg [OF assms(1)]
  by (auto simp: header_alert_None_iff length_alert_None_iff)

lemma total_length_inj:
  "(144 :: nat) + a + (a + 31) div 32 = 144 + b + (b + 31) div 32 \<Longrightarrow> a = b"
proof (induction a b rule: linorder_wlog)
  case (le a b)
  then have "(a + 31) div 32 \<le> (b + 31) div 32"
    by (simp add: div_le_mono)
  then show ?case
    using le by simp
qed simp

lemma list_update_append_cases:
  "(xs @ ys)[j := x] = (if j < length xs then xs[j := x] @ ys else xs @ ys[j - length xs := x])"
  by (simp add: list_update_append)

text \<open>
  A corrupted byte in the header: if the result still verifies, the header is intact but for its unused field.
\<close>

lemma header_corruption_harmless:
  assumes m: "layout_ok m" "verify_msg m = Inr True" and m': "layout_ok m'" "verify_msg m' = Inr True"
    and w: "msg_wire m' @ extra = (header_wire (head m))[j := x] @ drop 56 (msg_wire m)" and j: "j < 56"
  shows "(head m')\<lparr>mbz := mbz (head m)\<rparr> = head m \<and> content (body m') = content (body m)"
proof -
  have hw: "header_wire (head m') = (header_wire (head m))[j := x]"
    using w by (simp add: msg_wire_def)
  have cl: "contentLength (head m') = contentLength (head m)"
    using header_wire_byte [OF hw] verify_True_facts(2) [OF m] verify_True_facts(2) [OF m']
    by (auto simp: word_unat_eq_iff intro: total_length_inj)
  have pl: "parityLength (head m') = parityLength (head m)"
    using verify_True_facts(3) [OF m] verify_True_facts(3) [OF m'] cl by (simp add: word_unat_eq_iff)
  have "header_wire (head m) @ content (body m') @ concat (map be_bytes (vparityData (body m')))
      @ hparityData (body m') @ header_wire (trail m') @ extra = msg_wire m"
  proof -
    have "header_wire (head m) @ drop 56 (msg_wire m' @ extra) = header_wire (head m) @ drop 56 (msg_wire m)"
      by (subst w) simp
    also have "\<dots> = msg_wire m"
      by (simp add: msg_wire_def)
    finally show ?thesis
      by (simp add: msg_wire_def)
  qed
  moreover have "length (content (body m')) = length (content (body m))"
    "length (concat (map be_bytes (vparityData (body m')))) = length (concat (map be_bytes (vparityData (body m))))"
    "length (hparityData (body m')) = length (hparityData (body m))"
    using m(1) m'(1) cl pl by (simp_all add: layout_ok_def)
  ultimately have "content (body m') = content (body m)" "header_wire (trail m') @ extra = header_wire (trail m) @ []"
    unfolding msg_wire_def by (auto dest!: wire_pieces)
  moreover have "take 56 (header_wire (trail m') @ extra) = header_wire (trail m')" "take 56 (header_wire (trail m) @ []) = header_wire (trail m)"
    by simp_all
  ultimately have "content (body m') = content (body m)" "trail m' = trail m"
    by (auto intro: header_wire_inj)
  moreover have "(head m')\<lparr>mbz := mbz (head m)\<rparr> = head m"
    using verify_True_facts(1) [OF m] verify_True_facts(1) [OF m'] calculation(2)
    by (cases "head m"; cases "head m'"; cases "trail m") simp
  ultimately show ?thesis
    by simp
qed

lemma wire_unique:
  "layout_ok m \<Longrightarrow> layout_ok m' \<Longrightarrow> msg_wire m' @ extra = msg_wire m \<Longrightarrow> m' = m"
  using msg_from_bytes_Some_iff [of Little_Host "msg_wire m" m] msg_from_bytes_Some_iff [of Little_Host "msg_wire m" m']
  by (metis append_Nil2 option.inject)

lemma formed_verifies:
  assumes "unat clen < 65536" "length c = unat clen"
  shows "verify_msg (formed_msg (form_head r s d ct dt n clen) c) = Inr True"
proof -
  have "length c < 2 ^ 64" using assms by simp
  then show ?thesis
    using formed_with_content [OF assms(1) assms(2) assms(2) refl, of r s d ct dt n]
      check_compute_vparity [of c c] check_compute_hparity [of c c]
    by (simp add: form_msg_formed)
qed

lemma wire_prefix_unique:
  "layout_ok m' \<Longrightarrow> bs = msg_wire m' @ extra \<Longrightarrow> layout_ok m1 \<Longrightarrow> bs = msg_wire m1 \<Longrightarrow> m' = m1"
  using wire_unique by metis

lemma corruption_cases:
  assumes "layout_ok m" "j < length (msg_wire m)"
  obtains (header) "j < 56" "(msg_wire m)[j := x] = (header_wire (head m))[j := x] @ drop 56 (msg_wire m)"
  | (cont) i where "i = j - 56" "i < length (content (body m))" "j = 56 + i"
      "(msg_wire m)[j := x] = msg_wire (m\<lparr>body := (body m)\<lparr>content := (content (body m))[i := x]\<rparr>\<rparr>)"
  | (rest) vp hp tr where "(msg_wire m)[j := x] = msg_wire (m\<lparr>body := (body m)\<lparr>vparityData := vp, hparityData := hp\<rparr>, trail := tr\<rparr>)"
      "length vp = 4" "length hp = length (hparityData (body m))"
proof -
  let ?c = "content (body m)" and ?V = "concat (map be_bytes (vparityData (body m)))" and ?P = "hparityData (body m)"
  have vl: "length ?V = 32"
    using assms(1) by (simp add: layout_ok_def)
  consider (a) "j < 56" | (b) "56 \<le> j" "j < 56 + length ?c" | (c) "56 + length ?c \<le> j"
    by linarith
  then show thesis
  proof cases
    case a
    then show thesis
      by (intro header) (simp_all add: msg_wire_def list_update_append)
  next
    case b
    then show thesis
      by (intro cont [of "j - 56"]) (auto simp: msg_wire_def list_update_append)
  next
    case c
    define R where "R = (?V @ ?P @ header_wire (trail m))[j - 56 - length ?c := x]"
    have nj: "\<not> j < 56" "\<not> j - 56 < length ?c"
      using c by auto
    have R: "(msg_wire m)[j := x] = header_wire (head m) @ ?c @ R" "length R = 32 + (length ?P + 56)"
      using c nj by (simp_all add: R_def msg_wire_def list_update_append_cases vl)
    obtain tr where tr: "header_wire tr = drop (32 + length ?P) R"
      using header_wire_surj [of "drop (32 + length ?P) R"] R(2) by auto
    let ?vp = "map (\<lambda>i. ntoh64 Little_Host (field Little_Host (8 * i) 8 (take 32 R))) [0..<4]"
    have "R = take 32 R @ take (length ?P) (drop 32 R) @ drop (32 + length ?P) R"
      by (metis append_take_drop_id drop_drop add.commute)
    then have "R = concat (map be_bytes ?vp) @ take (length ?P) (drop 32 R) @ header_wire tr"
      using vparity_to_wire [of "take 32 R" Little_Host] R(2) by (simp add: tr)
    then show thesis
      using R by (intro rest [where vp = ?vp and hp = "take (length ?P) (drop 32 R)" and tr = tr]) (simp_all add: msg_wire_def)
  qed
qed

subsection \<open>Properties\<close>

text \<open>
  C9. A message travels intact between any two hosts: \<^verbatim>\<open>form_msg\<close> succeeds on a content below the size
  limit, its bytes are written without leaving the buffer and without a failed assertion, \<^verbatim>\<open>msg_from_bytes\<close> on a
  host of either byte order returns the same message, also when further bytes follow, and it passes \<^verbatim>\<open>verify_msg\<close>.
\<close>

theorem msg_roundtrip:
  assumes "unat clen \<le> length src" "unat clen < 65536"
  shows "\<exists>m bs. form_msg r s d ct dt n src clen = Inr m \<and> msg_to_bytes h1 m = Inr bs
     \<and> length bs = unat (calculate_total_length (ucast clen))
     \<and> msg_from_bytes h2 (bs @ extra) = Some m \<and> verify_msg m = Inr True
     \<and> content (body m) = take (unat clen) src"
proof -
  let ?c = "take (unat clen) src"
  let ?m = "formed_msg (form_head r s d ct dt n clen) ?c"
  have c: "length ?c = unat clen" using assms by simp
  have wf: "wf_msg ?m" by (rule wf_formed_msg [OF assms(2) c])
  have "verify_msg ?m = Inr True"
    by (rule formed_verifies [OF assms(2) c])
  moreover have "length (msg_wire ?m) = unat (calculate_total_length (ucast clen))"
    by (simp add: length_msg_wire [OF wf] unat_total_length) (simp add: formed_msg_def)
  ultimately show ?thesis
    using form_msg_eq [OF assms] msg_to_bytes_wire [OF wf] msg_from_bytes_Some_iff [of h2 "msg_wire ?m @ extra" ?m]
      wf_msg_layout [OF wf] by (auto simp: formed_msg_def)
qed

theorem msg_roundtrip_witness:
  "\<exists>m bs. form_msg 7 1 2 0 0 5 [65, 66, 0] 3 = Inr m \<and> msg_to_bytes Little_Host m = Inr bs
     \<and> length bs = unat (calculate_total_length (ucast (3 :: uint32)))
     \<and> msg_from_bytes Big_Host (bs @ [9]) = Some m \<and> verify_msg m = Inr True
     \<and> content (body m) = take (unat (3 :: uint32)) [65, 66, 0]"
  by (rule msg_roundtrip) simp_all

text \<open>
  C18. The parser, exactly: \<^verbatim>\<open>msg_from_bytes\<close> returns a message if and only if the bytes start with the wire image of
  that message and the announced lengths are those of its parts, with fewer than 65536 content bytes. In
  particular the result does not depend on the byte order of the host, and no truncated message is accepted.
\<close>

theorem msg_from_bytes_exact:
  "msg_from_bytes h src = Some m \<longleftrightarrow> layout_ok m \<and> take (length (msg_wire m)) src = msg_wire m"
proof -
  have "(\<exists>extra. src = msg_wire m @ extra) \<longleftrightarrow> take (length (msg_wire m)) src = msg_wire m"
    by (metis append_eq_conv_conj append_take_drop_id)
  then show ?thesis
    by (simp add: msg_from_bytes_Some_iff)
qed

text \<open>
  C11. Verification of a message received from the network never reads outside the message's arrays, whatever the
  bytes were, and accepts exactly when header and trailer agree in every field but \<^verbatim>\<open>mbz\<close>, the three
  length equations hold, both parities match and the CRC field is 0.
\<close>

theorem verify_parsed_msg:
  assumes "msg_from_bytes h src = Some m"
  shows "verify_msg m = Inr (
       (trail m)\<lparr>mbz := mbz (head m)\<rparr> = head m
     \<and> unat (totalLength (head m)) = 144 + unat (contentLength (head m)) + (unat (contentLength (head m)) + 31) div 32
     \<and> totalLength (head m) = bodyLength (head m) + 112
     \<and> unat (parityLength (head m)) = 32 + (unat (contentLength (head m)) + 31) div 32
     \<and> check_vparity (content (body m)) (vparityData (body m))
     \<and> check_hparity (content (body m)) (hparityData (body m)) = Inr True
     \<and> crc (head m) = 0)"
proof -
  have "layout_ok m"
    using assms by (simp add: msg_from_bytes_Some_iff)
  then show ?thesis
    by (simp add: layout_verify_msg header_alert_None_iff length_alert_None_iff conj_assoc)
qed

theorem verify_parsed_msg_witness:
  "verify_msg sample_msg = Inr (
       (trail sample_msg)\<lparr>mbz := mbz (head sample_msg)\<rparr> = head sample_msg
     \<and> unat (totalLength (head sample_msg)) = 144 + unat (contentLength (head sample_msg)) + (unat (contentLength (head sample_msg)) + 31) div 32
     \<and> totalLength (head sample_msg) = bodyLength (head sample_msg) + 112
     \<and> unat (parityLength (head sample_msg)) = 32 + (unat (contentLength (head sample_msg)) + 31) div 32
     \<and> check_vparity (content (body sample_msg)) (vparityData (body sample_msg))
     \<and> check_hparity (content (body sample_msg)) (hparityData (body sample_msg)) = Inr True
     \<and> crc (head sample_msg) = 0)"
proof (rule verify_parsed_msg)
  have "layout_ok sample_msg"
    unfolding sample_msg_def by (intro wf_msg_layout wf_formed_msg) simp_all
  then show "msg_from_bytes Little_Host (msg_wire sample_msg) = Some sample_msg"
    by (simp add: msg_from_bytes_Some_iff)
qed

text \<open>
  C19. What the parities detect in a received message, exactly: when only the content was changed, to one of the same
  length, verification accepts if and only if all 32-bit words and the 32 sampled columns have kept their parity.
\<close>

theorem verify_changed_content:
  assumes "unat clen \<le> length src" "unat clen < 65536" "length c' = unat clen"
    and "form_msg r s d ct dt n src clen = Inr m"
  shows "verify_msg (m\<lparr>body := (body m)\<lparr>content := c'\<rparr>\<rparr>) =
     Inr ((\<forall>i<256. even (vparity_total c' i) = even (vparity_total (content (body m)) i))
        \<and> (\<forall>i<(unat clen + 3) div 4. even (hparity_total c' i) = even (hparity_total (content (body m)) i)))"
proof -
  let ?c = "take (unat clen) src"
  have c: "length ?c = unat clen" using assms by simp
  have m: "m = formed_msg (form_head r s d ct dt n clen) ?c" "content (body m) = ?c"
    using assms(4) form_msg_eq [OF assms(1,2), of r s d ct dt n] by (auto simp: formed_msg_def)
  have l: "length ?c < 2 ^ 64"
    using c assms(2) by simp
  show ?thesis
    using formed_with_content [OF assms(2) c assms(3) m(1)] check_compute_vparity [of c' ?c]
      check_compute_hparity [OF l, of c'] num_words_eq [OF l] c assms(3) by (simp add: m(2))
qed

theorem verify_changed_content_witness:
  "verify_msg (sample_msg\<lparr>body := (body sample_msg)\<lparr>content := [66, 65, 0]\<rparr>\<rparr>) =
     Inr ((\<forall>i<256. even (vparity_total [66, 65, 0] i) = even (vparity_total (content (body sample_msg)) i))
        \<and> (\<forall>i<(unat (3 :: uint32) + 3) div 4. even (hparity_total [66, 65, 0] i)
             = even (hparity_total (content (body sample_msg)) i)))"
proof (rule verify_changed_content [where src = "[65, 66, 0]"])
  show "form_msg 7 1 2 0 0 5 [65, 66, 0] 3 = Inr sample_msg"
    using form_msg_eq [of 3 "[65, 66, 0]" 7 1 2 0 0 5] by (simp add: sample_msg_def)
qed simp_all

text \<open>
  C1. Integrity against one corrupted bit anywhere in a transmitted message: if the receiver still parses and
  verifies the bytes, then the content and every header field except \<^verbatim>\<open>mbz\<close> are those that were sent. The field
  \<^verbatim>\<open>mbz\<close> is not protected: \<^verbatim>\<open>message.h\<close> says that it must be zero, but no check looks at it, and a message in which one of its bits
  was flipped is accepted with that bit.
\<close>

theorem single_bit_integrity:
  assumes "unat clen \<le> length src" "unat clen < 65536" "form_msg r s d ct dt n src clen = Inr m"
    and "msg_to_bytes h1 m = Inr bs" "j < length bs" "k < 8"
    and "msg_from_bytes h2 (bs[j := flip_bit k (bs ! j)]) = Some m'" "verify_msg m' = Inr True"
  shows "content (body m') = take (unat clen) src \<and> (head m')\<lparr>mbz := mbz (head m)\<rparr> = head m"
proof -
  let ?c = "take (unat clen) src" and ?x = "flip_bit k (bs ! j)"
  have c: "length ?c = unat clen" using assms by simp
  have m: "m = formed_msg (form_head r s d ct dt n clen) ?c" "content (body m) = ?c"
    using assms(3) form_msg_eq [OF assms(1,2), of r s d ct dt n] by (auto simp: formed_msg_def)
  have wf: "wf_msg m" using wf_formed_msg [OF assms(2) c] m(1) by simp
  have lay: "layout_ok m" using wf by (rule wf_msg_layout)
  have bs: "bs = msg_wire m" using assms(4) msg_to_bytes_wire [OF wf] by simp
  have ver: "verify_msg m = Inr True"
    unfolding m(1) by (rule formed_verifies [OF assms(2) c])
  obtain extra where lay': "layout_ok m'" and w: "(msg_wire m)[j := ?x] = msg_wire m' @ extra"
    using assms(7) by (auto simp: msg_from_bytes_Some_iff bs)
  note same = wire_prefix_unique [OF lay' w]
  show ?thesis
  proof (cases rule: corruption_cases [OF lay assms(5) [unfolded bs], of ?x, case_names header cont rest])
    case header
    then show ?thesis
      using header_corruption_harmless [OF lay ver lay' assms(8), of extra j ?x] w m(2) by simp
  next
    case (cont i)
    let ?c' = "?c[i := ?x]"
    have x: "?x = flip_bit k (?c ! i)"
      using cont by (simp add: bs msg_wire_def nth_append m(2))
    have "m' = m\<lparr>body := (body m)\<lparr>content := ?c'\<rparr>\<rparr>"
      using lay cont(4) by (intro same) (simp_all add: layout_ok_def m(2))
    then have "check_hparity ?c' (compute_hparity ?c) = Inr True"
      using formed_with_content [OF assms(2) c _ m(1), of ?c'] assms(8) c by simp
    moreover have "check_hparity ?c' (compute_hparity ?c) = Inr False"
      unfolding x using cont assms(2,6) c by (intro check_hparity_flip) (simp_all add: m(2))
    ultimately show ?thesis
      by simp
  next
    case (rest vp hp tr)
    have "m' = m\<lparr>body := (body m)\<lparr>vparityData := vp, hparityData := hp\<rparr>, trail := tr\<rparr>"
      using lay rest by (intro same) (simp_all add: layout_ok_def)
    then show ?thesis
      using m(2) by simp
  qed
qed

lemma verify_ignores_mbz: "verify_msg (m\<lparr>head := (head m)\<lparr>mbz := z\<rparr>\<rparr>) = verify_msg m"
  by (simp add: verify_msg_def verify_msg_alert_def header_alert_def length_alert_def parity_alert_def)

theorem single_bit_integrity_witness:
  "content (body (sample_msg\<lparr>head := (head sample_msg)\<lparr>mbz := 256\<rparr>\<rparr>)) = take (unat (3 :: uint32)) [65, 66, 0]
   \<and> (head (sample_msg\<lparr>head := (head sample_msg)\<lparr>mbz := 256\<rparr>\<rparr>))\<lparr>mbz := mbz (head sample_msg)\<rparr> = head sample_msg"
proof (rule single_bit_integrity [where j = 0 and k = 0 and bs = "msg_wire sample_msg" and src = "[65, 66, 0]"])
  let ?m' = "sample_msg\<lparr>head := (head sample_msg)\<lparr>mbz := 256\<rparr>\<rparr>"
  have wf: "wf_msg sample_msg"
    unfolding sample_msg_def by (intro wf_formed_msg) simp_all
  show "form_msg 7 1 2 0 0 5 [65, 66, 0] 3 = Inr sample_msg"
    using form_msg_eq [of 3 "[65, 66, 0]" 7 1 2 0 0 5] by (simp add: sample_msg_def)
  show "msg_to_bytes Little_Host sample_msg = Inr (msg_wire sample_msg)"
    by (rule msg_to_bytes_wire [OF wf])
  have "layout_ok ?m'"
    using wf_msg_layout [OF wf] by (simp add: layout_ok_def)
  moreover have "(msg_wire sample_msg)[0 := flip_bit 0 (msg_wire sample_msg ! 0)] = msg_wire ?m'"
    by (simp add: msg_wire_def header_wire_def sample_msg_def formed_msg_def form_head_def be_bytes_def le_bytes_def
        upt_rec flip_bit_eq_xor)
  ultimately show "msg_from_bytes Big_Host ((msg_wire sample_msg)[0 := flip_bit 0 (msg_wire sample_msg ! 0)]) = Some ?m'"
    by (simp add: msg_from_bytes_Some_iff)
  show "verify_msg ?m' = Inr True"
    unfolding verify_ignores_mbz unfolding sample_msg_def by (rule formed_verifies) simp_all
  show "0 < length (msg_wire sample_msg)"
    by (simp add: length_msg_wire [OF wf])
qed simp_all

end
