(* ===== verification/Socket_IO.thy ===== *)
theory Socket_IO
  imports HipFT_Prelude
begin

text \<open>
  \<^verbatim>\<open>src/justin-snapshot/src/socket_help.c\<close>: reading and writing exactly \<open>n\<close> bytes, each under its own
  process-wide mutex. What the operating system will answer is an argument: the list of what successive
  \<^verbatim>\<open>read\<close> calls find on the descriptor, and of what successive \<^verbatim>\<open>write\<close> calls accept. A \<^verbatim>\<open>read\<close> of \<open>k\<close> bytes takes at
  most \<open>k\<close> bytes of the pending data and leaves the rest pending. When the list is used up the call blocks
  for ever; the result is then \<open>Diverges\<close>. Locking a mutex that is held and will not be released is
  \<open>Deadlock\<close>.
\<close>

datatype read_event = Data_In bytes | End_Of_File | Read_Interrupted | Read_Failed

datatype write_event = Accept nat | Write_Interrupted | Write_Failed

record io_state =
  recv_mutex :: bool
  send_mutex :: bool

definition io_init :: io_state where
  "io_init = \<lparr>recv_mutex = False, send_mutex = False\<rparr>"

text \<open>
  The loop of \<^verbatim>\<open>readn\<close> with the bytes read so far. The result holds the return value (\<open>None\<close> is -1), whether the
  loop ran to its end, the buffer and the answers not yet used.
\<close>

function readn_loop ::
    "nat \<Rightarrow> bytes \<Rightarrow> read_event list \<Rightarrow> (nat option \<times> bool \<times> bytes \<times> read_event list) c_result" where
  "readn_loop n buf evs =
     (if length buf < n then
        (case evs of
           [] \<Rightarrow> Inl Diverges
         | End_Of_File # evs \<Rightarrow> Inr (Some (length buf), False, buf, evs)
         | Read_Failed # evs \<Rightarrow> Inr (None, False, buf, evs)
         | Read_Interrupted # evs \<Rightarrow> readn_loop n buf evs
         | Data_In bs # evs \<Rightarrow>
             (if bs = [] then Inr (Some (length buf), False, buf, evs)
              else if length bs \<le> n - length buf then readn_loop n (buf @ bs) evs
              else readn_loop n (buf @ take (n - length buf) bs) (Data_In (drop (n - length buf) bs) # evs)))
      else Inr (Some (length buf), True, buf, evs))"
  by pat_completeness auto
termination by (relation "measure (\<lambda>(n, buf, evs). (n - length buf) + length evs)") auto

definition readn ::
    "io_state \<Rightarrow> nat \<Rightarrow> read_event list \<Rightarrow> (io_state \<times> nat option \<times> bytes \<times> read_event list) c_result" where
  "readn io n evs =
     c_bind (c_guard (\<not> recv_mutex io) Deadlock) (\<lambda>_.
     c_bind (readn_loop n [] evs) (\<lambda>(ret, finished, buf, evs).
     Inr (io\<lparr>recv_mutex := \<not> finished\<rparr>, ret, buf, evs)))"

text \<open>The loop of \<^verbatim>\<open>writen\<close>, with the number of bytes written; the bytes go to \<open>out\<close>.\<close>

function writen_loop ::
    "bytes \<Rightarrow> nat \<Rightarrow> bytes \<Rightarrow> write_event list \<Rightarrow> (nat option \<times> bool \<times> bytes \<times> write_event list) c_result" where
  "writen_loop buf tot out evs =
     (if tot < length buf then
        (case evs of
           [] \<Rightarrow> Inl Diverges
         | Write_Failed # evs \<Rightarrow> Inr (None, False, out, evs)
         | Write_Interrupted # evs \<Rightarrow> writen_loop buf tot out evs
         | Accept k # evs \<Rightarrow>
             (if k = 0 then Inr (None, False, out, evs)
              else (let k = min k (length buf - tot)
                    in writen_loop buf (tot + k) (out @ take k (drop tot buf)) evs)))
      else Inr (Some tot, True, out, evs))"
  by pat_completeness auto
termination by (relation "measure (\<lambda>(buf, tot, out, evs). length evs)") auto

definition writen ::
    "io_state \<Rightarrow> bytes \<Rightarrow> write_event list \<Rightarrow> (io_state \<times> nat option \<times> bytes \<times> write_event list) c_result" where
  "writen io buf evs =
     c_bind (c_guard (\<not> send_mutex io) Deadlock) (\<lambda>_.
     c_bind (writen_loop buf 0 [] evs) (\<lambda>(ret, finished, out, evs).
     Inr (io\<lparr>send_mutex := \<not> finished\<rparr>, ret, out, evs)))"

text \<open>The bytes that are pending on the descriptor up to its end or a failure.\<close>

fun pending :: "read_event list \<Rightarrow> bytes" where
  "pending (Data_In bs # evs) = (if bs = [] then [] else bs @ pending evs)"
| "pending (Read_Interrupted # evs) = pending evs"
| "pending _ = []"

text \<open>How many bytes the descriptor will accept before a failure.\<close>

fun accepted :: "write_event list \<Rightarrow> nat" where
  "accepted (Accept k # evs) = (if k = 0 then 0 else k + accepted evs)"
| "accepted (Write_Interrupted # evs) = accepted evs"
| "accepted _ = 0"

text \<open>How many times the descriptor will accept at least one byte before a failure.\<close>

fun grants :: "write_event list \<Rightarrow> nat" where
  "grants (Accept k # evs) = (if k = 0 then 0 else Suc (grants evs))"
| "grants (Write_Interrupted # evs) = grants evs"
| "grants _ = 0"

declare readn_loop.simps [simp del] writen_loop.simps [simp del]

subsection \<open>Reading\<close>

lemma readn_loop_complete:
  "length buf + length (pending evs) \<ge> n \<Longrightarrow> length buf \<le> n \<Longrightarrow>
   \<exists>evs'. readn_loop n buf evs = Inr (Some n, True, take n (buf @ pending evs), evs')
     \<and> pending evs' = drop (n - length buf) (pending evs)"
proof (induction n buf evs rule: readn_loop.induct)
  case (1 n buf evs)
  show ?case
  proof (cases "length buf < n")
    case False
    then show ?thesis
      using 1 by (simp add: readn_loop.simps)
  next
    case True
    show ?thesis
    proof (cases evs)
      case (Cons e es)
      show ?thesis
      proof (cases e)
        case (Data_In bs)
        show ?thesis
        proof (cases "length bs \<le> n - length buf")
          case le: True
          then show ?thesis
            using 1 True by (subst readn_loop.simps) (auto simp: Cons Data_In)
        next
          case False
          define k where "k = n - length buf"
          have "readn_loop n buf evs = readn_loop n (buf @ take k bs) (Data_In (drop k bs) # es)"
            using True False by (subst readn_loop.simps) (auto simp: Cons Data_In k_def)
          also have "\<dots> = Inr (Some n, True, buf @ take k bs, Data_In (drop k bs) # es)"
            using True False by (subst readn_loop.simps) (simp add: k_def)
          finally show ?thesis
            using True False by (auto simp: Cons Data_In k_def)
        qed
      qed (use 1 True in \<open>auto simp: Cons readn_loop.simps [of n buf "Read_Interrupted # es"]\<close>)
    qed (use 1 True in simp)
  qed
qed

lemma readn_loop_short:
  "length buf + length (pending evs) < n \<Longrightarrow>
   (\<exists>ret evs'. readn_loop n buf evs = Inr (ret, False, buf @ pending evs, evs')
      \<and> (ret = Some (length buf + length (pending evs)) \<or> ret = None))
   \<or> readn_loop n buf evs = Inl Diverges"
proof (induction n buf evs rule: readn_loop.induct)
  case (1 n buf evs)
  then show ?case
    by (subst (1 2) readn_loop.simps) (auto split: list.split read_event.split if_splits)
qed

subsection \<open>Writing\<close>

lemma writen_loop_complete:
  "tot + accepted evs \<ge> length buf \<Longrightarrow> tot \<le> length buf \<Longrightarrow>
   \<exists>evs'. writen_loop buf tot out evs = Inr (Some (length buf), True, out @ drop tot buf, evs')"
proof (induction buf tot out evs rule: writen_loop.induct)
  case (1 buf tot out evs)
  show ?case
  proof (cases "tot < length buf")
    case False
    then show ?thesis
      using 1 by (simp add: writen_loop.simps)
  next
    case True
    show ?thesis
    proof (cases evs)
      case (Cons e es)
      show ?thesis
      proof (cases e)
        case (Accept k)
        let ?k = "min k (length buf - tot)"
        have k: "k \<noteq> 0"
          using 1(3) True by (auto simp: Cons Accept split: if_splits)
        then have step: "writen_loop buf tot out evs = writen_loop buf (tot + ?k) (out @ take ?k (drop tot buf)) es"
          using True by (subst writen_loop.simps) (simp add: Cons Accept Let_def)
        have "\<exists>evs'. writen_loop buf (tot + ?k) (out @ take ?k (drop tot buf)) es =
            Inr (Some (length buf), True, (out @ take ?k (drop tot buf)) @ drop (tot + ?k) buf, evs')"
          using 1(1) [OF True Cons Accept k refl] 1(3,4) True k by (simp add: Cons Accept)
        moreover have "take ?k (drop tot buf) @ drop (tot + ?k) buf = drop tot buf"
          by (metis add.commute append_take_drop_id drop_drop)
        ultimately show ?thesis
          using step by simp
      qed (use 1 True in \<open>auto simp: Cons writen_loop.simps [of buf tot out "Write_Interrupted # es"]\<close>)
    qed (use 1 True in simp)
  qed
qed

lemma writen_loop_grants:
  "tot + grants evs \<ge> length buf \<Longrightarrow> tot \<le> length buf \<Longrightarrow>
   \<exists>evs'. writen_loop buf tot out evs = Inr (Some (length buf), True, out @ drop tot buf, evs')
     \<and> grants evs \<le> grants evs' + (length buf - tot)"
proof (induction buf tot out evs rule: writen_loop.induct)
  case (1 buf tot out evs)
  show ?case
  proof (cases "tot < length buf")
    case False
    then show ?thesis
      using 1 by (simp add: writen_loop.simps)
  next
    case True
    show ?thesis
    proof (cases evs)
      case (Cons e es)
      show ?thesis
      proof (cases e)
        case (Accept k)
        let ?k = "min k (length buf - tot)"
        have k: "k \<noteq> 0"
          using 1(3) True by (auto simp: Cons Accept split: if_splits)
        then have step: "writen_loop buf tot out evs = writen_loop buf (tot + ?k) (out @ take ?k (drop tot buf)) es"
          using True by (subst writen_loop.simps) (simp add: Cons Accept Let_def)
        have "\<exists>evs'. writen_loop buf (tot + ?k) (out @ take ?k (drop tot buf)) es =
            Inr (Some (length buf), True, (out @ take ?k (drop tot buf)) @ drop (tot + ?k) buf, evs')
            \<and> grants es \<le> grants evs' + (length buf - (tot + ?k))"
          using 1(1) [OF True Cons Accept k refl] 1(3,4) True k by (simp add: Cons Accept)
        moreover have "take ?k (drop tot buf) @ drop (tot + ?k) buf = drop tot buf"
          by (metis add.commute append_take_drop_id drop_drop)
        ultimately show ?thesis
          using step k True by (fastforce simp: Cons Accept)
      qed (use 1 True in \<open>auto simp: Cons writen_loop.simps [of buf tot out "Write_Interrupted # es"]\<close>)
    qed (use 1 True in simp)
  qed
qed

subsection \<open>Properties\<close>

text \<open>
  C33. Exact reading: when at least \<open>n\<close> bytes are pending before the end of the stream, \<^verbatim>\<open>readn\<close> returns \<open>n\<close> and the
  first \<open>n\<close> pending bytes however the system cuts the data and interrupts the calls; the rest stays
  pending and the mutex is released.
\<close>

theorem readn_exact:
  assumes "\<not> recv_mutex io" "n \<le> length (pending evs)"
  shows "\<exists>evs'. readn io n evs = Inr (io, Some n, take n (pending evs), evs') \<and> pending evs' = drop n (pending evs)"
proof -
  obtain evs' where "readn_loop n [] evs = Inr (Some n, True, take n (pending evs), evs')" "pending evs' = drop n (pending evs)"
    using readn_loop_complete [of n "[]" evs] assms(2) by auto
  moreover have "io\<lparr>recv_mutex := False\<rparr> = io"
    using assms(1) by (cases io) simp
  ultimately show ?thesis
    using assms(1) by (simp add: readn_def)
qed

theorem readn_exact_witness:
  "\<exists>evs'. readn io_init 3 [Data_In [1, 2], Read_Interrupted, Data_In [3, 4]] =
       Inr (io_init, Some 3, take 3 (pending [Data_In [1, 2], Read_Interrupted, Data_In [3, 4]]), evs')
     \<and> pending evs' = drop 3 (pending [Data_In [1, 2], Read_Interrupted, Data_In [3, 4]])"
  by (rule readn_exact) (simp_all add: io_init_def)

text \<open>
  Exact writing: when the descriptor accepts enough bytes before a failure, \<^verbatim>\<open>writen\<close> returns the length of the
  buffer, has sent exactly the buffer, in order and once, and releases the mutex.
\<close>

theorem writen_exact:
  assumes "\<not> send_mutex io" "length buf \<le> accepted evs"
  shows "\<exists>evs'. writen io buf evs = Inr (io, Some (length buf), buf, evs')"
proof -
  obtain evs' where "writen_loop buf 0 [] evs = Inr (Some (length buf), True, buf, evs')"
    using writen_loop_complete [of buf 0 evs "[]"] assms(2) by auto
  moreover have "io\<lparr>send_mutex := False\<rparr> = io"
    using assms(1) by (cases io) simp
  ultimately show ?thesis
    using assms(1) by (simp add: writen_def)
qed

theorem writen_exact_witness:
  "\<exists>evs'. writen io_init [1, 2, 3] [Accept 1, Write_Interrupted, Accept 5] = Inr (io_init, Some (length [1, 2, 3 :: uchar8]), [1, 2, 3], evs')"
  by (rule writen_exact) (simp_all add: io_init_def)

text \<open>
  A stream that ends or fails early leaves the receive mutex locked: once \<^verbatim>\<open>readn\<close> has returned without its
  \<open>n\<close> bytes, every later call in the process deadlocks.
\<close>

theorem readn_short_deadlock:
  assumes "length (pending evs) < n" "readn io n evs = Inr (io', ret, buf, evs')"
  shows "ret \<noteq> Some n \<and> buf = pending evs \<and> readn io' k evs2 = Inl Deadlock"
proof -
  obtain r e where loop: "readn_loop n [] evs = Inr (r, False, pending evs, e)"
    and r: "r = Some (length (pending evs)) \<or> r = None"
    using readn_loop_short [of "[]" evs n] assms by (fastforce simp: readn_def c_result_iff)
  have res: "io' = io\<lparr>recv_mutex := True\<rparr>" "ret = r" "buf = pending evs"
    using assms(2) by (auto simp: readn_def loop c_result_iff)
  show ?thesis
    using assms(1) r by (auto simp: res readn_def)
qed

theorem readn_short_deadlock_witness:
  "Some (1::nat) \<noteq> Some 2 \<and> [7] = pending [Data_In [7], End_Of_File]
   \<and> readn (io_init\<lparr>recv_mutex := True\<rparr>) 1 [] = Inl Deadlock"
proof (rule readn_short_deadlock)
  show "readn io_init 2 [Data_In [7], End_Of_File] = Inr (io_init\<lparr>recv_mutex := True\<rparr>, Some 1, [7], [])"
    by (simp add: readn_def io_init_def readn_loop.simps)
qed simp

end
