(* ===== verification/Socket_Msg.thy ===== *)
theory Socket_Msg
  imports Cobs_Correct Message_Correct Socket_IO
begin

text \<open>
  \<^verbatim>\<open>src/justin-snapshot/src/socket_msg_help.c\<close>: a message becomes one COBS frame, written to the socket in one
  \<^verbatim>\<open>writen\<close>. The encoding buffer has twice the size of the message; the encoder writes into it without a
  bound of its own. \<^verbatim>\<open>recv_msg\<close> is a stub in this revision and always returns \<^verbatim>\<open>NULL\<close>.
\<close>

definition msg_to_cobs :: "host \<Rightarrow> garbage \<Rightarrow> msg_t \<Rightarrow> (bytes \<times> nat) c_result" where
  "msg_to_cobs h g src =
     c_bind (msg_to_bytes h src) (\<lambda>tmpbuf.
     (let l2 = length tmpbuf; enc = cobs_encode g tmpbuf in
      c_bind (c_guard (length enc \<le> 2 * l2) OOB_Write) (\<lambda>_.
      let buf = enc @ map g [length enc..<2 * l2] in
      c_bind (cobs_encoded_length_from_encoded buf) (\<lambda>len. Inr (buf, len)))))"

definition send_msg ::
    "host \<Rightarrow> garbage \<Rightarrow> io_state \<Rightarrow> msg_t \<Rightarrow> write_event list \<Rightarrow> (io_state \<times> bytes \<times> write_event list) c_result" where
  "send_msg h g io src evs =
     c_bind (msg_to_cobs h g src) (\<lambda>(bytes, size).
     c_bind (writen io (take size bytes) evs) (\<lambda>(io, ret, out, evs). Inr (io, out, evs)))"

definition recv_msg :: "int \<Rightarrow> msg_t option" where
  "recv_msg sock = None"

subsection \<open>The frame of a message\<close>

lemma cobs_encode_length_bounds:
  "Suc (length src) \<le> length (cobs_encode g src)"
  "length (cobs_encode g src) \<le> length src + 2 + length src div 254"
  using length_cobs_blocks_ge [of "[]" src] length_cobs_blocks [of "[]" src] from_decoded_loop_bound [of 0 src]
  by (simp_all add: cobs_encode_blocks split: if_splits)

lemma msg_to_cobs_wire:
  assumes "wf_msg m"
  shows "\<exists>rest. msg_to_cobs h g m = Inr (cobs_encode g (msg_wire m) @ rest, length (cobs_encode g (msg_wire m)))"
proof -
  let ?w = "msg_wire m" and ?e = "cobs_encode g (msg_wire m)"
  have "144 \<le> length ?w"
    by (simp add: length_msg_wire [OF assms])
  moreover have "length ?w div 254 \<le> length ?w div 2"
    by (rule div_le_mono2) simp_all
  ultimately have "length ?e \<le> 2 * length ?w"
    using cobs_encode_length_bounds(2) [of g ?w] by linarith
  moreover have "cobs_encoded_length_from_encoded (?e @ rest) = Inr (length ?e)" for rest
    using encoded_length_scan [OF cobs_blocks_no_zero [of "[]" ?w], of rest] by (simp add: cobs_encode_blocks)
  ultimately show ?thesis
    by (simp add: msg_to_cobs_def msg_to_bytes_wire [OF assms] Let_def)
qed

lemma send_msg_wire:
  assumes "wf_msg m" "\<not> send_mutex io" "length (cobs_encode g (msg_wire m)) \<le> grants evs"
  shows "\<exists>evs'. send_msg h g io m evs = Inr (io, cobs_encode g (msg_wire m), evs')
     \<and> grants evs \<le> grants evs' + length (cobs_encode g (msg_wire m))"
proof -
  obtain rest where c: "msg_to_cobs h g m = Inr (cobs_encode g (msg_wire m) @ rest, length (cobs_encode g (msg_wire m)))"
    using msg_to_cobs_wire [OF assms(1)] by blast
  obtain evs' where "writen_loop (cobs_encode g (msg_wire m)) 0 [] evs =
      Inr (Some (length (cobs_encode g (msg_wire m))), True, cobs_encode g (msg_wire m), evs')"
    "grants evs \<le> grants evs' + length (cobs_encode g (msg_wire m))"
    using writen_loop_grants [of "cobs_encode g (msg_wire m)" 0 evs "[]"] assms(3) by auto
  moreover have "io\<lparr>send_mutex := False\<rparr> = io"
    using assms(2) by (cases io) simp
  ultimately show ?thesis
    using assms(2) by (simp add: send_msg_def c writen_def)
qed

text \<open>A message whose CRC field is 0 ends in a zero byte, the case in which the framing is exact.\<close>

lemma last_msg_wire:
  assumes "crc (trail m) = 0"
  shows "msg_wire m \<noteq> []" "last (msg_wire m) = 0" "trailing_run r (msg_wire m) = 0"
proof -
  have l: "last (be_bytes (0 :: uint64)) = 0" "be_bytes (0 :: uint64) \<noteq> []"
    by (simp_all add: be_bytes_def le_bytes_def upt_rec)
  have "msg_wire m = (header_wire (head m) @ content (body m) @ concat (map be_bytes (vparityData (body m)))
      @ hparityData (body m) @ be_bytes (mbz (trail m)) @ [chanType (trail m)] @ [dataType (trail m)]
      @ be_bytes (msgID (trail m)) @ be_bytes (totalLength (trail m)) @ be_bytes (bodyLength (trail m))
      @ be_bytes (contentLength (trail m)) @ be_bytes (parityLength (trail m)) @ be_bytes (sendID (trail m))
      @ be_bytes (recvID (trail m)) @ be_bytes (segmentNum (trail m))) @ be_bytes (0 :: uint64)"
    by (simp add: msg_wire_def header_wire_def assms)
  then obtain pre where w: "msg_wire m = pre @ be_bytes (0 :: uint64)"
    by blast
  show ne: "msg_wire m \<noteq> []" and la: "last (msg_wire m) = 0"
    using l by (simp_all add: w)
  have "trailing_run r (xs @ [0]) = 0" for xs
    by (induction xs arbitrary: r) auto
  then show "trailing_run r (msg_wire m) = 0"
    using ne la by (metis append_butlast_last_id)
qed

subsection \<open>Frames on the wire\<close>

text \<open>
  What a receiver that follows the message library finds in a stream: the bytes before each delimiter verify, decode together with
  their delimiter and parse, on a host \<open>h\<close>, to one message after the other; nothing else is in the stream.
\<close>

definition frame_of :: "host \<Rightarrow> bytes \<Rightarrow> msg_t \<Rightarrow> bool" where
  "frame_of h w m \<longleftrightarrow> SPECIAL_CHAR \<notin> set w \<and> alt_cobs_verify (w @ [SPECIAL_CHAR]) (length w) = Inr True
     \<and> (\<exists>bs. cobs_decode (w @ [SPECIAL_CHAR]) (length w + 1) = Inr bs \<and> msg_from_bytes h bs = Some m)"

definition carries :: "host \<Rightarrow> bytes \<Rightarrow> msg_t list \<Rightarrow> bool" where
  "carries h stream ms \<longleftrightarrow> (\<exists>ws. stream = concat (map (\<lambda>w. w @ [SPECIAL_CHAR]) ws) \<and> list_all2 (frame_of h) ws ms)"

lemma frame_of_wire:
  assumes "wf_msg m" "crc (trail m) = 0"
  shows "frame_of h (cobs_blocks [] (msg_wire m)) m"
proof -
  let ?w = "cobs_blocks [] (msg_wire m)"
  have "cobs_decode (?w @ [0]) (length ?w + 1) = Inr (msg_wire m)"
    using decode_blocks_terminated [of "[]" "msg_wire m" "[]"] last_msg_wire(3) [OF assms(2)] by (simp add: cobs_decode_def)
  moreover have "msg_from_bytes h (msg_wire m) = Some m"
    by (simp add: msg_from_bytes_Some_iff wf_msg_layout [OF assms(1)])
  ultimately show ?thesis
    by (simp add: frame_of_def SPECIAL_CHAR_def cobs_blocks_no_zero alt_cobs_verify_valid cobs_blocks_valid)
qed

lemma carries_wire:
  assumes "list_all (\<lambda>m. wf_msg m \<and> crc (trail m) = 0) ms"
  shows "carries h (concat (map (\<lambda>m. cobs_encode g (msg_wire m)) ms)) ms"
  unfolding carries_def
proof (intro exI conjI)
  show "concat (map (\<lambda>m. cobs_encode g (msg_wire m)) ms) = concat (map (\<lambda>w. w @ [SPECIAL_CHAR]) (map (\<lambda>m. cobs_blocks [] (msg_wire m)) ms))"
    by (simp add: cobs_encode_blocks SPECIAL_CHAR_def o_def)
  show "list_all2 (frame_of h) (map (\<lambda>m. cobs_blocks [] (msg_wire m)) ms) ms"
    using assms by (simp add: list_all2_conv_all_nth list_all_length frame_of_wire)
qed

subsection \<open>Properties\<close>

text \<open>
  C4. A message that is sent arrives: \<^verbatim>\<open>send_msg\<close> of a formed message stays inside its encoding buffer, writes one
  frame whose only zero byte is the final delimiter, and the receiver that verifies the frame, decodes it with
  its delimiter and parses the result, on a host of any byte order, has the message that was formed.
\<close>

theorem send_msg_delivers:
  assumes "unat clen \<le> length src" "unat clen < 65536" "form_msg r s d ct dt n src clen = Inr m"
    and "\<not> send_mutex io" "80000 \<le> grants evs"
  shows "\<exists>w evs'. send_msg h1 g io m evs = Inr (io, w @ [SPECIAL_CHAR], evs') \<and> SPECIAL_CHAR \<notin> set w
     \<and> alt_cobs_verify (w @ [SPECIAL_CHAR]) (length w) = Inr True
     \<and> (\<exists>bs. cobs_decode (w @ [SPECIAL_CHAR]) (length w + 1) = Inr bs \<and> msg_from_bytes h2 bs = Some m)"
proof -
  let ?c = "take (unat clen) src"
  have c: "length ?c = unat clen" using assms by simp
  have m: "m = formed_msg (form_head r s d ct dt n clen) ?c"
    using assms(3) form_msg_eq [OF assms(1,2), of r s d ct dt n] by simp
  have wf: "wf_msg m" using wf_formed_msg [OF assms(2) c] m by simp
  have crc: "crc (trail m) = 0" by (simp add: m formed_msg_def)
  let ?w = "cobs_blocks [] (msg_wire m)"
  have "length (msg_wire m) \<le> 144 + 65536 + 2048"
    unfolding length_msg_wire [OF wf] using assms(2) by (simp add: m formed_msg_def)
  then have "length (cobs_encode g (msg_wire m)) \<le> 80000"
    using cobs_encode_length_bounds(2) [of g "msg_wire m"] by linarith
  then obtain evs' where "send_msg h1 g io m evs = Inr (io, cobs_encode g (msg_wire m), evs')"
    using send_msg_wire [OF wf assms(4), of g evs h1] assms(5) by auto
  moreover have "cobs_decode (?w @ [0]) (length ?w + 1) = Inr (msg_wire m)"
    using decode_blocks_terminated [of "[]" "msg_wire m" "[]"] last_msg_wire(3) [OF crc]
    by (simp add: cobs_decode_def)
  moreover have "msg_from_bytes h2 (msg_wire m) = Some m"
    by (simp add: msg_from_bytes_Some_iff wf_msg_layout [OF wf])
  ultimately show ?thesis
    by (intro exI [of _ ?w] exI [of _ evs'])
      (simp add: cobs_encode_blocks SPECIAL_CHAR_def cobs_blocks_no_zero alt_cobs_verify_valid cobs_blocks_valid)
qed

lemma grants_replicate: "0 < k \<Longrightarrow> grants (replicate n (Accept k)) = n"
  by (induction n) simp_all

theorem send_msg_delivers_witness:
  "\<exists>w evs'. send_msg Little_Host (\<lambda>_. 9) io_init sample_msg (replicate 80000 (Accept 100)) = Inr (io_init, w @ [SPECIAL_CHAR], evs')
     \<and> SPECIAL_CHAR \<notin> set w \<and> alt_cobs_verify (w @ [SPECIAL_CHAR]) (length w) = Inr True
     \<and> (\<exists>bs. cobs_decode (w @ [SPECIAL_CHAR]) (length w + 1) = Inr bs \<and> msg_from_bytes Big_Host bs = Some sample_msg)"
proof (rule send_msg_delivers [where src = "[65, 66, 0]"])
  show "form_msg 7 1 2 0 0 5 [65, 66, 0] 3 = Inr sample_msg"
    using form_msg_eq [of 3 "[65, 66, 0]" 7 1 2 0 0 5] by (simp add: sample_msg_def)
qed (simp_all add: io_init_def grants_replicate)

end
