(* ===== verification/Frame_Codec.thy ===== *)
theory Frame_Codec
  imports Codec Socket_Msg
begin

text \<open>
  The layers of the wire format as codecs: a well-formed message and its byte image, a byte string and its COBS frame,
  and the two stacked, which is the format that \<^verbatim>\<open>send_msg\<close> writes and a receiver splits at the delimiters.
\<close>

definition unframe :: "bytes \<Rightarrow> bytes option" where
  "unframe w = (case cobs_decode w (length w) of Inl e \<Rightarrow> None | Inr d \<Rightarrow> Some d)"

definition closed :: "bytes \<Rightarrow> bool" where
  "closed src \<longleftrightarrow> trailing_run 0 src = 0"

definition good_msg :: "msg_t \<Rightarrow> bool" where
  "good_msg m \<longleftrightarrow> wf_msg m \<and> crc (trail m) = 0"

definition read_frame :: "host \<Rightarrow> bytes \<Rightarrow> msg_t option" where
  "read_frame h w = Option.bind (unframe w) (msg_from_bytes h)"

interpretation wire: codec msg_wire "msg_from_bytes h" good_msg for h
  by unfold_locales (simp add: good_msg_def msg_from_bytes_Some_iff wf_msg_layout)

interpretation cobs: codec "cobs_encode g" unframe closed for g
proof unfold_locales
  fix src assume "closed src"
  then show "unframe (cobs_encode g src) = Some src"
    using decode_blocks_terminated [of "[]" src "[]"] by (simp add: unframe_def closed_def cobs_encode_blocks cobs_decode_def)
qed

interpretation frame: codec_stack msg_wire "msg_from_bytes h" good_msg "cobs_encode g" unframe closed for h g
  by unfold_locales (simp add: closed_def good_msg_def last_msg_wire(3))

interpretation stream: delimited "\<lambda>m. cobs_encode g (msg_wire m)" "read_frame h" good_msg SPECIAL_CHAR for h g
proof unfold_locales
  show "read_frame h (cobs_encode g (msg_wire m)) = Some m" if "good_msg m" for m
    unfolding read_frame_def by (rule frame.stack.decode_enc [OF that])
  show "\<exists>b. cobs_encode g (msg_wire m) = b @ [SPECIAL_CHAR] \<and> SPECIAL_CHAR \<notin> set b" for m
    by (intro exI [of _ "cobs_blocks [] (msg_wire m)"]) (simp add: cobs_encode_blocks SPECIAL_CHAR_def cobs_blocks_no_zero)
qed

subsection \<open>Property\<close>

lemma formed_good: "unat clen < 65536 \<Longrightarrow> length c = unat clen \<Longrightarrow> good_msg (formed_msg (form_head r s d ct dt n clen) c)"
  by (simp add: good_msg_def wf_formed_msg) (simp add: formed_msg_def form_head_def)

text \<open>
  C12. A stream of messages can be read back: when the frames of any sequence of well-formed messages are sent one after
  the other, a receiver of any byte order that cuts the stream at the delimiters and decodes each piece obtains
  exactly this sequence. In particular two different messages never have the same frame.
\<close>

theorem message_stream:
  assumes "list_all good_msg (m # m' # ms)"
  shows "map (read_frame h) (split_frames SPECIAL_CHAR [] (concat (map (\<lambda>m. cobs_encode g (msg_wire m)) (m # m' # ms)))) =
       map Some (m # m' # ms)
     \<and> (cobs_encode g (msg_wire m) = cobs_encode g (msg_wire m') \<longleftrightarrow> m = m')"
  using stream.decode_stream [OF assms, of h g] stream.enc_inject [of m m' g] assms by simp

theorem message_stream_witness:
  "map (read_frame Big_Host) (split_frames SPECIAL_CHAR [] (concat (map (\<lambda>m. cobs_encode (\<lambda>_. 5) (msg_wire m)) [sample_msg, sample_msg]))) =
       map Some [sample_msg, sample_msg]
     \<and> (cobs_encode (\<lambda>_. 5) (msg_wire sample_msg) = cobs_encode (\<lambda>_. 5) (msg_wire sample_msg) \<longleftrightarrow> sample_msg = sample_msg)"
  by (rule message_stream) (simp add: sample_msg_def formed_good)

end
