(* ===== verification/Cobs_Unit.thy ===== *)
theory Cobs_Unit
  imports Cobs_Correct
begin

text \<open>
  The COBS unit tests of \<^verbatim>\<open>src/justin-snapshot/unit_test/cobs_unit.c\<close>, and a proof that they succeed whatever the
  stack held. A test returns 0 when it succeeds and 1 at the first failed comparison. Local buffers start
  with the contents \<open>g\<close> of the stack; a routine that writes more bytes than its buffer has is
  \<open>OOB_Write\<close>.
\<close>

definition MAGIC_BYTE :: uchar8 where
  "MAGIC_BYTE = 0xDE"

definition overlay :: "bytes \<Rightarrow> bytes \<Rightarrow> bytes c_result" where
  "overlay buf new = (if length new \<le> length buf then Inr (new @ drop (length new) buf) else Inl OOB_Write)"

definition set_to_magic :: "bytes \<Rightarrow> nat \<Rightarrow> bytes" where
  "set_to_magic buf len = replicate len MAGIC_BYTE @ drop len buf"

definition all_at :: "bytes \<Rightarrow> nat \<Rightarrow> nat \<Rightarrow> uchar8 \<Rightarrow> bool" where
  "all_at buf i j b \<longleftrightarrow> list_all (\<lambda>k. buf ! k = b) [i..<j]"

subsection \<open>The tests\<close>

definition cobs_test1 :: "garbage \<Rightarrow> int c_result" where
  "cobs_test1 g =
     (let buffer = replicate 512 0 in
      c_bind (overlay (malloc_bytes g 1026) (cobs_encode g buffer)) (\<lambda>cobsbuf.
      if \<not> all_at cobsbuf 0 512 0x1 then Inr 1
      else if 512 + length (takeWhile (\<lambda>b. b \<noteq> 0) (drop 512 cobsbuf)) \<noteq> 512 then Inr 1
      else c_bind (cobs_decode cobsbuf 513) (\<lambda>d.
        c_bind (overlay (replicate 1026 MAGIC_BYTE) d) (\<lambda>buffer2.
        if \<not> list_all (\<lambda>k. buffer2 ! k = buffer ! k) [0..<512] then Inr 1
        else if \<not> all_at buffer2 512 1026 MAGIC_BYTE then Inr 1
        else Inr 0))))"

text \<open>Test 2 runs over \<open>i\<close>; the encoded buffer of one round is the stack contents of the next.\<close>

fun cobs_test2_loop :: "nat list \<Rightarrow> bytes \<Rightarrow> int c_result" where
  "cobs_test2_loop [] cobsbuf = Inr 0"
| "cobs_test2_loop (i # is) cobsbuf =
     (let buffer = set_to_magic (replicate 512 0) i in
      c_bind (overlay cobsbuf (cobs_encode (\<lambda>k. cobsbuf ! k) (take (i + 1) buffer))) (\<lambda>cobsbuf.
      if unat (cobsbuf ! 0) \<noteq> i + 1 then Inr 1
      else if \<not> all_at cobsbuf 1 (i + 1) MAGIC_BYTE then Inr 1
      else if cobsbuf ! (i + 1) \<noteq> 0x0 then Inr 1
      else c_bind (cobs_decode cobsbuf (i + 1)) (\<lambda>d.
        c_bind (overlay (replicate 1026 0) d) (\<lambda>buffer2.
        if \<not> all_at buffer2 0 i MAGIC_BYTE then Inr 1
        else if buffer2 ! i \<noteq> 0x0 then Inr 1
        else cobs_test2_loop is cobsbuf))))"

definition cobs_test2 :: "garbage \<Rightarrow> int c_result" where
  "cobs_test2 g = cobs_test2_loop [1..<254] (malloc_bytes g 1026)"

definition cobs_test3 :: "garbage \<Rightarrow> int c_result" where
  "cobs_test3 g =
     c_bind (overlay (malloc_bytes g 1026) (cobs_encode g (take 0xFE (set_to_magic (replicate 512 0) 0xFE)))) (\<lambda>cobsbuf.
     if cobsbuf ! 0 \<noteq> 0xFF then Inr 1
     else if \<not> all_at cobsbuf 1 0xFF MAGIC_BYTE then Inr 1
     else c_bind (overlay cobsbuf (cobs_encode (\<lambda>k. cobsbuf ! k) (take 0xFF (set_to_magic (replicate 512 0) 0xFF)))) (\<lambda>cobsbuf.
       if cobsbuf ! 0 \<noteq> 0xFF then Inr 1
       else if \<not> all_at cobsbuf 1 0xFF MAGIC_BYTE then Inr 1
       else if cobsbuf ! 0xFF \<noteq> 2 then Inr 1
       else if cobsbuf ! (1 + 0xFF) \<noteq> MAGIC_BYTE then Inr 1
       else Inr 0))"

text \<open>The partial decoder writes the bytes it returns to the front of \<open>buffer2\<close> (filled with \<open>fill\<close>).\<close>

fun partial_checks :: "bytes \<Rightarrow> uchar8 \<Rightarrow> uchar8 \<Rightarrow> nat list \<Rightarrow> int c_result" where
  "partial_checks buffer fill expected [] = Inr 0"
| "partial_checks buffer fill expected (i # is) =
     (case cobs_partial_decode buffer i of (n, out) \<Rightarrow>
        c_bind (overlay (replicate 1026 fill) out) (\<lambda>buffer2.
        if n \<noteq> i then Inr 1
        else if \<not> all_at buffer2 0 i expected then Inr 1
        else partial_checks buffer fill expected is))"

definition cobs_test5 :: "int c_result" where
  "cobs_test5 =
     c_bind (partial_checks (replicate 512 0x1) MAGIC_BYTE 0x0 [1..<512]) (\<lambda>r. if r \<noteq> 0 then Inr 1 else
     c_bind (partial_checks ((replicate 512 MAGIC_BYTE)[0 := 0xFE]) 0 MAGIC_BYTE [1..<0xFE - 1]) (\<lambda>r. if r \<noteq> 0 then Inr 1 else
     c_bind (partial_checks ((replicate 512 MAGIC_BYTE)[0 := 0xFF]) 0 MAGIC_BYTE [1..<0xFF - 1]) (\<lambda>r. if r \<noteq> 0 then Inr 1 else
     (let buffer = (replicate 512 MAGIC_BYTE)[0 := 0x5] in
      if fst (cobs_partial_decode (take 4 buffer) 5) \<noteq> 0 then Inr 1
      else (let buffer = buffer[5 := 0] in
        if fst (cobs_partial_decode (take 6 buffer) 6) \<noteq> 0 then Inr 1 else Inr 0)))))"

definition cobs_tests :: "garbage \<Rightarrow> garbage \<Rightarrow> garbage \<Rightarrow> int c_result" where
  "cobs_tests g1 g2 g3 =
     c_bind (cobs_test1 g1) (\<lambda>r. if r \<noteq> 0 then Inr 1 else
     c_bind (cobs_test2 g2) (\<lambda>r. if r \<noteq> 0 then Inr 1 else
     c_bind (cobs_test3 g3) (\<lambda>r. if r \<noteq> 0 then Inr 1 else
     c_bind cobs_test5 (\<lambda>r. if r \<noteq> 0 then Inr 1 else Inr 0))))"

subsection \<open>Blocks of the test data\<close>

lemma blocks_zeros: "cobs_blocks [] (replicate n 0) = replicate n 1"
  by (induction n) simp_all

lemma blocks_run: "length run + n \<le> 253 \<Longrightarrow> b \<noteq> 0 \<Longrightarrow> cobs_blocks run (replicate n b @ src) = cobs_blocks (run @ replicate n b) src"
  by (induction n arbitrary: run) simp_all

lemma trailing_zeros: "trailing_run 0 (replicate n 0) = 0"
  by (induction n) simp_all

lemma all_at_append: "j \<le> length xs \<Longrightarrow> all_at (xs @ ys) i j b \<longleftrightarrow> all_at xs i j b"
  by (auto simp: all_at_def list_all_iff nth_append)

lemma all_at_replicate: "j \<le> n \<Longrightarrow> all_at (replicate n b) i j b"
  by (simp add: all_at_def list_all_iff)

lemma overlay_ok: "length new \<le> length buf \<Longrightarrow> overlay buf new = Inr (new @ drop (length new) buf)"
  by (simp add: overlay_def)

text \<open>
  The facts below are stated for arbitrary sizes and then used at the sizes of the tests.
\<close>

lemma zeros_encoded:
  assumes "n < N" "k = Suc n"
  shows "overlay (malloc_bytes g N) (cobs_encode g (replicate n 0)) = Inr (replicate n 1 @ 0 # drop k (malloc_bytes g N))"
    "all_at (replicate n 1 @ 0 # rest) 0 n 1"
    "n + length (takeWhile (\<lambda>b. b \<noteq> 0) (drop n (replicate n 1 @ 0 # rest :: bytes))) = n"
    "cobs_decode (replicate n 1 @ 0 # rest) k = Inr (replicate n 0)"
  using assms decode_blocks_terminated [of "[]" "replicate n 0" rest]
  by (simp_all add: overlay_def malloc_bytes_def cobs_encode_blocks blocks_zeros all_at_append all_at_replicate
      cobs_decode_def trailing_zeros)

lemma zeros_decoded:
  assumes "n \<le> N"
  shows "overlay (replicate N b) (replicate n 0) = Inr (replicate n 0 @ replicate (N - n) b)"
    "list_all (\<lambda>k. (replicate n 0 @ replicate (N - n) b) ! k = replicate n 0 ! k) [0..<n]"
    "all_at (replicate n 0 @ replicate (N - n) b) n N b"
  using assms by (auto simp: overlay_def all_at_def list_all_iff nth_append)

lemma test1_succeeds: "cobs_test1 g = Inr 0"
proof -
  note sizes = zeros_encoded [of 512 1026 513] zeros_decoded [of 512 1026]
  show ?thesis
    unfolding cobs_test1_def Let_def
    by (subst sizes(1); simp only: c_bind_simps sizes(2,3) not_True_eq_False if_False simp_thms)
      (subst sizes(4); simp only: c_bind_simps sizes(5-7) not_True_eq_False if_False simp_thms)
qed

subsection \<open>Test 2\<close>

lemma MAGIC_nonzero [simp]: "MAGIC_BYTE \<noteq> 0"
  by (simp add: MAGIC_BYTE_def)

lemma magic_encoded:
  assumes "i \<le> 253" "Suc i < n"
  shows "take (i + 1) (set_to_magic (replicate n 0) i) = replicate i MAGIC_BYTE @ [0]"
    "cobs_encode g (replicate i MAGIC_BYTE @ [0]) = block_marker i # replicate i MAGIC_BYTE @ [0]"
    "cobs_decode (block_marker i # replicate i MAGIC_BYTE @ rest) (i + 1) = Inr (replicate i MAGIC_BYTE)"
proof -
  have "replicate (n - i) (0 :: uchar8) = 0 # replicate (n - Suc i) 0"
    using assms(2) by (metis Suc_diff_Suc Suc_lessD replicate_Suc)
  then show "take (i + 1) (set_to_magic (replicate n 0) i) = replicate i MAGIC_BYTE @ [0]"
    by (simp add: set_to_magic_def)
  show "cobs_encode g (replicate i MAGIC_BYTE @ [0]) = block_marker i # replicate i MAGIC_BYTE @ [0]"
    using blocks_run [of "[]" i MAGIC_BYTE "[0]"] assms(1) by (simp add: cobs_encode_blocks)
  show "cobs_decode (block_marker i # replicate i MAGIC_BYTE @ rest) (i + 1) = Inr (replicate i MAGIC_BYTE)"
    using cobs_decode_loop_block [of "block_marker i" "replicate i MAGIC_BYTE" "i + 1" 0 rest] assms(1)
    by (simp add: cobs_decode_def)
qed

lemma test2_round:
  assumes "0 < i" "i \<le> 253" "length cobsbuf = N" "512 < N"
  shows "\<exists>cobsbuf'. cobs_test2_loop (i # is) cobsbuf = cobs_test2_loop is cobsbuf' \<and> length cobsbuf' = N"
proof -
  let ?m = "replicate i MAGIC_BYTE"
  let ?c = "block_marker i # ?m @ 0 # drop (i + 2) cobsbuf"
  have 1: "overlay cobsbuf (block_marker i # ?m @ [0]) = Inr ?c"
    using assms by (simp add: overlay_def)
  have 2: "overlay (replicate 1026 0) ?m = Inr (?m @ replicate (1026 - i) 0)"
    using assms by (simp add: overlay_def)
  have c: "unat (?c ! 0) = i + 1" "all_at ?c 1 (i + 1) MAGIC_BYTE" "?c ! (i + 1) = 0"
    "all_at (?m @ replicate (1026 - i) 0) 0 i MAGIC_BYTE" "(?m @ replicate (1026 - i) 0) ! i = 0"
    using assms(1,2) by (auto simp: all_at_def list_all_iff nth_append nth_Cons')
  have "cobs_test2_loop (i # is) cobsbuf = cobs_test2_loop is ?c"
    using magic_encoded [of i 512] assms(2) 1 2 c by (simp add: Let_def)
  moreover have "length ?c = N"
    using assms by simp
  ultimately show ?thesis by blast
qed

lemma test2_loop_succeeds:
  "list_all (\<lambda>i. 0 < i \<and> i \<le> 253) is \<Longrightarrow> length cobsbuf = N \<Longrightarrow> 512 < N \<Longrightarrow> cobs_test2_loop is cobsbuf = Inr 0"
proof (induction "is" arbitrary: cobsbuf)
  case (Cons i "is")
  then obtain c where "cobs_test2_loop (i # is) cobsbuf = cobs_test2_loop is c" "length c = N"
    using test2_round [of i cobsbuf N "is"] by auto
  then show ?case
    using Cons by simp
qed simp

lemma test2_succeeds: "cobs_test2 g = Inr 0"
  unfolding cobs_test2_def by (rule test2_loop_succeeds [of _ _ 1026]) (auto simp: list_all_iff malloc_bytes_def)

subsection \<open>Tests 3 and 5\<close>

lemma full_block: "cobs_blocks [] (replicate 254 MAGIC_BYTE @ src) = 0xFF # replicate 254 MAGIC_BYTE @ cobs_blocks [] src"
proof -
  have "replicate 254 MAGIC_BYTE = replicate 253 MAGIC_BYTE @ [MAGIC_BYTE]"
    using replicate_add [of 253 1 MAGIC_BYTE] by (simp)
  then show ?thesis
    using blocks_run [of "[]" 253 MAGIC_BYTE "MAGIC_BYTE # src"] by (simp)
qed

lemma test3_succeeds: "cobs_test3 g = Inr 0"
proof -
  let ?m = "replicate 254 MAGIC_BYTE"
  have m: "replicate 255 MAGIC_BYTE = ?m @ [MAGIC_BYTE]"
    using replicate_add [of 254 1 MAGIC_BYTE] by (simp)
  have src: "take 0xFE (set_to_magic (replicate 512 0) 0xFE) = ?m" "take 0xFF (set_to_magic (replicate 512 0) 0xFF) = ?m @ [MAGIC_BYTE]"
    by (simp_all add: set_to_magic_def m [symmetric])
  have enc: "cobs_encode g' ?m = 0xFF # ?m @ [0]" "cobs_encode g' (?m @ [MAGIC_BYTE]) = 0xFF # ?m @ [2, MAGIC_BYTE, 0]" for g'
    using full_block [of "[]"] full_block [of "[MAGIC_BYTE]"]
    by (simp_all add: cobs_encode_blocks block_marker_def)
  define rest where "rest = drop 256 (malloc_bytes g 1026)"
  have len: "length rest = 770" by (simp add: rest_def malloc_bytes_def)
  have o1: "overlay (malloc_bytes g 1026) (0xFF # ?m @ [0]) = Inr (0xFF # ?m @ 0 # rest)"
    by (simp add: overlay_def malloc_bytes_def rest_def)
  have o2: "overlay (0xFF # ?m @ 0 # rest) (0xFF # ?m @ [2, MAGIC_BYTE, 0]) = Inr (0xFF # ?m @ 2 # MAGIC_BYTE # 0 # drop 2 rest)"
    using len by (simp add: overlay_def)
  have c: "all_at (0xFF # ?m @ ys) 1 0xFF MAGIC_BYTE" "(0xFF # ?m @ ys) ! 0 = 0xFF"
    "(0xFF # ?m @ 2 # MAGIC_BYTE # ys) ! 0xFF = 2" "(0xFF # ?m @ 2 # MAGIC_BYTE # ys) ! (1 + 0xFF) = MAGIC_BYTE" for ys
    by (auto simp: all_at_def list_all_iff nth_append nth_Cons')
  show ?thesis
    unfolding cobs_test3_def src enc o1 c_bind_simps o2 by (simp only: c o2 not_True_eq_False if_False simp_thms c_bind_simps)
qed

lemma partial_zeros: "dlen < n \<Longrightarrow> partial_loop (replicate n 1) dlen = (True, replicate dlen 0)"
proof (induction n arbitrary: dlen)
  case (Suc n)
  show ?case
  proof (cases dlen)
    case 0
    then show ?thesis
      by (subst partial_loop.simps) simp
  next
    case (Suc k)
    then show ?thesis
      using partial_loop_block [of 1 "[]" "replicate n 1" dlen] Suc.IH [of k] Suc.prems by (cases n) simp_all
  qed
qed simp

lemma partial_checks_succeed:
  assumes "list_all (\<lambda>i. i \<le> 1026 \<and> cobs_partial_decode buffer i = (i, replicate i expected)) is"
  shows "partial_checks buffer fill expected is = Inr 0"
  using assms by (induction "is") (auto simp: overlay_def all_at_def list_all_iff nth_append)

lemma test5_part1: "partial_checks (replicate 512 1) MAGIC_BYTE 0 [1..<512] = Inr 0"
  by (rule partial_checks_succeed) (auto simp: list_all_iff cobs_partial_decode_def partial_zeros)

lemma test5_part2:
  assumes "unat k = Suc n" "n < N" "n \<le> 1026"
  shows "partial_checks ((replicate (Suc N) MAGIC_BYTE)[0 := k]) 0 MAGIC_BYTE [1..<n] = Inr 0"
proof (rule partial_checks_succeed, unfold list_all_iff, rule ballI)
  fix i assume "i \<in> set [1..<n]"
  then have i: "i < n" by simp
  have buf: "(replicate (Suc N) MAGIC_BYTE)[0 := k] = k # replicate n MAGIC_BYTE @ replicate (N - n) MAGIC_BYTE"
    using assms(2) by (simp add: replicate_add [symmetric])
  show "i \<le> 1026 \<and> cobs_partial_decode ((replicate (Suc N) MAGIC_BYTE)[0 := k]) i = (i, replicate i MAGIC_BYTE)"
    unfolding buf using partial_loop_block [of k "replicate n MAGIC_BYTE" "replicate (N - n) MAGIC_BYTE" i] assms i
    by (simp add: cobs_partial_decode_def)
qed

lemma test5_succeeds: "cobs_test5 = Inr 0"
proof -
  have n: "(512 :: nat) = Suc 511" by simp
  have p: "partial_checks ((replicate 512 MAGIC_BYTE)[0 := 0xFE]) 0 MAGIC_BYTE [1..<0xFE - 1] = Inr 0"
    "partial_checks ((replicate 512 MAGIC_BYTE)[0 := 0xFF]) 0 MAGIC_BYTE [1..<0xFF - 1] = Inr 0"
    unfolding n by (rule test5_part2; simp)+
  have d: "take 4 ((replicate 512 MAGIC_BYTE)[0 := 5]) = 5 # replicate 3 MAGIC_BYTE"
    "take 6 (((replicate 512 MAGIC_BYTE)[0 := 5])[5 := 0]) = 5 # replicate 4 MAGIC_BYTE @ [0]"
    by (simp_all add: n numeral_eq_Suc)
  have "cobs_partial_decode (5 # replicate 3 MAGIC_BYTE) 5 = (0, [])"
    by (simp add: cobs_partial_decode_def)
  moreover have "partial_loop [0] 1 = (False, [])"
    by (subst partial_loop.simps) simp
  then have "fst (cobs_partial_decode (5 # replicate 4 MAGIC_BYTE @ [0]) 6) = 0"
    using partial_loop_block [of 5 "replicate 4 MAGIC_BYTE" "[0]" 6] by (simp add: cobs_partial_decode_def)
  ultimately show ?thesis
    unfolding cobs_test5_def Let_def test5_part1 p d by simp
qed

lemma cobs_tests_succeed: "cobs_tests g1 g2 g3 = Inr 0"
  by (simp add: cobs_tests_def test1_succeeds test2_succeeds test3_succeeds test5_succeeds)

end
