(* ===== verification/Unit_Tests.thy ===== *)
theory Unit_Tests
  imports Cobs_Unit Socket_Msg
begin

text \<open>
  The unit test program \<^verbatim>\<open>src/justin-snapshot/unit_test/main.c\<close>: COBS, the layout of the message header, and a message
  that is written, read back, framed and unframed. The theorem at the end is that the program reports
  success on every host.
\<close>

subsection \<open>Layout\<close>

text \<open>
  A struct is laid out with every field at a multiple of its size and padded to a multiple of the largest field.
  The lists give the sizes of the fields of header and trailer.
\<close>

definition align_up :: "nat \<Rightarrow> nat \<Rightarrow> nat" where
  "align_up a n = (n + a - 1) div a * a"

definition sizeof_struct :: "nat list \<Rightarrow> nat" where
  "sizeof_struct fs = align_up (foldr max fs 1) (foldl (\<lambda>off s. align_up s off + s) 0 fs)"

definition header_fields :: "nat list" where
  "header_fields = [2, 1, 1, 4, 4, 4, 4, 4, 8, 8, 8, 8]"

definition trailer_fields :: "nat list" where
  "trailer_fields = [2, 1, 1, 4, 4, 4, 4, 4, 8, 8, 8, 8]"

definition sum_parts_mh :: int where
  "sum_parts_mh = 2 + 8 + 8 + 4 + 1 + 1 + 4 + 4 + 4 + 4 + 8 + 8"

definition type_tests :: int where
  "type_tests =
     (if int (sizeof_struct header_fields) \<noteq> sum_parts_mh then 1
      else if sizeof_struct header_fields \<noteq> sizeof_struct trailer_fields then 1
      else 0)"

subsection \<open>Messages\<close>

definition cmp_msg :: "msg_t \<Rightarrow> msg_t \<Rightarrow> int c_result" where
  "cmp_msg m1 m2 =
     (if head m1 \<noteq> head m2 then Inr 1
      else if trail m1 \<noteq> trail m2 then Inr 1
      else c_bind (mem_read 0 (unat (contentLength (head m1))) (content (body m1))) (\<lambda>c1.
        c_bind (mem_read 0 (unat (contentLength (head m1))) (content (body m2))) (\<lambda>c2.
        if c1 \<noteq> c2 then Inr 1
        else c_bind (c_guard (4 \<le> length (vparityData (body m1)) \<and> 4 \<le> length (vparityData (body m2))) OOB_Read) (\<lambda>_.
          if take 4 (vparityData (body m1)) \<noteq> take 4 (vparityData (body m2)) then Inr 1
          else Inr 0))))"

definition DATASIZE :: nat where
  "DATASIZE = 512"

definition somedata :: bytes where
  "somedata = map (\<lambda>i. word_of_nat i AND 0xFF) [0..<DATASIZE]"

text \<open>The frame test (lines 172 to 196). A null message is dereferenced by the comparison.\<close>

definition frame_test :: "host \<Rightarrow> garbage \<Rightarrow> garbage \<Rightarrow> msg_t \<Rightarrow> nat \<Rightarrow> int c_result" where
  "frame_test h g g2 m mib_len =
     c_bind (msg_to_cobs h g m) (\<lambda>(buf, buflen).
     c_bind (cobs_decoded_length_from_encoded buf) (\<lambda>b2len.
     if mib_len \<noteq> b2len then Inr 1
     else c_bind (cobs_decode buf buflen) (\<lambda>d.
       c_bind (overlay (malloc_bytes g2 b2len) d) (\<lambda>buf2.
       case msg_from_bytes h buf2 of
         None \<Rightarrow> Inl Null_Deref
       | Some m2 \<Rightarrow> c_bind (cmp_msg m m2) (\<lambda>r. if r \<noteq> 0 then Inr 1 else Inr 0)))))"

definition msg_tests :: "host \<Rightarrow> uint64 \<Rightarrow> garbage \<Rightarrow> garbage \<Rightarrow> int c_result" where
  "msg_tests h rnd g g2 =
     c_bind (form_msg rnd 0 0 0 0 0 somedata (word_of_nat DATASIZE)) (\<lambda>m.
     c_bind (msg_to_bytes h m) (\<lambda>msg_in_bytes.
     if length msg_in_bytes < DATASIZE then Inr 1
     else if head m \<noteq> trail m then Inr 1
     else (case msg_from_bytes h msg_in_bytes of
       None \<Rightarrow> Inr 1
     | Some m2 \<Rightarrow>
         c_bind (cmp_msg m m2) (\<lambda>r.
         if r \<noteq> 0 then Inr 1 else frame_test h g g2 m (length msg_in_bytes)))))"

text \<open>The exit status of the program.\<close>

definition unit_main ::
    "host \<Rightarrow> uint64 \<Rightarrow> garbage \<Rightarrow> garbage \<Rightarrow> garbage \<Rightarrow> garbage \<Rightarrow> garbage \<Rightarrow> int c_result" where
  "unit_main h rnd g1 g2 g3 g4 g5 =
     c_bind (cobs_tests g1 g2 g3) (\<lambda>r. if r \<noteq> 0 then Inr 1
     else if type_tests \<noteq> 0 then Inr 1
     else c_bind (msg_tests h rnd g4 g5) (\<lambda>r. if r \<noteq> 0 then Inr 1 else Inr 0))"

subsection \<open>The tests succeed\<close>

lemma type_tests_succeed: "type_tests = 0"
  by (simp add: type_tests_def sum_parts_mh_def sizeof_struct_def header_fields_def trailer_fields_def align_up_def)

lemma sizeof_header: "sizeof_struct header_fields = sizeof_msg_header"
  by (simp add: sizeof_struct_def header_fields_def align_up_def sizeof_msg_header_def)

lemma cmp_msg_same: "wf_msg m \<Longrightarrow> cmp_msg m m = Inr 0"
  by (simp add: cmp_msg_def wf_msg_def mem_read_def)

lemma msg_from_wire: "wf_msg m \<Longrightarrow> msg_from_bytes h (msg_wire m) = Some m"
  by (simp add: msg_from_bytes_Some_iff wf_msg_layout)

lemma frame_test_succeeds:
  assumes "wf_msg m" "crc (trail m) = 0"
  shows "frame_test h g g2 m (length (msg_wire m)) = Inr 0"
proof -
  let ?w = "cobs_blocks [] (msg_wire m)"
  obtain rest where c: "msg_to_cobs h g m = Inr (?w @ 0 # rest, Suc (length ?w))"
    using msg_to_cobs_wire [OF assms(1), of h g] by (auto simp: cobs_encode_blocks)
  have dec: "cobs_decode (?w @ 0 # rest) (Suc (length ?w)) = Inr (msg_wire m)"
    using decode_blocks_terminated [of "[]" "msg_wire m" rest] last_msg_wire(3) [OF assms(2)] by (simp add: cobs_decode_def)
  have "cobs_decoded_length_from_encoded (?w @ 0 # rest) = Inr (length (msg_wire m))"
    using cobs_valid_block [OF cobs_blocks_valid [of "[]" "msg_wire m"], of rest] dec by (metis Inr_inject length_append list.size(3) empty_iff list.set(1) zero_le)
  moreover have "overlay (malloc_bytes g2 (length (msg_wire m))) (msg_wire m) = Inr (msg_wire m)"
    by (simp add: overlay_def malloc_bytes_def)
  ultimately show ?thesis
    by (simp add: frame_test_def c dec msg_from_wire [OF assms(1)] cmp_msg_same [OF assms(1)])
qed

lemma msg_tests_succeed: "msg_tests h rnd g g2 = Inr 0"
proof -
  define m where "m = formed_msg (form_head rnd 0 0 0 0 0 (word_of_nat DATASIZE)) somedata"
  have u: "unat (word_of_nat DATASIZE :: uint32) = DATASIZE" "length somedata = DATASIZE"
    by (simp_all add: DATASIZE_def somedata_def)
  have wf: "wf_msg m"
    unfolding m_def by (rule wf_formed_msg) (simp_all add: u, simp add: DATASIZE_def)
  have form: "form_msg rnd 0 0 0 0 0 somedata (word_of_nat DATASIZE) = Inr m"
    using form_msg_eq [of "word_of_nat DATASIZE" somedata] by (simp add: m_def u) (simp add: DATASIZE_def)
  have "crc (trail m) = 0" "head m = trail m" "DATASIZE \<le> length (msg_wire m)"
    by (simp_all add: length_msg_wire [OF wf]) (simp_all add: m_def formed_msg_def form_head_def u)
  then show ?thesis
    using frame_test_succeeds [OF wf] by (simp add: msg_tests_def form msg_to_bytes_wire [OF wf] msg_from_wire [OF wf] cmp_msg_same [OF wf])
qed

subsection \<open>Property\<close>

text \<open>
  C31. The repository's unit tests succeed: on a host of either byte order, whatever the random number and the contents
  of uninitialised memory, the test program runs without a memory error and exits with status 0.
\<close>

theorem unit_tests_succeed: "unit_main h rnd g1 g2 g3 g4 g5 = Inr 0"
  by (simp add: unit_main_def cobs_tests_succeed type_tests_succeed msg_tests_succeed)

end
