(* ===== verification/File_Transfer.thy ===== *)
theory File_Transfer
  imports Socket_Msg
begin

text \<open>
  \<^verbatim>\<open>src/server/file_transfer.c\<close>: the server reads every regular file of its directory in full blocks and sends
  each block as a message. A file is its name and its bytes (\<open>None\<close> when it cannot be opened). \<open>rnd\<close> gives
  the random message numbers in the order they are drawn; \<open>i\<close> counts the draws. The counters that
  \<^verbatim>\<open>run_file_transfer\<close> passes to \<^verbatim>\<open>shipfile\<close> are not initialised; their first value is an argument. The call of \<^verbatim>\<open>print_msg\<close> before each
  \<^verbatim>\<open>send_msg\<close> writes nothing: the body of that routine in \<^verbatim>\<open>message.c\<close> is compiled only when \<^verbatim>\<open>NOTDEF\<close> is defined, which no file of
  the repository does (\<open>Msg_Print\<close> models it with the macro as an argument).
\<close>

record ship_state =
  ship_io :: io_state
  ship_evs :: "write_event list"
  ship_out :: bytes
  ship_draws :: nat
  ship_blockcount :: int
  ship_bytecount :: int

text \<open>The read loop. With a block size of 0 the loop would send empty blocks for ever.\<close>

function ship_loop ::
    "host \<Rightarrow> garbage \<Rightarrow> (nat \<Rightarrow> uint64) \<Rightarrow> nat \<Rightarrow> ship_state \<Rightarrow> bytes \<Rightarrow> ship_state c_result" where
  "ship_loop h g rnd blocksize s rest =
     (if blocksize = 0 then Inl Diverges
      else if length (take blocksize rest) = blocksize then
        c_bind (form_msg (rnd (ship_draws s)) 0 0 0 0 0 (take blocksize rest) (word_of_nat blocksize)) (\<lambda>m.
        c_bind (send_msg h g (ship_io s) m (ship_evs s)) (\<lambda>(io, out, evs).
        ship_loop h g rnd blocksize
          \<lparr>ship_io = io, ship_evs = evs, ship_out = ship_out s @ out, ship_draws = Suc (ship_draws s),
           ship_blockcount = ship_blockcount s + 1, ship_bytecount = ship_bytecount s + int blocksize\<rparr>
          (drop blocksize rest)))
      else Inr s)"
  by pat_completeness auto
termination
  by (relation "measure (\<lambda>(h, g, rnd, blocksize, s, rest). length rest)") auto

definition shipfile ::
    "host \<Rightarrow> garbage \<Rightarrow> (nat \<Rightarrow> uint64) \<Rightarrow> nat \<Rightarrow> ship_state \<Rightarrow> string \<Rightarrow> bytes option
     \<Rightarrow> (nat \<times> ship_state) c_result" where
  "shipfile h g rnd blocksize s filename dat =
     (if filename = [] \<or> hd filename = CHR ''.'' then Inr (0, s)
      else (case dat of
         None \<Rightarrow> Inr (1, s)
       | Some file \<Rightarrow>
           c_bind (ship_loop h g rnd blocksize (s\<lparr>ship_blockcount := 0, ship_bytecount := 0\<rparr>) file) (\<lambda>s.
           Inr (0, s))))"

text \<open>The directory entry type bits of \<^verbatim>\<open>dirent.h\<close>: a regular file is 8, a symbolic link 10.\<close>

definition DT_REG :: uint8 where
  "DT_REG = 8"

definition DT_LNK :: uint8 where
  "DT_LNK = 10"

record dirent =
  d_type :: uint8
  d_name :: string
  d_data :: "bytes option"

record transfer_totals =
  blocktotal :: int
  bytetotal :: int
  errors :: nat

definition transfer_entry ::
    "host \<Rightarrow> garbage \<Rightarrow> (nat \<Rightarrow> uint64) \<Rightarrow> nat \<Rightarrow> (ship_state \<times> transfer_totals) \<Rightarrow> dirent
     \<Rightarrow> (ship_state \<times> transfer_totals) c_result" where
  "transfer_entry h g rnd blocksize st dep =
     (case st of (s, tot) \<Rightarrow>
        if d_type dep AND DT_REG \<noteq> 0 then
          c_bind (shipfile h g rnd blocksize s (d_name dep) (d_data dep)) (\<lambda>(ret, s).
          Inr (s, \<lparr>blocktotal = blocktotal tot + ship_blockcount s,
                   bytetotal = bytetotal tot + ship_bytecount s,
                   errors = errors tot + (if ret \<noteq> 0 then 1 else 0)\<rparr>))
        else Inr (s, tot))"

fun transfer_loop ::
    "host \<Rightarrow> garbage \<Rightarrow> (nat \<Rightarrow> uint64) \<Rightarrow> nat \<Rightarrow> (ship_state \<times> transfer_totals) \<Rightarrow> dirent list
     \<Rightarrow> (ship_state \<times> transfer_totals) c_result" where
  "transfer_loop h g rnd blocksize st [] = Inr st"
| "transfer_loop h g rnd blocksize st (dep # deps) =
     c_bind (transfer_entry h g rnd blocksize st dep) (\<lambda>st. transfer_loop h g rnd blocksize st deps)"

text \<open>
  The whole transfer. \<open>dir\<close> is \<open>None\<close> when the directory cannot be opened, \<open>fails\<close> says whether \<^verbatim>\<open>readdir\<close> ended
  with an error. The result is what \<^verbatim>\<open>hipftlog\<close> is called with, if it is.
\<close>

definition run_file_transfer ::
    "host \<Rightarrow> garbage \<Rightarrow> (nat \<Rightarrow> uint64) \<Rightarrow> nat \<Rightarrow> ship_state \<Rightarrow> dirent list option \<Rightarrow> bool
     \<Rightarrow> (ship_state \<times> transfer_totals option) c_result" where
  "run_file_transfer h g rnd blocksize s dir fails =
     (case dir of
        None \<Rightarrow> Inr (s, None)
      | Some deps \<Rightarrow>
          c_bind (transfer_loop h g rnd blocksize (s, \<lparr>blocktotal = 0, bytetotal = 0, errors = 0\<rparr>) deps) (\<lambda>(s, tot).
          Inr (s, Some (if fails then tot\<lparr>errors := errors tot + 1\<rparr> else tot))))"

text \<open>The full blocks of a file, and the message and frame that carry a block.\<close>

definition full_blocks :: "nat \<Rightarrow> bytes \<Rightarrow> bytes list" where
  "full_blocks bs d = map (\<lambda>i. take bs (drop (i * bs) d)) [0..<length d div bs]"

definition block_msg :: "uint64 \<Rightarrow> bytes \<Rightarrow> msg_t" where
  "block_msg r c = formed_msg (form_head r 0 0 0 0 0 (word_of_nat (length c))) c"

fun block_frames :: "garbage \<Rightarrow> (nat \<Rightarrow> uint64) \<Rightarrow> nat \<Rightarrow> bytes list \<Rightarrow> bytes" where
  "block_frames g rnd i [] = []"
| "block_frames g rnd i (c # cs) = cobs_encode g (msg_wire (block_msg (rnd i) c)) @ block_frames g rnd (Suc i) cs"

declare ship_loop.simps [simp del]

end
