(* ===== verification/Error_Util.thy ===== *)
theory Error_Util
  imports HipFT_Prelude
begin

text \<open>
  \<^verbatim>\<open>src/client/error_util.c\<close>: the bitwise comparison of two byte strings that the client uses to report how a
  header and its trailer differ.
\<close>

definition hd_table :: "nat list" where
  "hd_table =
     [0, 1, 1, 2, 1, 2, 2, 3, 1, 2, 2, 3, 2, 3, 3, 4,
      1, 2, 2, 3, 2, 3, 3, 4, 2, 3, 3, 4, 3, 4, 4, 5,
      1, 2, 2, 3, 2, 3, 3, 4, 2, 3, 3, 4, 3, 4, 4, 5,
      2, 3, 3, 4, 3, 4, 4, 5, 3, 4, 4, 5, 4, 5, 5, 6,
      1, 2, 2, 3, 2, 3, 3, 4, 2, 3, 3, 4, 3, 4, 4, 5,
      2, 3, 3, 4, 3, 4, 4, 5, 3, 4, 4, 5, 4, 5, 5, 6,
      2, 3, 3, 4, 3, 4, 4, 5, 3, 4, 4, 5, 4, 5, 5, 6,
      3, 4, 4, 5, 4, 5, 5, 6, 4, 5, 5, 6, 5, 6, 6, 7,
      1, 2, 2, 3, 2, 3, 3, 4, 2, 3, 3, 4, 3, 4, 4, 5,
      2, 3, 3, 4, 3, 4, 4, 5, 3, 4, 4, 5, 4, 5, 5, 6,
      2, 3, 3, 4, 3, 4, 4, 5, 3, 4, 4, 5, 4, 5, 5, 6,
      3, 4, 4, 5, 4, 5, 5, 6, 4, 5, 5, 6, 5, 6, 6, 7,
      2, 3, 3, 4, 3, 4, 4, 5, 3, 4, 4, 5, 4, 5, 5, 6,
      3, 4, 4, 5, 4, 5, 5, 6, 4, 5, 5, 6, 5, 6, 6, 7,
      3, 4, 4, 5, 4, 5, 5, 6, 4, 5, 5, 6, 5, 6, 6, 7,
      4, 5, 5, 6, 5, 6, 6, 7, 5, 6, 6, 7, 6, 7, 7, 8]"

text \<open>The loop from index \<open>i\<close>, with the distance and the differences found so far.\<close>

function hdcmp_loop :: "bytes \<Rightarrow> bytes \<Rightarrow> nat \<Rightarrow> nat \<Rightarrow> bytes \<Rightarrow> nat \<Rightarrow> nat \<times> bytes" where
  "hdcmp_loop b1 b2 l i xorbuf dist =
     (if i < l
      then (let xorbuf = xorbuf[i := b1 ! i XOR b2 ! i]
            in hdcmp_loop b1 b2 l (Suc i) xorbuf (dist + hd_table ! unat (xorbuf ! i)))
      else (dist, xorbuf))"
  by pat_completeness auto
termination by (relation "measure (\<lambda>(b1, b2, l, i, xorbuf, dist). l - i)") auto

definition hdcmp :: "bytes \<Rightarrow> bytes \<Rightarrow> nat \<Rightarrow> (nat \<times> bytes) c_result" where
  "hdcmp b1 b2 l =
     c_bind (c_guard (l \<le> length b1 \<and> l \<le> length b2) OOB_Read) (\<lambda>_.
     Inr (hdcmp_loop b1 b2 l 0 (replicate l 0) 0))"

declare hdcmp_loop.simps [simp del]

subsection \<open>The table counts bits\<close>

lemma length_doubling: "length (((\<lambda>xs. xs @ map Suc xs) ^^ m) [0]) = 2 ^ m"
  by (induction m) simp_all

lemma doubling_bits: "n < 2 ^ m \<Longrightarrow> ((\<lambda>xs. xs @ map Suc xs) ^^ m) [0] ! n = (\<Sum>k<m. of_bool (bit n k))"
proof (induction m arbitrary: n)
  case 0
  then show ?case by simp
next
  case (Suc m)
  show ?case
  proof (cases "n < 2 ^ m")
    case True
    then have "\<not> bit n m"
      by (simp add: bit_iff_odd)
    then show ?thesis
      using Suc True by (simp add: nth_append length_doubling)
  next
    case False
    then have m: "n - 2 ^ m = take_bit m n" "n div 2 ^ m = 1"
      using Suc.prems by (simp_all add: take_bit_eq_mod le_div_geq le_mod_geq)
    then have "bit n m"
      by (simp add: bit_iff_odd)
    moreover have "(\<Sum>k<m. of_bool (bit (take_bit m n) k)) = (\<Sum>k<m. of_bool (bit n k) :: nat)"
      by (intro sum.cong) (simp_all add: bit_take_bit_iff)
    moreover have "take_bit m n < 2 ^ m"
      by simp
    ultimately show ?thesis
      using Suc.IH [of "take_bit m n"] False m(1) by (simp add: nth_append length_doubling)
  qed
qed

lemma hd_table_doubling: "hd_table = ((\<lambda>xs. xs @ map Suc xs) ^^ 8) [0]"
  by (simp add: hd_table_def numeral_eq_Suc)

lemma hd_table_bits: "n < 256 \<Longrightarrow> hd_table ! n = (\<Sum>k<8. of_bool (bit n k))"
  unfolding hd_table_doubling by (rule doubling_bits) simp

lemma hd_table_byte: "hd_table ! unat (b :: uchar8) = (\<Sum>k<8. of_bool (bit b k))"
proof -
  have "unat b < 2 ^ LENGTH(8)"
    by (rule unsigned_less)
  then show ?thesis
    using hd_table_bits [of "unat b"] by (simp add: bit_unsigned_iff cong: sum.cong)
qed

subsection \<open>Properties\<close>

lemma hdcmp_loop_eq:
  assumes "length xs = l" "i \<le> l" "\<forall>j<i. xs ! j = b1 ! j XOR b2 ! j"
  shows "hdcmp_loop b1 b2 l i xs dist =
     (dist + (\<Sum>j=i..<l. \<Sum>k<8. of_bool (bit (b1 ! j) k \<noteq> bit (b2 ! j) k)), map (\<lambda>j. b1 ! j XOR b2 ! j) [0..<l])"
  using assms
proof (induction b1 b2 l i xs dist rule: hdcmp_loop.induct)
  case (1 b1 b2 l i xs dist)
  show ?case
  proof (cases "i < l")
    case True
    let ?x = "b1 ! i XOR b2 ! i"
    have "hdcmp_loop b1 b2 l i xs dist = hdcmp_loop b1 b2 l (Suc i) (xs[i := ?x]) (dist + hd_table ! unat ?x)"
      using True 1(2) by (subst hdcmp_loop.simps) (simp add: Let_def)
    moreover have "hd_table ! unat ?x = (\<Sum>k<8. of_bool (bit (b1 ! i) k \<noteq> bit (b2 ! i) k))"
      by (simp add: hd_table_byte bit_xor_iff)
    moreover have "hdcmp_loop b1 b2 l (Suc i) (xs[i := ?x]) (dist + hd_table ! unat ?x) =
      (dist + hd_table ! unat ?x + (\<Sum>j=Suc i..<l. \<Sum>k<8. of_bool (bit (b1 ! j) k \<noteq> bit (b2 ! j) k)),
       map (\<lambda>j. b1 ! j XOR b2 ! j) [0..<l])"
      using 1(1) [OF True refl] 1(2-4) True by (simp add: less_Suc_eq nth_list_update)
    ultimately show ?thesis
      using True by (simp add: sum.atLeast_Suc_lessThan)
  next
    case False
    then have "xs = map (\<lambda>j. b1 ! j XOR b2 ! j) [0..<l]"
      using 1(2-4) by (intro nth_equalityI) auto
    then show ?thesis
      using False by (simp add: hdcmp_loop.simps)
  qed
qed

text \<open>
  \<^verbatim>\<open>hdcmp\<close> returns the Hamming distance, the number of bit positions in which the two strings differ, and the
  bytewise difference.
\<close>

theorem hdcmp_hamming:
  assumes "l \<le> length b1" "l \<le> length b2"
  shows "hdcmp b1 b2 l = Inr (card {(j, k). j < l \<and> k < 8 \<and> bit (b1 ! j) k \<noteq> bit (b2 ! j) k},
     map (\<lambda>j. b1 ! j XOR b2 ! j) [0..<l])"
proof -
  let ?D = "\<lambda>j. {k. k < 8 \<and> bit (b1 ! j) k \<noteq> bit (b2 ! j) k}"
  have "{(j, k). j < l \<and> k < 8 \<and> bit (b1 ! j) k \<noteq> bit (b2 ! j) k} = Sigma {0..<l} ?D"
    by auto
  moreover have "(\<Sum>k<8. of_bool (bit (b1 ! j) k \<noteq> bit (b2 ! j) k)) = card (?D j)" for j
  proof -
    have "{..<8} \<inter> {k. bit (b1 ! j) k \<noteq> bit (b2 ! j) k} = ?D j"
      by auto
    then show ?thesis
      using sum_of_bool_eq [of "{..<8}" "\<lambda>k. bit (b1 ! j) k \<noteq> bit (b2 ! j) k", where ?'a = nat] by simp
  qed
  ultimately show ?thesis
    using assms hdcmp_loop_eq [of "replicate l 0" l 0 b1 b2 0] by (simp add: hdcmp_def)
qed

theorem hdcmp_hamming_witness:
  "hdcmp [1, 7, 0] [3, 7] 2 = Inr (card {(j, k). j < 2 \<and> k < 8 \<and> bit ([1, 7, 0 :: uchar8] ! j) k \<noteq> bit ([3, 7 :: uchar8] ! j) k},
     map (\<lambda>j. [1, 7, 0] ! j XOR [3, 7] ! j) [0..<2])"
  by (rule hdcmp_hamming) simp_all

end
