(* ===== verification/Handle_Errors.thy ===== *)
theory Handle_Errors
  imports Cobs Message Error_Util
begin

text \<open>
  \<^verbatim>\<open>src/client/handle_errors.c\<close>: the diagnosis of blocks that do not decode, do not parse or do not validate. An
  operation returns the log lines it writes. A line has the block count, the type and subtype of the
  error, the error-specific text (as a constructor with the numbers printed in it) and the packet bytes dumped. Printing
  a text buffer that was never filled is an error. Peer addresses are left out.
\<close>

datatype log_text =
    No_Text
  | Msg_Len_Over_Buffer uint32 nat | Frame_Len nat | Runt nat
  | Total_Over_Rest uint32 nat | Body_Over_Total uint32 uint32 | Content_Over_Rest uint32 nat
  | Bad_ChanType uint8 | Bad_DataType uint8 | Total_Over_Max uint32 | Total_Over_Len uint32 nat | HD nat

record log_line =
  log_block :: nat
  log_type :: string
  log_sub :: string
  log_specific :: log_text
  log_pkt :: bytes

definition log_error :: "nat \<Rightarrow> string \<Rightarrow> string \<Rightarrow> log_text \<Rightarrow> bytes \<Rightarrow> log_line" where
  "log_error bcount ty subty specific pkt =
     \<lparr>log_block = bcount, log_type = ty, log_sub = subty, log_specific = specific, log_pkt = pkt\<rparr>"

definition handle_null_packet :: "nat \<Rightarrow> log_line list" where
  "handle_null_packet blockcount = [log_error blockcount ''cobs'' ''null packet'' No_Text []]"

text \<open>\<open>Some\<close> is the return value 0 with the line logged, \<open>None\<close> the return value 1. The last call prints \<^verbatim>\<open>tmp\<close>, which nobody filled.\<close>

definition hce_try_header :: "host \<Rightarrow> nat \<Rightarrow> bytes \<Rightarrow> nat \<Rightarrow> log_line option c_result" where
  "hce_try_header h blockcount cobs len =
     (case cobs_partial_decode (take len cobs) sizeof_msg_header of
        (n, mh) \<Rightarrow>
          if n \<noteq> sizeof_msg_header then Inr None
          else (let total_len = c_ntoh h (field h 8 4 mh :: uint32) in
                if unat total_len > len
                then Inr (Some (log_error blockcount ''cobs'' ''fragment-header'' (Msg_Len_Over_Buffer total_len len) []))
                else Inl Uninitialised_Use))"

definition handle_cobs_errors :: "host \<Rightarrow> nat \<Rightarrow> bytes \<Rightarrow> nat \<Rightarrow> log_line list c_result" where
  "handle_cobs_errors h blockcount cobs_string len =
     c_bind (hce_try_header h blockcount cobs_string len) (\<lambda>diagnosed.
     case diagnosed of
       Some l \<Rightarrow> Inr [l]
     | None \<Rightarrow> Inr [log_error blockcount ''cobs'' ''unknown'' (Frame_Len len) []])"

text \<open>
  The header routine moves \<^verbatim>\<open>buffer\<close> and \<^verbatim>\<open>len\<close> behind the header, so the later comparisons are with the number
  of bytes that remain.
\<close>

definition handle_busted_msg1 :: "host \<Rightarrow> nat \<Rightarrow> bytes \<Rightarrow> nat \<Rightarrow> log_line list" where
  "handle_busted_msg1 h blockcount buffer len =
     (case msg_header_from_bytes h (take len buffer) of
        None \<Rightarrow>
          if len < sizeof_msg_header
          then [log_error blockcount ''msg'' ''parse'' (Runt len) (take len buffer)]
          else [log_error blockcount ''msg'' ''parse'' No_Text []]
      | Some (hdr, buffer) \<Rightarrow>
          (let len = len - sizeof_msg_header in
           if unat (totalLength hdr) > 65536 \<or> unat (totalLength hdr) > len
           then [log_error blockcount ''msg'' ''parse'' (Total_Over_Rest (totalLength hdr) len) []]
           else if bodyLength hdr > totalLength hdr
           then [log_error blockcount ''msg'' ''parse'' (Body_Over_Total (bodyLength hdr) (totalLength hdr)) []]
           else if unat (contentLength hdr) > len
           then [log_error blockcount ''msg'' ''parse'' (Content_Over_Rest (contentLength hdr) len) []]
           else [log_error blockcount ''msg'' ''parse'' No_Text []]))"

text \<open>The bytes of a header in memory, in the order of its fields.\<close>

definition header_object :: "host \<Rightarrow> msg_header_t \<Rightarrow> bytes" where
  "header_object h hdr =
     object_bytes h (mbz hdr) @ [chanType hdr] @ [dataType hdr] @ object_bytes h (msgID hdr)
     @ object_bytes h (totalLength hdr) @ object_bytes h (bodyLength hdr)
     @ object_bytes h (contentLength hdr) @ object_bytes h (parityLength hdr)
     @ object_bytes h (sendID hdr) @ object_bytes h (recvID hdr)
     @ object_bytes h (segmentNum hdr) @ object_bytes h (crc hdr)"

text \<open>
  Only the first \<^verbatim>\<open>sizeof(m->head)\<close> bytes, 8 for a pointer, of header and trailer are compared; a difference is
  logged but does not invalidate the message.
\<close>

definition validate_message :: "host \<Rightarrow> msg_t \<Rightarrow> nat \<Rightarrow> nat \<Rightarrow> (bool \<times> log_line list) c_result" where
  "validate_message h m blockcount len =
     (let hdr = head m; fail = (\<lambda>t. Inr (False, [log_error blockcount ''msg'' ''parse'' t []])) in
      if chanType hdr > 1 then fail (Bad_ChanType (chanType hdr))
      else if dataType hdr > 4 then fail (Bad_DataType (dataType hdr))
      else if unat (totalLength hdr) > 65536 then fail (Total_Over_Max (totalLength hdr))
      else if unat (totalLength hdr) > len then fail (Total_Over_Len (totalLength hdr) len)
      else if bodyLength hdr > totalLength hdr then fail (Body_Over_Total (bodyLength hdr) (totalLength hdr))
      else if take 8 (header_object h hdr) \<noteq> take 8 (header_object h (trail m))
      then c_bind (hdcmp (header_object h hdr) (header_object h (trail m)) sizeof_msg_header) (\<lambda>(dist, diffs).
           Inr (True, [log_error blockcount ''msg'' ''head<>trail'' (HD dist) diffs]))
      else Inr (True, []))"

end
