(* ===== verification/Read_Blocks.thy ===== *)
theory Read_Blocks
  imports Handle_Errors
begin

text \<open>
  \<^verbatim>\<open>src/client/read_blocks.c\<close>: the client's receive loop. The socket is the list of the bytes that arrive before the
  end of the stream. The block buffer starts as 8192 zero bytes and grows by 8192 bytes of arbitrary
  content (\<^verbatim>\<open>realloc\<close> does not clear); the decode buffer is not cleared either. \<open>g k\<close> is what the heap
  holds when block \<open>k\<close> is read. The counters are unbounded and allocation succeeds.
\<close>

definition BLOCK_INITIAL_SIZE :: nat where
  "BLOCK_INITIAL_SIZE = 8192"

text \<open>
  The inner loop up to a delimiter (\<open>Some\<close> rest of the input) or the end of the stream (\<open>None\<close>), with the
  buffer and the number of bytes in it.
\<close>

fun fill_buffer :: "garbage \<Rightarrow> bytes \<Rightarrow> nat \<Rightarrow> bytes \<Rightarrow> bytes \<times> nat \<times> bytes option" where
  "fill_buffer g buffer bindex [] = (buffer, bindex, None)"
| "fill_buffer g buffer bindex (c # input) =
     (if c = 0 then (buffer, bindex, Some input)
      else (let buffer = buffer[bindex := c]; bindex = bindex + 1 in
            fill_buffer g (if bindex = length buffer then buffer @ malloc_bytes g BLOCK_INITIAL_SIZE else buffer)
              bindex input))"

text \<open>What happens at a delimiter: the number of valid blocks (0 or 1) and the lines logged.\<close>

definition handle_block :: "host \<Rightarrow> garbage \<Rightarrow> nat \<Rightarrow> bytes \<Rightarrow> nat \<Rightarrow> (nat \<times> log_line list) c_result" where
  "handle_block h g chunkcount buffer bindex =
     (if bindex = 0 then Inr (0, handle_null_packet chunkcount)
      else c_bind (alt_cobs_verify buffer bindex) (\<lambda>ok.
        if \<not> ok then c_bind (handle_cobs_errors h chunkcount buffer bindex) (\<lambda>lines. Inr (0, lines))
        else c_bind (cobs_decode buffer bindex) (\<lambda>out.
          c_bind (mem_write 0 out (malloc_bytes g bindex)) (\<lambda>decode_buffer.
          c_bind (cobs_decoded_length_from_encoded buffer) (\<lambda>dlen.
          c_bind (mem_read 0 dlen decode_buffer) (\<lambda>bs.
          case msg_from_bytes h bs of
            None \<Rightarrow> Inr (0, handle_busted_msg1 h chunkcount buffer dlen)
          | Some m \<Rightarrow>
              c_bind (validate_message h m chunkcount dlen) (\<lambda>(valid, lines).
              Inr (if valid then 1 else 0, lines))))))))"

lemma fill_buffer_rest:
  "fill_buffer g buffer bindex input = (b, i, Some rest) \<Longrightarrow> length rest < length input"
proof (induction input arbitrary: buffer bindex)
  case (Cons c input)
  show ?case
  proof (cases "c = 0")
    case False
    then show ?thesis
      using Cons.prems by (auto simp: Let_def dest!: Cons.IH)
  qed (use Cons.prems in auto)
qed simp

function read_loop ::
    "host \<Rightarrow> (nat \<Rightarrow> garbage) \<Rightarrow> nat \<Rightarrow> nat \<Rightarrow> log_line list \<Rightarrow> bytes \<Rightarrow> (nat \<times> log_line list) c_result" where
  "read_loop h g chunkcount blockcount lines input =
     (case fill_buffer (g (Suc chunkcount)) (replicate BLOCK_INITIAL_SIZE 0) 0 input of
        (buffer, bindex, None) \<Rightarrow> Inr (blockcount, lines)
      | (buffer, bindex, Some rest) \<Rightarrow>
          c_bind (handle_block h (g (Suc chunkcount)) (Suc chunkcount) buffer bindex) (\<lambda>(n, ls).
          read_loop h g (Suc chunkcount) (blockcount + n) (lines @ ls) rest))"
  by pat_completeness auto
termination
  by (relation "measure (\<lambda>(h, g, chunkcount, blockcount, lines, input). length input)")
    (auto dest: fill_buffer_rest [OF sym])

definition read_blocks :: "host \<Rightarrow> (nat \<Rightarrow> garbage) \<Rightarrow> bytes \<Rightarrow> (nat \<times> log_line list) c_result" where
  "read_blocks h g input = read_loop h g 0 0 [] input"

declare read_loop.simps [simp del]

end
