(* ===== verification/Log_Format.thy ===== *)
theory Log_Format
  imports Message
begin

text \<open>
  The text of the log lines: \<^verbatim>\<open>src/server/log.c\<close>, \<^verbatim>\<open>log_error\<close> of \<^verbatim>\<open>src/client/handle_errors.c\<close> and
  \<^verbatim>\<open>src/logging.c\<close>. The conversions of \<^verbatim>\<open>printf\<close> that these files use are defined here. \<^verbatim>\<open>inet_ntoa\<close> formats into
  one static buffer and returns its address, so two calls in one argument list print the address that was
  formatted last; C does not say which one that is, and \<open>src_last\<close> stands for the compiler's choice.
\<close>

subsection \<open>Conversions\<close>

definition digit :: "nat \<Rightarrow> char" where
  "digit n = char_of (48 + n)"

fun dec :: "nat \<Rightarrow> string" where
  "dec n = (if n < 10 then [digit n] else dec (n div 10) @ [digit (n mod 10)])"

definition c_int :: "int \<Rightarrow> string" where
  "c_int i = (if i < 0 then ''-'' @ dec (nat (- i)) else dec (nat i))"

definition c_int_02 :: "int \<Rightarrow> string" where
  "c_int_02 i = (let s = c_int i in replicate (2 - length s) CHR ''0'' @ s)"

definition hex_digit :: "nat \<Rightarrow> char" where
  "hex_digit n = (if n < 10 then char_of (48 + n) else char_of (87 + n))"

definition c_hex_2 :: "uchar8 \<Rightarrow> string" where
  "c_hex_2 b = [hex_digit (unat b div 16), hex_digit (unat b mod 16)]"

record sockaddr_in =
  sin_addr :: "uint8 \<times> uint8 \<times> uint8 \<times> uint8"
  sin_port :: uint16

definition inet_ntoa :: "uint8 \<times> uint8 \<times> uint8 \<times> uint8 \<Rightarrow> string" where
  "inet_ntoa a = (case a of (a, b, c, d) \<Rightarrow>
     dec (unat a) @ ''.'' @ dec (unat b) @ ''.'' @ dec (unat c) @ ''.'' @ dec (unat d))"

definition ntohs :: "host \<Rightarrow> uint16 \<Rightarrow> int" where
  "ntohs h p = uint (c_ntoh h p)"

record tm =
  tm_year :: int
  tm_mon :: int
  tm_mday :: int
  tm_hour :: int
  tm_min :: int
  tm_sec :: int

subsection \<open>The server's log\<close>

definition log_time :: "tm \<Rightarrow> string" where
  "log_time t = c_int (1900 + tm_year t) @ ''.'' @ c_int_02 (1 + tm_mon t) @ ''.'' @ c_int_02 (tm_mday t) @ ''.''
     @ c_int_02 (tm_hour t) @ ''.'' @ c_int_02 (tm_min t) @ ''.'' @ c_int_02 (tm_sec t)"

definition printed_addr :: "bool \<Rightarrow> sockaddr_in \<Rightarrow> sockaddr_in \<Rightarrow> string" where
  "printed_addr src_last src dst = inet_ntoa (sin_addr (if src_last then src else dst))"

definition hipftlog ::
    "host \<Rightarrow> bool \<Rightarrow> tm \<Rightarrow> sockaddr_in \<Rightarrow> sockaddr_in \<Rightarrow> int \<Rightarrow> int \<Rightarrow> int \<Rightarrow> string" where
  "hipftlog h src_last now src dst blockcount bytecount errs =
     log_time now @ '',''
     @ printed_addr src_last src dst @ '','' @ c_int (ntohs h (sin_port src)) @ '',''
     @ printed_addr src_last src dst @ '','' @ c_int (ntohs h (sin_port dst)) @ '',''
     @ c_int blockcount @ '','' @ c_int bytecount @ '','' @ c_int errs @ [CHR 0x0A]"

subsection \<open>Printing bytes\<close>

text \<open>The printing routines of \<^verbatim>\<open>src/justin-snapshot/src/byte_help.c\<close>.\<close>

definition print_hex :: "bytes \<Rightarrow> string" where
  "print_hex src = concat (map (\<lambda>b. c_hex_2 b @ '' '') src) @ [CHR 0x0A]"

definition print_bytes :: "bytes \<Rightarrow> string" where
  "print_bytes src = concat (map (\<lambda>b. [char_of (unat b)] @ '' '') src) @ [CHR 0x0A]"

definition print_string :: "bytes \<Rightarrow> string" where
  "print_string src = concat (map (\<lambda>b. [char_of (unat b)]) src)"

subsection \<open>The client's error log\<close>

definition hex_dump :: "bytes \<Rightarrow> string" where
  "hex_dump pkt = concat (map c_hex_2 pkt)"

text \<open>A null text prints as \<^verbatim>\<open>unknown\<close> or as nothing; a null packet or one without bytes is not dumped.\<close>

definition log_error_text ::
    "sockaddr_in \<Rightarrow> int \<Rightarrow> string \<Rightarrow> string option \<Rightarrow> string option \<Rightarrow> bytes option \<Rightarrow> string" where
  "log_error_text peer bcount ty subtype specific pkt =
     inet_ntoa (sin_addr peer) @ '','' @ c_int bcount @ '','' @ ty @ '',''
     @ (case subtype of None \<Rightarrow> ''unknown'' | Some s \<Rightarrow> s) @ '',''
     @ (case specific of None \<Rightarrow> '''' | Some s \<Rightarrow> s) @ '',''
     @ (case pkt of None \<Rightarrow> '''' | Some p \<Rightarrow> hex_dump p) @ '','' @ [CHR 0x0A]"

subsection \<open>The proposed common logger\<close>

text \<open>
  Each routine of \<^verbatim>\<open>logging.c\<close> writes to two streams; the result is what goes to \<^verbatim>\<open>stdout\<close> and what goes to \<^verbatim>\<open>stderr\<close>.
  \<open>pre\<close> is the text that \<^verbatim>\<open>get_current_time\<close>, \<^verbatim>\<open>__func__\<close>, \<^verbatim>\<open>__FILE__\<close> and \<^verbatim>\<open>__LINE__\<close> produce, as functions of the
  level, which is printed as a signed number.
\<close>

definition BASIC_DEBUG :: uint8 where "BASIC_DEBUG = 1"
definition NETWORK_DEBUG :: uint8 where "NETWORK_DEBUG = 2"
definition SERVER_DEBUG :: uint8 where "SERVER_DEBUG = 4"
definition PARSE_MSG_DEBUG :: uint8 where "PARSE_MSG_DEBUG = 8"

definition log_flags :: uint8 where
  "log_flags = BASIC_DEBUG OR NETWORK_DEBUG OR SERVER_DEBUG OR PARSE_MSG_DEBUG"

definition enabled :: "uint8 \<Rightarrow> uint8 \<Rightarrow> bool" where
  "enabled flags m \<longleftrightarrow> flags AND m = m"

definition log_prefix :: "string \<Rightarrow> uint32 \<Rightarrow> string \<Rightarrow> string" where
  "log_prefix now level place = now @ '' [LOG LEVEL: '' @ c_int (sint level) @ ''] ['' @ place @ ''] ''"

definition log_network_errors ::
    "uint8 \<Rightarrow> string \<Rightarrow> string \<Rightarrow> uint32 \<Rightarrow> sockaddr_in \<Rightarrow> int \<Rightarrow> string \<Rightarrow> string option \<Rightarrow> string option \<Rightarrow> bytes option
     \<Rightarrow> string \<times> string" where
  "log_network_errors flags now place level peer bcount ty subtype specific pkt =
     (if enabled flags NETWORK_DEBUG
      then (inet_ntoa (sin_addr peer) @ '','' @ c_int bcount @ '','' @ ty @ '',''
              @ (case subtype of None \<Rightarrow> ''unknown'' | Some s \<Rightarrow> s) @ '',''
              @ (case specific of None \<Rightarrow> '''' | Some s \<Rightarrow> s) @ '','' @ '','' @ [CHR 0x0A],
            log_prefix now level place @ (case pkt of None \<Rightarrow> '''' | Some p \<Rightarrow> hex_dump p))
      else ('''', ''''))"

text \<open>The formatted message of \<^verbatim>\<open>log_trace_msg\<close> is an argument.\<close>

definition log_trace_msg :: "uint8 \<Rightarrow> string \<Rightarrow> string \<Rightarrow> uint32 \<Rightarrow> string \<Rightarrow> string \<times> string" where
  "log_trace_msg flags now place level message =
     (if enabled flags BASIC_DEBUG then ('','' @ [CHR 0x0A], log_prefix now level place @ message) else ('''', ''''))"

definition log_server_errors ::
    "host \<Rightarrow> bool \<Rightarrow> uint8 \<Rightarrow> string \<Rightarrow> string \<Rightarrow> uint32 \<Rightarrow> sockaddr_in \<Rightarrow> sockaddr_in \<Rightarrow> int \<Rightarrow> int \<Rightarrow> int \<Rightarrow> string \<times> string" where
  "log_server_errors h src_last flags now place level src dst blockcount bytecount errs =
     (if enabled flags SERVER_DEBUG
      then (log_prefix now level place
              @ printed_addr src_last src dst @ '':'' @ c_int (ntohs h (sin_port src)) @ '',''
              @ printed_addr src_last src dst @ '':'' @ c_int (ntohs h (sin_port dst)) @ '',''
              @ c_int blockcount @ '','' @ c_int bytecount @ '','' @ c_int errs @ [CHR 0x0A], '''')
      else ('''', ''''))"

definition log_parse_msg_error ::
    "uint8 \<Rightarrow> string \<Rightarrow> string \<Rightarrow> uint32 \<Rightarrow> sockaddr_in \<Rightarrow> int \<Rightarrow> string option \<Rightarrow> string option \<Rightarrow> bytes option \<Rightarrow> string \<times> string" where
  "log_parse_msg_error flags now place level peer bcount subtype specific pkt =
     (if enabled flags PARSE_MSG_DEBUG
      then (inet_ntoa (sin_addr peer) @ '','' @ c_int bcount @ '',''
              @ (case subtype of None \<Rightarrow> ''unknown'' | Some s \<Rightarrow> s) @ '',''
              @ (case specific of None \<Rightarrow> '''' | Some s \<Rightarrow> s) @ '','' @ '','' @ [CHR 0x0A],
            log_prefix now level place @ (case pkt of None \<Rightarrow> '''' | Some p \<Rightarrow> hex_dump p))
      else ('''', ''''))"

text \<open>
  The time stamp. \<^verbatim>\<open>strftime\<close> fills a static buffer of 24 bytes; when text and final zero byte do not fit, the contents of the
  buffer are unspecified (\<open>None\<close>). Years have at least four digits.
\<close>

definition strftime_stamp :: "tm \<Rightarrow> string" where
  "strftime_stamp t = c_int (1900 + tm_year t) @ ''-'' @ c_int_02 (1 + tm_mon t) @ ''-'' @ c_int_02 (tm_mday t) @ '' ''
     @ c_int_02 (tm_hour t) @ '':'' @ c_int_02 (tm_min t) @ '':'' @ c_int_02 (tm_sec t)"

definition get_current_time :: "tm \<Rightarrow> string option" where
  "get_current_time t = (if length (strftime_stamp t) < 24 then Some (strftime_stamp t) else None)"

text \<open>
  The demonstration program: a free message, a network error and a server record for the address 129.82.45.22 and port 9999;
  \<open>place f l\<close> is the text for function \<open>f\<close> and line \<open>l\<close>.
\<close>

definition logger_main :: "host \<Rightarrow> bool \<Rightarrow> string \<Rightarrow> (string \<Rightarrow> nat \<Rightarrow> string) \<Rightarrow> string \<times> string" where
  "logger_main h src_last now place =
     (let sin = \<lparr>sin_addr = (129, 82, 45, 22), sin_port = c_hton h 9999\<rparr>;
          (o1, e1) = log_trace_msg log_flags now (place ''log_trace_msg'' 110) (ucast BASIC_DEBUG) ''This is a freeformed debug message'';
          (o2, e2) = log_network_errors log_flags now (place ''log_network_errors'' 79) (ucast NETWORK_DEBUG) sin 0 ''cobs'' (Some ''null packet'') None None;
          (o3, e3) = log_server_errors h src_last log_flags now (place ''log_server_errors'' 125) (ucast SERVER_DEBUG) sin sin 0 0 0 in
      (o1 @ o2 @ o3, e1 @ e2 @ e3))"

subsection \<open>Reading a line back\<close>

fun split_fields :: "string \<Rightarrow> string list" where
  "split_fields [] = [[]]"
| "split_fields (c # s) =
     (if c = CHR '','' then [] # split_fields s
      else (case split_fields s of [] \<Rightarrow> [[c]] | f # fs \<Rightarrow> (c # f) # fs))"

definition hex_value :: "char \<Rightarrow> nat" where
  "hex_value c = (let n = of_char c in if n < 58 then n - 48 else n - 87)"

fun undump :: "string \<Rightarrow> bytes" where
  "undump (a # b # s) = word_of_nat (16 * hex_value a + hex_value b) # undump s"
| "undump s = []"

declare dec.simps [simp del]

end
