(* ===== verification/Transfer_Server.thy ===== *)
theory Transfer_Server
  imports File_Transfer Read_Blocks Log_Format
begin

text \<open>
  The main programs of the block transfer: \<^verbatim>\<open>src/server/main.c\<close>, \<^verbatim>\<open>src/server/server.c\<close> and \<^verbatim>\<open>src/client/main.c\<close>. The
  results of the system calls are arguments, as the numbers the calls return; the model records which
  descriptors stay open and which processes serve which connection.
\<close>

definition HIPFT_PORT :: nat where
  "HIPFT_PORT = 7771"

definition HIPFT_BLOCK_SIZE :: nat where
  "HIPFT_BLOCK_SIZE = 4096"

subsection \<open>Starting the server\<close>

text \<open>The result of \<^verbatim>\<open>start_server\<close> and the descriptors closed on the way.\<close>

definition start_server :: "int \<Rightarrow> int \<Rightarrow> int \<Rightarrow> int \<Rightarrow> int \<times> int list" where
  "start_server s bound listening sigact =
     (if s < 0 then (- 1, [s])
      else if bound < 0 then (- 1, [s])
      else if listening < 0 then (- 1, [s])
      else if sigact \<noteq> 0 then (- 1, [s])
      else (s, []))"

text \<open>
  \<^verbatim>\<open>init\<close> sets the block size. \<^verbatim>\<open>secure\<close> needs the time, the directory and the log file, whose name is built from
  the time; its result is the exit status and the name of the file that receives the log.
\<close>

definition init :: nat where
  "init = HIPFT_BLOCK_SIZE"

definition c_int_prec :: "nat \<Rightarrow> int \<Rightarrow> string" where
  "c_int_prec p i = (if i < 0 then ''-'' @ replicate (p - length (dec (nat (- i)))) CHR ''0'' @ dec (nat (- i))
     else replicate (p - length (dec (nat i))) CHR ''0'' @ dec (nat i))"

definition log_name :: "tm \<Rightarrow> string" where
  "log_name t = ''log/s.'' @ c_int_prec 4 (tm_year t + 1900) @ ''.'' @ c_int_prec 2 (tm_mon t + 1) @ c_int_prec 2 (tm_mday t)
     @ ''.'' @ c_int_prec 2 (tm_hour t) @ c_int_prec 2 (tm_min t) @ c_int_prec 2 (tm_sec t) @ ''.csv''"

definition secure :: "bool \<Rightarrow> tm option \<Rightarrow> int \<Rightarrow> (string \<Rightarrow> bool) \<Rightarrow> int \<times> string option" where
  "secure time_ok now_tm chdir_r reopens =
     (if \<not> time_ok then (1, None)
      else (case now_tm of
        None \<Rightarrow> (1, None)
      | Some t \<Rightarrow>
          if chdir_r \<noteq> 0 then (1, None)
          else if \<not> reopens (take 1023 (log_name t)) then (1, None)
          else (0, Some (take 1023 (log_name t)))))"

subsection \<open>Serving connections\<close>

text \<open>
  Each round of \<^verbatim>\<open>run_server\<close> is a pair: what \<^verbatim>\<open>accept\<close> and, if it is called, what \<^verbatim>\<open>fork\<close> returns in the parent. A
  successful fork starts a child that serves the connection and exits.
\<close>

record server_run =
  open_conns :: "int list"
  children :: "(int \<times> int) list"

datatype run_status = Accepting | Accept_Ended | Fork_Failed

fun run_server :: "(int \<times> int) list \<Rightarrow> server_run \<Rightarrow> run_status \<times> server_run" where
  "run_server [] r = (Accepting, r)"
| "run_server ((s2, f) # evs) r =
     (if s2 > 0 then
        (if f < 0 then (Fork_Failed, r\<lparr>open_conns := open_conns r @ [s2]\<rparr>)
         else run_server evs (r\<lparr>children := children r @ [(f, s2)]\<rparr>))
      else (Accept_Ended, r))"

text \<open>What a child does with its connection.\<close>

definition serve_child ::
    "host \<Rightarrow> garbage \<Rightarrow> (nat \<Rightarrow> uint64) \<Rightarrow> ship_state \<Rightarrow> dirent list option \<Rightarrow> bool \<Rightarrow> (ship_state \<times> transfer_totals option) c_result" where
  "serve_child h g rnd s dir fails = run_file_transfer h g rnd init s dir fails"

definition server_main :: "bool \<Rightarrow> tm option \<Rightarrow> int \<Rightarrow> (string \<Rightarrow> bool) \<Rightarrow> int \<Rightarrow> int \<Rightarrow> int \<Rightarrow> int \<Rightarrow> (int \<times> int) list
     \<Rightarrow> int option \<times> server_run" where
  "server_main time_ok now_tm chdir_r reopens s bound listening sigact evs =
     (let idle = \<lparr>open_conns = [], children = []\<rparr> in
      if fst (secure time_ok now_tm chdir_r reopens) \<noteq> 0 then (Some 1, idle)
      else if fst (start_server s bound listening sigact) < 0 then (Some 1, idle)
      else (case run_server evs idle of
        (Accepting, r) \<Rightarrow> (None, r)
      | (_, r) \<Rightarrow> (Some 0, r)))"

subsection \<open>Cleaning up children\<close>

text \<open>
  A child that exits stays in the process table until the parent waits for it. What happens to the server, in order, is an
  argument: a fork, the exit of a child, or the arrival of \<^verbatim>\<open>SIGCHLD\<close>, on which the handler \<^verbatim>\<open>reaper\<close> runs. Its call of \<^verbatim>\<open>wait\<close> takes one
  terminated child; without one it returns at once if there is no child at all, and otherwise the server hangs in the handler
  (\<open>None\<close>).
\<close>

record child_table =
  running :: nat
  zombies :: nat

datatype child_event = Forked | Exited | Signalled

definition SIGCHLD :: int where
  "SIGCHLD = 17"

definition reaper :: "int \<Rightarrow> child_table \<Rightarrow> child_table option" where
  "reaper signal_number c =
     (if signal_number \<noteq> SIGCHLD then Some c
      else if 0 < zombies c then Some (c\<lparr>zombies := zombies c - 1\<rparr>)
      else if running c = 0 then Some c
      else None)"

fun child_run :: "child_event list \<Rightarrow> child_table \<Rightarrow> child_table option" where
  "child_run [] c = Some c"
| "child_run (Forked # es) c = child_run es (c\<lparr>running := running c + 1\<rparr>)"
| "child_run (Exited # es) c = child_run es (c\<lparr>running := running c - 1, zombies := zombies c + 1\<rparr>)"
| "child_run (Signalled # es) c = Option.bind (reaper SIGCHLD c) (child_run es)"

subsection \<open>The client\<close>

text \<open>The exit status of the client and the number of blocks it reports.\<close>

definition client_main ::
    "host \<Rightarrow> (nat \<Rightarrow> garbage) \<Rightarrow> int \<Rightarrow> int \<Rightarrow> int \<Rightarrow> bytes \<Rightarrow> (int \<times> nat option) c_result" where
  "client_main h g s opt connected input =
     (if s < 0 then Inr (1, None)
      else if opt < 0 then Inr (1, None)
      else if connected \<noteq> 0 then Inr (1, None)
      else c_bind (read_blocks h g input) (\<lambda>(n, lines). Inr (0, Some n)))"

end
