(* ===== verification/Read_Blocks_Correct.thy ===== *)
theory Read_Blocks_Correct
  imports Read_Blocks Socket_Msg
begin

text \<open>
  Theorems on the client's receive loop: it never leaves its buffers while blocks stay below the initial
  buffer size, whatever bytes arrive, and it counts every block that the sender framed.
\<close>

text \<open>Between delimiters there are always fewer than \<open>k\<close> bytes; \<open>r\<close> is the length of the current run.\<close>

fun runs_below :: "nat \<Rightarrow> nat \<Rightarrow> bytes \<Rightarrow> bool" where
  "runs_below k r [] \<longleftrightarrow> True"
| "runs_below k r (b # bs) \<longleftrightarrow>
     (if b = 0 then runs_below k 0 bs else Suc r < k \<and> runs_below k (Suc r) bs)"

text \<open>The blocks of a stream: what stands before each delimiter.\<close>

fun blocks_in :: "bytes \<Rightarrow> bytes \<Rightarrow> bytes list" where
  "blocks_in w [] = []"
| "blocks_in w (b # bs) = (if b = 0 then w # blocks_in [] bs else blocks_in (w @ [b]) bs)"

text \<open>A block whose markers are damaged although its first 56 bytes can be decoded and announce a length that fits.\<close>

definition smashed :: "host \<Rightarrow> bytes \<Rightarrow> bool" where
  "smashed h w \<longleftrightarrow> alt_cobs_verify w (length w) = Inr False
     \<and> (case cobs_partial_decode w sizeof_msg_header of
          (n, mh) \<Rightarrow> n = sizeof_msg_header \<and> unat (c_ntoh h (field h 8 4 mh :: uint32)) \<le> length w)"

text \<open>A message as the sender forms it whose frame fits in the receiver's first buffer.\<close>

definition sendable :: "msg_t \<Rightarrow> bool" where
  "sendable m \<longleftrightarrow> wf_msg m \<and> trail m = head m \<and> crc (head m) = 0 \<and> chanType (head m) \<le> 1 \<and> dataType (head m) \<le> 4
     \<and> unat (totalLength (head m)) = length (msg_wire m) \<and> bodyLength (head m) \<le> totalLength (head m)
     \<and> length (cobs_blocks [] (msg_wire m)) < 8192"

subsection \<open>The buffer\<close>

lemma fill_buffer_none: "0 \<notin> set input \<Longrightarrow> \<exists>b i. fill_buffer g buffer bindex input = (b, i, None)"
  by (induction input arbitrary: buffer bindex) (simp_all add: Let_def)

lemma fill_buffer_delim:
  "0 \<notin> set w \<Longrightarrow> bindex + length w < length buffer \<Longrightarrow>
   fill_buffer g buffer bindex (w @ 0 # rest) =
     (take bindex buffer @ w @ drop (bindex + length w) buffer, bindex + length w, Some rest)"
proof (induction w arbitrary: buffer bindex)
  case (Cons c w)
  have "fill_buffer g buffer bindex ((c # w) @ 0 # rest) = fill_buffer g (buffer[bindex := c]) (Suc bindex) (w @ 0 # rest)"
    using Cons.prems by (auto simp: Let_def)
  also have "\<dots> = (take (Suc bindex) (buffer[bindex := c]) @ w @ drop (Suc bindex + length w) (buffer[bindex := c]),
      Suc bindex + length w, Some rest)"
    using Cons.prems by (intro Cons.IH) auto
  finally show ?case
    using Cons.prems by (simp add: take_Suc_conv_app_nth)
qed simp

lemma fill_buffer_block:
  assumes "0 \<notin> set w" "length w < 8192"
  shows "fill_buffer g (replicate BLOCK_INITIAL_SIZE 0) 0 (w @ 0 # rest) =
     (w @ 0 # replicate (8191 - length w) 0, length w, Some rest)"
proof -
  have "replicate (8192 - length w) 0 = 0 # replicate (8191 - length w) (0 :: uchar8)"
  proof -
    have "8192 - length w = Suc (8191 - length w)"
      using assms(2) by linarith
    then show ?thesis
      by (simp only: replicate_Suc)
  qed
  then show ?thesis
    using fill_buffer_delim [OF assms(1), of 0 "replicate BLOCK_INITIAL_SIZE 0" g rest] assms(2)
    by (simp add: BLOCK_INITIAL_SIZE_def)
qed

lemma blocks_in_none: "0 \<notin> set input \<Longrightarrow> blocks_in w input = []"
  by (induction input arbitrary: w) auto

lemma blocks_in_block: "0 \<notin> set w \<Longrightarrow> blocks_in v (w @ 0 # rest) = (v @ w) # blocks_in [] rest"
  by (induction w arbitrary: v) auto

lemma read_loop_none: "0 \<notin> set input \<Longrightarrow> read_loop h g k n ls input = Inr (n, ls)"
  using fill_buffer_none [of input "g (Suc k)" "replicate BLOCK_INITIAL_SIZE 0" 0]
  by (subst read_loop.simps) auto

lemma read_loop_block:
  assumes "0 \<notin> set w" "length w < 8192"
  shows "read_loop h g k n ls (w @ 0 # rest) =
     c_bind (handle_block h (g (Suc k)) (Suc k) (w @ 0 # replicate (8191 - length w) 0) (length w)) (\<lambda>(m, l).
       read_loop h g (Suc k) (n + m) (ls @ l) rest)"
  by (subst read_loop.simps) (simp add: fill_buffer_block [OF assms])

lemma runs_below_split:
  assumes "runs_below k r input" "0 \<in> set input" "r < k"
  obtains w rest where "input = w @ 0 # rest" "0 \<notin> set w" "r + length w < k" "runs_below k 0 rest"
proof -
  have "\<exists>w rest. input = w @ 0 # rest \<and> 0 \<notin> set w \<and> r + length w < k \<and> runs_below k 0 rest"
    using assms
  proof (induction input arbitrary: r)
    case (Cons b input)
    show ?case
    proof (cases "b = 0")
      case True
      then show ?thesis
        using Cons.prems by (intro exI [of _ "[]"] exI [of _ input]) simp
    next
      case False
      then obtain w rest where "input = w @ 0 # rest" "0 \<notin> set w" "Suc r + length w < k" "runs_below k 0 rest"
        using Cons.IH [of "Suc r"] Cons.prems by auto
      then show ?thesis
        using False by (intro exI [of _ "b # w"] exI [of _ rest]) simp
    qed
  qed simp
  then show thesis
    using that by blast
qed

subsection \<open>One block\<close>

lemma length_header_object [simp]: "length (header_object h hdr) = 56"
  by (simp add: header_object_def)

lemma validate_message_total: "\<exists>r. validate_message h m k len = Inr r"
proof -
  have "\<exists>d. hdcmp (header_object h (head m)) (header_object h (trail m)) sizeof_msg_header = Inr d"
    by (simp add: hdcmp_def sizeof_msg_header_def)
  then show ?thesis
    by (auto simp: validate_message_def Let_def split_beta)
qed

lemma handle_block_verified:
  assumes "cobs_valid w" "w \<noteq> []"
  obtains out z where "cobs_decode (w @ 0 # junk) (Suc (length w)) = Inr (out @ z)"
    "cobs_decode (w @ 0 # junk) (length w) = Inr out" "z = [] \<or> z = [0]" "length out + length z \<le> length w"
    "handle_block h g k (w @ 0 # junk) (length w) =
       (case msg_from_bytes h (take (length out + length z) (out @ map g [length out..<length w])) of
          None \<Rightarrow> Inr (0, handle_busted_msg1 h k (w @ 0 # junk) (length out + length z))
        | Some m \<Rightarrow> c_bind (validate_message h m k (length out + length z)) (\<lambda>(valid, ls). Inr (if valid then 1 else 0, ls)))"
proof -
  obtain out z where d: "cobs_decode (w @ 0 # junk) (length w) = Inr out"
    "cobs_decode (w @ 0 # junk) (Suc (length w)) = Inr (out @ z)"
    "cobs_decoded_length_from_encoded (w @ 0 # junk) = Inr (length out + length z)"
    "z = [] \<or> z = [0]" "length out \<le> length w - 1"
    by (rule cobs_valid_block [OF assms(1)])
  have le: "length out + length z \<le> length w" "length out \<le> length w"
    using d(4,5) assms(2) by (cases w; auto)+
  have v: "alt_cobs_verify (w @ 0 # junk) (length w) = Inr True"
    using assms(1) by (simp add: alt_cobs_verify_valid)
  have w: "mem_write 0 out (malloc_bytes g (length w)) = Inr (out @ map g [length out..<length w])"
    using le by (simp add: mem_write_def malloc_bytes_def drop_map)
  have r: "mem_read 0 (length out + length z) (out @ map g [length out..<length w]) =
      Inr (take (length out + length z) (out @ map g [length out..<length w]))"
    using le by (simp add: mem_read_def)
  show thesis
    by (rule that [OF d(2,1,4) le(1)]) (simp add: handle_block_def v w r d assms(2))
qed

lemma handle_block_result:
  assumes "0 \<notin> set w"
  shows "if smashed h w then handle_block h g k (w @ 0 # junk) (length w) = Inl Uninitialised_Use
     else \<exists>r. handle_block h g k (w @ 0 # junk) (length w) = Inr r"
proof (cases "w \<noteq> [] \<and> cobs_valid w")
  case True
  then have "cobs_valid w" "w \<noteq> []" by auto
  then have "\<exists>r. handle_block h g k (w @ 0 # junk) (length w) = Inr r"
  proof (rule handle_block_verified [where junk = junk and h = h and g = g and k = k])
    fix out z
    assume hb: "handle_block h g k (w @ 0 # junk) (length w) =
       (case msg_from_bytes h (take (length out + length z) (out @ map g [length out..<length w])) of
          None \<Rightarrow> Inr (0, handle_busted_msg1 h k (w @ 0 # junk) (length out + length z))
        | Some m \<Rightarrow> c_bind (validate_message h m k (length out + length z)) (\<lambda>(valid, ls). Inr (if valid then 1 else 0, ls)))"
    show ?thesis
    proof (cases "msg_from_bytes h (take (length out + length z) (out @ map g [length out..<length w]))")
      case (Some m)
      obtain v ls where "validate_message h m k (length out + length z) = Inr (v, ls)"
        using validate_message_total by fast
      then show ?thesis
        unfolding hb Some by simp
    next
      case None
      then show ?thesis
        unfolding hb None by simp
    qed
  qed
  then show ?thesis using True by (simp add: smashed_def alt_cobs_verify_valid)
next
  case False
  then show ?thesis
    by (cases "w = []") (auto simp: handle_block_def smashed_def alt_cobs_verify_valid handle_cobs_errors_def hce_try_header_def
        Let_def split: prod.splits)
qed

lemma read_loop_result:
  "runs_below 8192 0 input \<Longrightarrow>
   if list_all (\<lambda>w. \<not> smashed h w) (blocks_in [] input) then \<exists>r. read_loop h g k n ls input = Inr r
   else read_loop h g k n ls input = Inl Uninitialised_Use"
proof (induction "length input" arbitrary: input k n ls rule: less_induct)
  case less
  show ?case
  proof (cases "0 \<in> set input")
    case False
    then show ?thesis
      by (simp add: read_loop_none blocks_in_none)
  next
    case True
    then obtain w rest where w: "input = w @ 0 # rest" "0 \<notin> set w" "length w < 8192" "runs_below 8192 0 rest"
      using runs_below_split [OF less.prems] by auto
    have shorter: "length rest < length input" by (simp add: w(1))
    show ?thesis
      using handle_block_result [OF w(2), of h "g (Suc k)" "Suc k" "replicate (8191 - length w) 0"] less.hyps [OF shorter w(4)]
      by (auto simp: w(1) blocks_in_block [OF w(2)] read_loop_block [OF w(2,3)] split: if_splits)
  qed
qed

subsection \<open>Frames of messages\<close>

lemma header_wire_front:
  "mbz hdr = be_fold (take 2 (header_wire hdr))" "chanType hdr = header_wire hdr ! 2" "dataType hdr = header_wire hdr ! 3"
  "msgID hdr = be_fold (take 4 (drop 4 (header_wire hdr)))"
  by (simp_all add: header_wire_def take_drop_pieces nth_append)

text \<open>
  The block reader leaves the last byte of a message, part of the trailer's CRC, uninitialised. Whatever it
  is, the message parses with the header and content that were sent.
\<close>

lemma last_byte_harmless:
  assumes "wf_msg m"
  obtains tr where "msg_from_bytes h (butlast (msg_wire m) @ [x]) = Some (m\<lparr>trail := tr\<rparr>)"
    "mbz tr = mbz (trail m)" "chanType tr = chanType (trail m)" "dataType tr = dataType (trail m)" "msgID tr = msgID (trail m)"
proof -
  obtain tr where tr: "header_wire tr = (header_wire (trail m))[55 := x]"
    using header_wire_surj [of "(header_wire (trail m))[55 := x]"] by auto
  have "butlast (header_wire (trail m)) @ [x] = (header_wire (trail m))[55 := x]"
    by (intro nth_equalityI) (auto simp: nth_append nth_butlast nth_list_update less_Suc_eq)
  moreover have "header_wire (trail m) \<noteq> []"
    using length_header_wire [of "trail m"] by (metis list.size(3) zero_neq_numeral)
  ultimately have "butlast (msg_wire m) @ [x] = msg_wire (m\<lparr>trail := tr\<rparr>)"
    by (simp add: msg_wire_def butlast_append tr)
  moreover have "layout_ok (m\<lparr>trail := tr\<rparr>)"
    using wf_msg_layout [OF assms] by (simp add: layout_ok_def)
  ultimately show thesis
    by (intro that [of tr]) (simp_all add: msg_from_bytes_Some_iff header_wire_front tr drop_update_swap)
qed

lemma handle_block_message:
  assumes "sendable m"
  shows "handle_block h g k (cobs_blocks [] (msg_wire m) @ 0 # junk) (length (cobs_blocks [] (msg_wire m))) = Inr (1, [])"
proof -
  let ?wire = "msg_wire m" and ?w = "cobs_blocks [] (msg_wire m)"
  have wf: "wf_msg m" and tr: "trail m = head m" "crc (trail m) = 0"
    using assms by (simp_all add: sendable_def)
  note wire = last_msg_wire [OF tr(2)]
  have len: "length ?wire \<le> length ?w" "length ?w < 8192"
    using length_cobs_blocks_ge [of "[]" ?wire] assms by (simp_all add: sendable_def)
  have "cobs_valid ?w" "?w \<noteq> []"
    using wire(1) by (simp_all add: cobs_blocks_valid cobs_blocks_Nil_iff)
  then show ?thesis
  proof (rule handle_block_verified [where junk = junk and h = h and g = g and k = k])
    fix out z
    assume d1: "cobs_decode (?w @ 0 # junk) (Suc (length ?w)) = Inr (out @ z)"
      and d2: "cobs_decode (?w @ 0 # junk) (length ?w) = Inr out"
      and hb: "handle_block h g k (?w @ 0 # junk) (length ?w) =
       (case msg_from_bytes h (take (length out + length z) (out @ map g [length out..<length ?w])) of
          None \<Rightarrow> Inr (0, handle_busted_msg1 h k (?w @ 0 # junk) (length out + length z))
        | Some m \<Rightarrow> c_bind (validate_message h m k (length out + length z)) (\<lambda>(valid, ls). Inr (if valid then 1 else 0, ls)))"
    have o: "out @ z = ?wire" "out = butlast ?wire"
      using d1 d2 decode_blocks_terminated [of "[]" ?wire junk] decode_blocks_unterminated [of "[]" ?wire "0 # junk"] wire
      by (simp_all add: cobs_decode_def)
    then have l: "length out + length z = length ?wire" "Suc (length out) = length ?wire"
      using wire(1) by (metis length_append, simp)
    have "[length out..<length ?w] = length out # [Suc (length out)..<length ?w]"
      using l(2) len(1) by (intro upt_conv_Cons) simp
    then have bs: "take (length out + length z) (out @ map g [length out..<length ?w]) = butlast ?wire @ [g (length out)]"
      using l o(2) by simp
    obtain t where t: "msg_from_bytes h (butlast ?wire @ [g (length out)]) = Some (m\<lparr>trail := t\<rparr>)"
      "mbz t = mbz (head m)" "chanType t = chanType (head m)" "dataType t = dataType (head m)" "msgID t = msgID (head m)"
      using last_byte_harmless [OF wf, of h "g (length out)"] tr(1) by metis
    have "take 8 (header_object h t) = take 8 (header_object h (head m))"
      by (simp add: header_object_def t)
    then have "validate_message h (m\<lparr>trail := t\<rparr>) k (length ?wire) = Inr (True, [])"
      using assms len by (auto simp: sendable_def validate_message_def Let_def)
    then show ?thesis
      unfolding hb unfolding bs unfolding l(1) t(1) by simp
  qed
qed

lemma read_loop_messages:
  "\<forall>m \<in> set ms. sendable m \<Longrightarrow>
   read_loop h g k n ls (concat (map (\<lambda>m. cobs_encode gs (msg_wire m)) ms)) = Inr (n + length ms, ls)"
proof (induction ms arbitrary: k n ls)
  case Nil
  then show ?case
    by (simp add: read_loop_none)
next
  case (Cons m ms)
  have m: "0 \<notin> set (cobs_blocks [] (msg_wire m))" "length (cobs_blocks [] (msg_wire m)) < 8192"
    using Cons.prems by (simp_all add: sendable_def cobs_blocks_no_zero)
  then show ?case
    using Cons by (simp add: cobs_encode_blocks read_loop_block handle_block_message)
qed

subsection \<open>A block that outgrows the first buffer\<close>

lemma fill_buffer_prefix:
  "0 \<notin> set w \<Longrightarrow> bindex + length w < length buffer \<Longrightarrow>
   fill_buffer g buffer bindex (w @ cs) =
     fill_buffer g (take bindex buffer @ w @ drop (bindex + length w) buffer) (bindex + length w) cs"
proof (induction w arbitrary: buffer bindex)
  case (Cons c w)
  have "fill_buffer g buffer bindex ((c # w) @ cs) = fill_buffer g (buffer[bindex := c]) (Suc bindex) (w @ cs)"
    using Cons.prems by (auto simp: Let_def)
  also have "\<dots> = fill_buffer g (take (Suc bindex) (buffer[bindex := c]) @ w @ drop (Suc bindex + length w) (buffer[bindex := c]))
      (Suc bindex + length w) cs"
    using Cons.prems by (intro Cons.IH) auto
  finally show ?case
    using Cons.prems by (simp add: take_Suc_conv_app_nth)
qed simp

lemma fill_buffer_grow:
  assumes "0 \<notin> set w" "c \<noteq> 0" "length w = 8191"
  shows "fill_buffer g (replicate BLOCK_INITIAL_SIZE 0) 0 (w @ c # 0 # rest) =
     (w @ c # malloc_bytes g BLOCK_INITIAL_SIZE, 8192, Some rest)"
proof -
  have "drop 8191 (replicate BLOCK_INITIAL_SIZE (0 :: uchar8)) = [0]"
    by (simp add: BLOCK_INITIAL_SIZE_def)
  then show ?thesis
    using fill_buffer_prefix [OF assms(1), of 0 "replicate BLOCK_INITIAL_SIZE 0" g "c # 0 # rest"] assms(2,3)
    by (simp add: BLOCK_INITIAL_SIZE_def Let_def list_update_append)
qed

lemma scan_without_zero: "0 \<notin> set xs \<Longrightarrow> cobs_encoded_length_from_encoded xs = Inl OOB_Read"
  by (induction xs) (auto simp: SPECIAL_CHAR_def)

lemma cobs_valid_ones: "cobs_valid (replicate n 1)"
  by (induction n) simp_all

subsection \<open>Properties\<close>

text \<open>
  C10. Memory safety of the receiver, exactly: as long as fewer than 8192 bytes arrive between delimiters, the client's loop
  processes every input to its end, for any bytes and any heap contents, without an access outside
  its buffers, a failed assertion or an endless loop, unless a block is smashed: its markers are damaged, but a header whose
  announced length fits can still be decoded. Then, and only then, the log line is printed from a buffer that was
  never filled.
\<close>

theorem read_blocks_safe:
  assumes "runs_below 8192 0 input"
  shows "(list_all (\<lambda>w. \<not> smashed h w) (blocks_in [] input) \<longrightarrow> (\<exists>blockcount lines. read_blocks h g input = Inr (blockcount, lines)))
     \<and> (\<not> list_all (\<lambda>w. \<not> smashed h w) (blocks_in [] input) \<longrightarrow> read_blocks h g input = Inl Uninitialised_Use)"
  using read_loop_result [OF assms, of h g 0 0 "[]"] by (auto simp: read_blocks_def split: if_splits)

text \<open>A damaged block of 58 bytes: 57 blocks of no data, then a marker that leads outside.\<close>

definition sample_smashed :: bytes where
  "sample_smashed = replicate 57 1 @ [9]"

lemma sample_smashed: "smashed Little_Host sample_smashed"
proof -
  have "cobs_partial_decode sample_smashed sizeof_msg_header = (56, replicate 56 0)" by code_simp
  moreover have "\<not> cobs_valid sample_smashed" by code_simp
  ultimately show ?thesis
    by (simp add: smashed_def alt_cobs_verify_valid sizeof_msg_header_def) code_simp
qed

theorem read_blocks_safe_witness:
  "(\<exists>blockcount lines. read_blocks Little_Host (\<lambda>_ _. 5) [3, 1, 0, 0, 200, 1, 0, 7] = Inr (blockcount, lines))
   \<and> read_blocks Little_Host (\<lambda>_ _. 5) ([2, 7, 0] @ sample_smashed @ [0]) = Inl Uninitialised_Use"
proof
  have "list_all (\<lambda>w. \<not> smashed Little_Host w) (blocks_in [] [3, 1, 0, 0, 200, 1, 0, 7])"
    by (simp add: smashed_def cobs_partial_decode_def sizeof_msg_header_def)
  then show "\<exists>blockcount lines. read_blocks Little_Host (\<lambda>_ _. 5) [3, 1, 0, 0, 200, 1, 0, 7] = Inr (blockcount, lines)"
    using read_blocks_safe [of "[3, 1, 0, 0, 200, 1, 0, 7]" Little_Host "\<lambda>_ _. 5"] by simp
  have z: "0 \<notin> set sample_smashed" by (simp add: sample_smashed_def)
  have "runs_below 8192 0 ([2, 7, 0] @ sample_smashed @ [0])" by code_simp
  moreover have "blocks_in [] ([2, 7, 0] @ sample_smashed @ [0]) = [[2, 7], sample_smashed]"
    using blocks_in_block [OF z, of "[]" "[]"] by simp
  ultimately show "read_blocks Little_Host (\<lambda>_ _. 5) ([2, 7, 0] @ sample_smashed @ [0]) = Inl Uninitialised_Use"
    using read_blocks_safe [of "[2, 7, 0] @ sample_smashed @ [0]" Little_Host "\<lambda>_ _. 5"] sample_smashed by simp
qed

text \<open>
  C36. The bound is sharp: with 8192 bytes before the delimiter the buffer has been enlarged by memory that nobody
  cleared, and the scan for the delimiter, which was never stored, can leave the buffer.
\<close>

theorem read_blocks_overrun:
  "read_blocks h (\<lambda>_ _. 1) (replicate 8191 1 @ 1 # 0 # rest) = Inl OOB_Read"
proof -
  let ?w = "replicate 8191 (1 :: uchar8)" and ?b = "replicate 8191 1 @ 1 # malloc_bytes (\<lambda>_. 1) BLOCK_INITIAL_SIZE"
  have fill: "fill_buffer (\<lambda>_. 1) (replicate BLOCK_INITIAL_SIZE 0) 0 (?w @ 1 # 0 # rest) = (?b, 8192, Some rest)"
    by (rule fill_buffer_grow) simp_all
  have ones: "replicate 8191 1 @ [1] = replicate 8192 (1 :: uchar8)"
    using replicate_app_Cons_same [of 8191 "1 :: uchar8" "[]"] replicate_add [of 8191 1 "1 :: uchar8"] by simp
  have "?b = (replicate 8191 1 @ [1]) @ malloc_bytes (\<lambda>_. 1) BLOCK_INITIAL_SIZE"
    by simp
  then have b: "?b = replicate 8192 1 @ replicate 8192 1"
    unfolding ones by (simp only: malloc_bytes_def BLOCK_INITIAL_SIZE_def map_replicate_const length_upt diff_zero)
  obtain out where out: "cobs_decode ?b 8192 = Inr out" "length out \<le> 8191"
    using cobs_valid_decode [OF cobs_valid_ones [of 8192], of "replicate 8192 1" "[]"]
    unfolding b by (auto simp: cobs_decode_def)
  have "alt_cobs_verify ?b 8192 = Inr True"
    unfolding b by (simp add: alt_cobs_verify_valid cobs_valid_ones)
  moreover have "cobs_decoded_length_from_encoded ?b = Inl OOB_Read"
    unfolding b by (simp add: cobs_decoded_length_from_encoded_def scan_without_zero)
  moreover have "\<exists>x. mem_write 0 out (malloc_bytes (\<lambda>_. 1) 8192) = Inr x"
    using out(2) by (simp add: mem_write_def)
  ultimately have "handle_block h (\<lambda>_. 1) (Suc 0) ?b 8192 = Inl OOB_Read"
    using out(1) by (auto simp: handle_block_def)
  then show ?thesis
    unfolding read_blocks_def by (subst read_loop.simps) (simp only: fill prod.case option.case c_bind_simps)
qed

end
