(* ===== verification/File_Transfer_Correct.thy ===== *)
theory File_Transfer_Correct
  imports File_Transfer Read_Blocks_Correct
begin

text \<open>
  Theorems on the file transfer: what the server ships of a file, what it counts, and that the client counts
  the same blocks.
\<close>

definition sample_ship :: ship_state where
  "sample_ship = \<lparr>ship_io = io_init, ship_evs = replicate 500 (Accept 1), ship_out = [], ship_draws = 0,
     ship_blockcount = 0, ship_bytecount = 0\<rparr>"

subsection \<open>Blocks\<close>

lemma full_blocks_rec:
  assumes "0 < bs"
  shows "full_blocks bs d = (if length d < bs then [] else take bs d # full_blocks bs (drop bs d))"
proof (cases "length d < bs")
  case True
  then show ?thesis
    by (simp add: full_blocks_def)
next
  case False
  then have n: "length d div bs = Suc (length (drop bs d) div bs)"
    using assms by (simp add: le_div_geq)
  have "full_blocks bs d = take bs d # map (\<lambda>i. take bs (drop (i * bs) d)) (map Suc [0..<length (drop bs d) div bs])"
    by (simp add: full_blocks_def n upt_conv_Cons map_Suc_upt del: map_map upt_Suc)
  also have "map (\<lambda>i. take bs (drop (i * bs) d)) (map Suc [0..<length (drop bs d) div bs]) = full_blocks bs (drop bs d)"
    by (simp add: full_blocks_def add.commute)
  finally show ?thesis
    using False by simp
qed

lemma full_blocks_length: "0 < bs \<Longrightarrow> c \<in> set (full_blocks bs d) \<Longrightarrow> length c = bs"
proof (induction "length d" arbitrary: d rule: less_induct)
  case less
  show ?case
    using less.prems less.hyps [of "drop bs d"] full_blocks_rec [OF less.prems(1), of d] by (auto split: if_splits)
qed

lemma length_full_blocks [simp]: "length (full_blocks bs d) = length d div bs"
  by (simp add: full_blocks_def)

subsection \<open>The message of a block\<close>

lemma block_msg_form:
  assumes "length c < 65536"
  shows "form_msg r 0 0 0 0 0 c (word_of_nat (length c)) = Inr (block_msg r c)" "wf_msg (block_msg r c)"
proof -
  have "unat (word_of_nat (length c) :: uint32) = length c"
    using assms by (simp add: unat_of_nat32)
  then show "form_msg r 0 0 0 0 0 c (word_of_nat (length c)) = Inr (block_msg r c)" "wf_msg (block_msg r c)"
    using assms form_msg_eq [of "word_of_nat (length c)" c r 0 0 0 0 0]
    by (simp_all add: block_msg_def wf_formed_msg)
qed

lemma block_msg_sendable:
  assumes "length c \<le> 7700"
  shows "sendable (block_msg r c)"
proof -
  let ?m = "block_msg r c"
  have n: "unat (word_of_nat (length c) :: uint32) = length c"
    using assms by (simp add: unat_of_nat32)
  have wf: "wf_msg ?m"
    using assms by (intro block_msg_form) simp
  have lw: "length (msg_wire ?m) = 144 + length c + (length c + 31) div 32"
    unfolding length_msg_wire [OF wf] by (simp add: block_msg_def formed_msg_def n)
  have lens: "unat (totalLength (head ?m)) = 144 + length c + (length c + 31) div 32"
    "unat (bodyLength (head ?m)) = 32 + length c + (length c + 31) div 32"
    using form_head_lengths [of "word_of_nat (length c)" r 0 0 0 0 0] n assms
    by (simp_all add: block_msg_def formed_msg_def)
  have "length (cobs_blocks [] (msg_wire ?m)) + 1 \<le> length (msg_wire ?m) + 2 + length (msg_wire ?m) div 254"
    using cobs_encode_length_bounds(2) [of "\<lambda>_. 0" "msg_wire ?m"] by (simp add: cobs_encode_blocks)
  moreover have "length (msg_wire ?m) \<le> 8085"
    using assms unfolding lw by linarith
  ultimately have "length (cobs_blocks [] (msg_wire ?m)) < 8192"
    by linarith
  then show ?thesis
    using wf lens lw
    by (simp add: sendable_def word_le_nat_alt) (simp add: block_msg_def formed_msg_def form_head_def)
qed

subsection \<open>Shipping\<close>

lemma ship_loop_blocks:
  assumes "0 < bs" "bs < 65536" "\<not> send_mutex (ship_io s)"
    and "length (block_frames g rnd (ship_draws s) (full_blocks bs rest)) \<le> grants (ship_evs s)"
  shows "\<exists>evs. ship_loop h g rnd bs s rest = Inr
     \<lparr>ship_io = ship_io s, ship_evs = evs, ship_out = ship_out s @ block_frames g rnd (ship_draws s) (full_blocks bs rest),
      ship_draws = ship_draws s + length rest div bs, ship_blockcount = ship_blockcount s + int (length rest div bs),
      ship_bytecount = ship_bytecount s + int (length rest div bs * bs)\<rparr>
     \<and> grants (ship_evs s) \<le> grants evs + length (block_frames g rnd (ship_draws s) (full_blocks bs rest))"
  using assms(3,4)
proof (induction "length rest" arbitrary: rest s rule: less_induct)
  case less
  show ?case
  proof (cases "length rest < bs")
    case True
    then show ?thesis
      using assms(1) by (cases s) (subst ship_loop.simps, simp add: full_blocks_rec [OF assms(1), of rest])
  next
    case False
    let ?c = "take bs rest" and ?rest = "drop bs rest"
    have c: "length ?c = bs" using False by simp
    have m: "form_msg (rnd (ship_draws s)) 0 0 0 0 0 ?c (word_of_nat bs) = Inr (block_msg (rnd (ship_draws s)) ?c)"
      "wf_msg (block_msg (rnd (ship_draws s)) ?c)"
      using block_msg_form [of ?c "rnd (ship_draws s)"] c assms(2) by simp_all
    let ?f = "cobs_encode g (msg_wire (block_msg (rnd (ship_draws s)) ?c))"
    have fb: "full_blocks bs rest = ?c # full_blocks bs ?rest"
      using False full_blocks_rec [OF assms(1), of rest] by simp
    have "length ?f \<le> grants (ship_evs s)"
      using less.prems(2) by (simp add: fb)
    then obtain evs where send: "send_msg h g (ship_io s) (block_msg (rnd (ship_draws s)) ?c) (ship_evs s) = Inr (ship_io s, ?f, evs)"
      "grants (ship_evs s) \<le> grants evs + length ?f"
      using send_msg_wire [OF m(2) less.prems(1), of g "ship_evs s" h] by blast
    define s1 where "s1 = \<lparr>ship_io = ship_io s, ship_evs = evs, ship_out = ship_out s @ ?f, ship_draws = Suc (ship_draws s),
           ship_blockcount = ship_blockcount s + 1, ship_bytecount = ship_bytecount s + int bs\<rparr>"
    have step: "ship_loop h g rnd bs s rest = ship_loop h g rnd bs s1 ?rest"
      using assms(1) c by (subst ship_loop.simps) (simp add: m(1) send(1) s1_def)
    have n: "length rest div bs = Suc (length ?rest div bs)"
      using False assms(1) by (simp add: le_div_geq)
    have "length ?rest < length rest" "\<not> send_mutex (ship_io s1)"
      "length (block_frames g rnd (ship_draws s1) (full_blocks bs ?rest)) \<le> grants (ship_evs s1)"
      using False assms(1) less.prems send(2) by (auto simp: s1_def fb)
    from less.hyps [OF this] show ?thesis
      unfolding step using send(2) by (auto simp: s1_def fb n algebra_simps)
  qed
qed

lemma block_frames_concat:
  "block_frames g rnd i cs = concat (map (\<lambda>m. cobs_encode g (msg_wire m)) (map2 (\<lambda>j c. block_msg (rnd j) c) [i..<i + length cs] cs))"
proof (induction cs arbitrary: i)
  case (Cons c cs)
  have "[i..<i + length (c # cs)] = i # [Suc i..<Suc i + length cs]"
    using upt_conv_Cons [of i "i + length (c # cs)"] by (simp del: upt_Suc)
  then show ?case
    using Cons [of "Suc i"] by (simp del: upt_Suc)
qed simp

lemma read_block_frames:
  assumes "\<forall>c \<in> set cs. length c \<le> 7700"
  shows "read_blocks h gr (block_frames g rnd i cs) = Inr (length cs, [])"
proof -
  let ?ms = "map2 (\<lambda>j c. block_msg (rnd j) c) [i..<i + length cs] cs"
  have "\<forall>m \<in> set ?ms. sendable m"
    using assms by (auto simp: block_msg_sendable dest!: set_zip_rightD)
  then show ?thesis
    using read_loop_messages [of ?ms h gr 0 0 "[]" g] by (simp add: read_blocks_def block_frames_concat)
qed

lemma shipfile_blocks:
  assumes "0 < bs" "bs < 65536" "\<not> send_mutex (ship_io s)" "filename \<noteq> []" "hd filename \<noteq> CHR ''.''"
    and "length (block_frames g rnd (ship_draws s) (full_blocks bs d)) \<le> grants (ship_evs s)"
  shows "\<exists>evs. shipfile h g rnd bs s filename (Some d) = Inr (0,
     \<lparr>ship_io = ship_io s, ship_evs = evs, ship_out = ship_out s @ block_frames g rnd (ship_draws s) (full_blocks bs d),
      ship_draws = ship_draws s + length d div bs, ship_blockcount = int (length d div bs),
      ship_bytecount = int (length d div bs * bs)\<rparr>)
     \<and> grants (ship_evs s) \<le> grants evs + length (block_frames g rnd (ship_draws s) (full_blocks bs d))"
  using ship_loop_blocks [of bs "s\<lparr>ship_blockcount := 0, ship_bytecount := 0\<rparr>" g rnd d h] assms
  by (auto simp: shipfile_def)

lemma sample_frames_fit:
  "length (block_frames (\<lambda>_. 3) (\<lambda>_. 7) (ship_draws sample_ship) (full_blocks 2 [65, 66, 67])) \<le> grants (ship_evs sample_ship)"
proof -
  have fb: "full_blocks 2 [65, 66, 67 :: uchar8] = [[65, 66]]"
    by (simp add: full_blocks_def)
  have "length (msg_wire (block_msg 7 [65, 66])) = 147"
    using length_msg_wire [OF block_msg_form(2) [of "[65, 66]" 7]] by (simp add: block_msg_def formed_msg_def)
  then have "length (cobs_encode (\<lambda>_. 3) (msg_wire (block_msg 7 [65, 66]))) \<le> 500"
    using cobs_encode_length_bounds(2) [of "\<lambda>_. 3" "msg_wire (block_msg 7 [65, 66])"] by simp
  then show ?thesis
    by (simp add: fb grants_replicate sample_ship_def)
qed

subsection \<open>Properties\<close>

text \<open>
  From the server's file to the client's count: shipping a file in blocks of at most 7700 bytes over a
  connection that takes the data counts as many blocks as the file has full blocks, and the client that reads
  the bytes sent, on a host of any byte order and with any heap contents, counts exactly these blocks and
  logs no error. The bytes after the last full block are not sent.
\<close>

theorem transfer_end_to_end:
  assumes "0 < bs" "bs \<le> 7700" "\<not> send_mutex (ship_io s)" "filename \<noteq> []" "hd filename \<noteq> CHR ''.''"
    and "ship_out s = []"
    and "length (block_frames g rnd (ship_draws s) (full_blocks bs d)) \<le> grants (ship_evs s)"
  shows "\<exists>s'. shipfile h1 g rnd bs s filename (Some d) = Inr (0, s')
     \<and> ship_blockcount s' = int (length d div bs) \<and> ship_bytecount s' = int (length d - length d mod bs)
     \<and> read_blocks h2 gr (ship_out s') = Inr (length d div bs, [])"
proof -
  have b: "bs < 65536" using assms(2) by simp
  obtain evs where "shipfile h1 g rnd bs s filename (Some d) = Inr (0,
     \<lparr>ship_io = ship_io s, ship_evs = evs, ship_out = ship_out s @ block_frames g rnd (ship_draws s) (full_blocks bs d),
      ship_draws = ship_draws s + length d div bs, ship_blockcount = int (length d div bs),
      ship_bytecount = int (length d div bs * bs)\<rparr>)"
    using shipfile_blocks [OF assms(1) b assms(3,4,5,7)] by blast
  moreover have "read_blocks h2 gr (block_frames g rnd (ship_draws s) (full_blocks bs d)) = Inr (length d div bs, [])"
    using read_block_frames [of "full_blocks bs d"] full_blocks_length [OF assms(1)] assms(2) by simp
  ultimately show ?thesis
    using assms(6) by (simp add: minus_mod_eq_div_mult)
qed

theorem transfer_end_to_end_witness:
  "\<exists>s'. shipfile Little_Host (\<lambda>_. 3) (\<lambda>_. 7) 2 sample_ship ''a'' (Some [65, 66, 67]) = Inr (0, s')
     \<and> ship_blockcount s' = int (length [65, 66, 67 :: uchar8] div 2)
     \<and> ship_bytecount s' = int (length [65, 66, 67 :: uchar8] - length [65, 66, 67 :: uchar8] mod 2)
     \<and> read_blocks Big_Host (\<lambda>_ _. 9) (ship_out s') = Inr (length [65, 66, 67 :: uchar8] div 2, [])"
  by (rule transfer_end_to_end [OF _ _ _ _ _ _ sample_frames_fit]) (simp_all add: sample_ship_def io_init_def)

text \<open>
  The transfer log counts blocks that were not sent: when a file whose name starts with a dot, or that cannot be
  opened, follows a file that was shipped, the counters of the shipped file are added once more.
\<close>

theorem transfer_counts_stale:
  assumes "0 < bs" "bs < 65536" "\<not> send_mutex (ship_io s)" "filename \<noteq> []" "hd filename \<noteq> CHR ''.''"
    and "length (block_frames g rnd (ship_draws s) (full_blocks bs d)) \<le> grants (ship_evs s)"
  shows "\<exists>s'. run_file_transfer h g rnd bs s
       (Some [\<lparr>d_type = DT_REG, d_name = filename, d_data = Some d\<rparr>, \<lparr>d_type = DT_REG, d_name = ''.x'', d_data = e\<rparr>]) False
     = Inr (s', Some \<lparr>blocktotal = 2 * int (length d div bs), bytetotal = 2 * int (length d div bs * bs), errors = 0\<rparr>)
     \<and> ship_out s' = ship_out s @ block_frames g rnd (ship_draws s) (full_blocks bs d)"
proof -
  obtain evs where "shipfile h g rnd bs s filename (Some d) = Inr (0,
     \<lparr>ship_io = ship_io s, ship_evs = evs, ship_out = ship_out s @ block_frames g rnd (ship_draws s) (full_blocks bs d),
      ship_draws = ship_draws s + length d div bs, ship_blockcount = int (length d div bs),
      ship_bytecount = int (length d div bs * bs)\<rparr>)"
    using shipfile_blocks [OF assms] by blast
  moreover have "shipfile h g rnd bs s2 ''.x'' e = Inr (0, s2)" for s2
    by (simp add: shipfile_def)
  ultimately show ?thesis
    by (simp add: run_file_transfer_def transfer_entry_def DT_REG_def)
qed

theorem transfer_counts_stale_witness:
  "\<exists>s'. run_file_transfer Little_Host (\<lambda>_. 3) (\<lambda>_. 7) 2 sample_ship
       (Some [\<lparr>d_type = DT_REG, d_name = ''a'', d_data = Some [65, 66, 67]\<rparr>, \<lparr>d_type = DT_REG, d_name = ''.x'', d_data = None\<rparr>]) False
     = Inr (s', Some \<lparr>blocktotal = 2 * int (length [65, 66, 67 :: uchar8] div 2),
          bytetotal = 2 * int (length [65, 66, 67 :: uchar8] div 2 * 2), errors = 0\<rparr>)
     \<and> ship_out s' = ship_out sample_ship @ block_frames (\<lambda>_. 3) (\<lambda>_. 7) (ship_draws sample_ship) (full_blocks 2 [65, 66, 67])"
  by (rule transfer_counts_stale [OF _ _ _ _ _ sample_frames_fit]) (simp_all add: sample_ship_def io_init_def)

text \<open>
  Symbolic links are shipped like regular files: the type test masks with the code of a regular file, which the
  code of a symbolic link contains.
\<close>

theorem transfer_follows_symlinks:
  "transfer_entry h g rnd bs st \<lparr>d_type = DT_LNK, d_name = nm, d_data = e\<rparr> =
   transfer_entry h g rnd bs st \<lparr>d_type = DT_REG, d_name = nm, d_data = e\<rparr>
   \<and> DT_LNK AND DT_REG \<noteq> 0"
  by (simp add: transfer_entry_def DT_LNK_def DT_REG_def)

end
