(* ===== verification/Transfer_Server_Correct.thy ===== *)
theory Transfer_Server_Correct
  imports Transfer_Server File_Transfer_Correct
begin

text \<open>
  Theorems on the main programs of the block transfer: which connections are served, what happens to the children, and
  a whole session from the server's directory to the number that the client reports.
\<close>

subsection \<open>A directory\<close>

text \<open>
  The entries that are opened: those with the bit of a regular file whose name does not start with a dot. An entry is plain if it
  is skipped for its type, as directories are, or opened with success.
\<close>

definition opened :: "dirent \<Rightarrow> bool" where
  "opened dep \<longleftrightarrow> d_type dep AND DT_REG \<noteq> 0 \<and> d_name dep \<noteq> [] \<and> hd (d_name dep) \<noteq> CHR ''.''"

definition plain :: "dirent \<Rightarrow> bool" where
  "plain dep \<longleftrightarrow> d_type dep AND DT_REG = 0 \<or> opened dep \<and> d_data dep \<noteq> None"

definition files_in :: "dirent list \<Rightarrow> bytes list" where
  "files_in deps = List.map_filter d_data (filter opened deps)"

definition unreadable :: "dirent list \<Rightarrow> nat" where
  "unreadable deps = length (filter (\<lambda>dep. opened dep \<and> d_data dep = None) deps)"

lemma files_in_simps [simp]:
  "files_in [] = []"
  "files_in (dep # deps) = (if opened dep then (case d_data dep of None \<Rightarrow> [] | Some d \<Rightarrow> [d]) else []) @ files_in deps"
  by (auto simp: files_in_def map_filter_simps split: option.split)

lemma unreadable_simps [simp]:
  "unreadable [] = 0"
  "unreadable (dep # deps) = (if opened dep \<and> d_data dep = None then 1 else 0) + unreadable deps"
  by (simp_all add: unreadable_def)

definition blocks_of :: "nat \<Rightarrow> bytes list \<Rightarrow> bytes list" where
  "blocks_of bs ds = concat (map (full_blocks bs) ds)"

lemma blocks_of_simps [simp]: "blocks_of bs [] = []" "blocks_of bs (d # ds) = full_blocks bs d @ blocks_of bs ds"
  by (simp_all add: blocks_of_def)

lemma full_blocks_count: "length (full_blocks bs d) = length d div bs"
  by (simp add: full_blocks_def)

lemma block_frames_append:
  "block_frames g rnd i (as @ bs) = block_frames g rnd i as @ block_frames g rnd (i + length as) bs"
  by (induction as arbitrary: i) simp_all

lemma blocks_of_length: "length (blocks_of bs ds) = sum_list (map (\<lambda>d. length d div bs) ds)"
  by (induction ds) (simp_all add: full_blocks_count)

text \<open>What one entry of the directory does, and what the whole directory does.\<close>

lemma entry_shipped:
  assumes "0 < bs" "bs < 65536" "\<not> send_mutex (ship_io s)" "opened dep" "d_data dep = Some d"
    "length (block_frames g rnd (ship_draws s) (full_blocks bs d)) \<le> grants (ship_evs s)"
  shows "\<exists>s'. transfer_entry h g rnd bs (s, tot) dep = Inr (s',
       \<lparr>blocktotal = blocktotal tot + int (length d div bs), bytetotal = bytetotal tot + int (length d div bs * bs), errors = errors tot\<rparr>)
     \<and> ship_out s' = ship_out s @ block_frames g rnd (ship_draws s) (full_blocks bs d) \<and> \<not> send_mutex (ship_io s')
     \<and> ship_draws s' = ship_draws s + length d div bs
     \<and> grants (ship_evs s) \<le> grants (ship_evs s') + length (block_frames g rnd (ship_draws s) (full_blocks bs d))"
  using shipfile_blocks [OF assms(1-3) _ _ assms(6), of "d_name dep" h] assms(3-5)
  by (auto simp: transfer_entry_def opened_def)

lemma entry_skipped:
  assumes "\<not> (opened dep \<and> d_data dep \<noteq> None)"
  shows "\<exists>tot'. transfer_entry h g rnd bs (s, tot) dep = Inr (s, tot')
     \<and> errors tot' = errors tot + (if opened dep \<and> d_data dep = None then 1 else 0) \<and> (plain dep \<longrightarrow> tot' = tot)"
  using assms by (auto simp: transfer_entry_def shipfile_def opened_def plain_def)

lemma transfer_loop_blocks:
  assumes "0 < bs" "bs < 65536" "\<not> send_mutex (ship_io s)"
    "length (block_frames g rnd (ship_draws s) (blocks_of bs (files_in deps))) \<le> grants (ship_evs s)"
  shows "\<exists>s' tot'. transfer_loop h g rnd bs (s, tot) deps = Inr (s', tot')
     \<and> ship_out s' = ship_out s @ block_frames g rnd (ship_draws s) (blocks_of bs (files_in deps))
     \<and> errors tot' = errors tot + unreadable deps
     \<and> (list_all plain deps \<longrightarrow> blocktotal tot' = blocktotal tot + int (length (blocks_of bs (files_in deps)))
          \<and> bytetotal tot' = bytetotal tot + int (length (blocks_of bs (files_in deps)) * bs))"
  using assms(3,4)
proof (induction deps arbitrary: s tot)
  case Nil
  then show ?case by simp
next
  case (Cons dep deps)
  show ?case
  proof (cases "opened dep \<and> d_data dep \<noteq> None")
    case True
    then obtain d where d: "opened dep" "d_data dep = Some d" by auto
    have "length (block_frames g rnd (ship_draws s) (full_blocks bs d)) \<le> grants (ship_evs s)"
      using Cons.prems(2) by (simp add: d block_frames_append)
    then obtain s1 where s1: "transfer_entry h g rnd bs (s, tot) dep = Inr (s1,
         \<lparr>blocktotal = blocktotal tot + int (length d div bs), bytetotal = bytetotal tot + int (length d div bs * bs), errors = errors tot\<rparr>)"
       "ship_out s1 = ship_out s @ block_frames g rnd (ship_draws s) (full_blocks bs d)" "\<not> send_mutex (ship_io s1)"
       "ship_draws s1 = ship_draws s + length d div bs"
       "grants (ship_evs s) \<le> grants (ship_evs s1) + length (block_frames g rnd (ship_draws s) (full_blocks bs d))"
      using entry_shipped [OF assms(1,2) Cons.prems(1) d] by blast
    then have "length (block_frames g rnd (ship_draws s1) (blocks_of bs (files_in deps))) \<le> grants (ship_evs s1)"
      using Cons.prems(2) by (simp add: d block_frames_append full_blocks_count)
    from Cons.IH [OF s1(3) this, of "\<lparr>blocktotal = blocktotal tot + int (length d div bs), bytetotal = bytetotal tot + int (length d div bs * bs),
        errors = errors tot\<rparr>"] show ?thesis
      by (auto simp: d s1(1,2,4) block_frames_append full_blocks_count algebra_simps plain_def)
  next
    case False
    obtain tot1 where t: "transfer_entry h g rnd bs (s, tot) dep = Inr (s, tot1)"
      "errors tot1 = errors tot + (if opened dep \<and> d_data dep = None then 1 else 0)" "plain dep \<longrightarrow> tot1 = tot"
      using entry_skipped [OF False] by blast
    have f: "files_in (dep # deps) = files_in deps" using False by (auto split: option.splits)
    show ?thesis
      using Cons.IH [OF Cons.prems(1), of tot1] Cons.prems(2) t by (auto simp: f simp del: files_in_simps(2))
  qed
qed

text \<open>The stream of a list of blocks carries one message per block, with that block as its content.\<close>

lemma block_stream:
  assumes "\<forall>c \<in> set cs. length c < 65536"
  shows "\<exists>ms. carries h (block_frames g rnd i cs) ms \<and> map (\<lambda>m. content (body m)) ms = cs"
proof (intro exI conjI)
  let ?ms = "map2 (\<lambda>j c. block_msg (rnd j) c) [i..<i + length cs] cs"
  have "list_all (\<lambda>m. wf_msg m \<and> crc (trail m) = 0) ?ms"
    using assms by (auto simp: list_all_iff block_msg_form(2) dest!: set_zip_rightD)
      (simp add: block_msg_def formed_msg_def form_head_def)
  then show "carries h (block_frames g rnd i cs) ?ms"
    unfolding block_frames_concat by (rule carries_wire)
  show "map (\<lambda>m. content (body m)) ?ms = cs"
    by (rule nth_equalityI) (simp_all add: block_msg_def formed_msg_def)
qed

lemma block_frames_bound: "\<forall>c \<in> set cs. length c = 4096 \<Longrightarrow> length (block_frames g rnd i cs) \<le> 4400 * length cs"
proof (induction cs arbitrary: i)
  case (Cons c cs)
  have l: "length c = 4096" using Cons.prems by simp
  then have "length (msg_wire (block_msg (rnd i) c)) = 4368"
    using length_msg_wire [OF block_msg_form(2) [of c "rnd i"]] by (simp add: block_msg_def formed_msg_def unat_of_nat32)
  then have "length (cobs_encode g (msg_wire (block_msg (rnd i) c))) \<le> 4400"
    using cobs_encode_length_bounds(2) [of g "msg_wire (block_msg (rnd i) c)"] by simp
  then show ?case using Cons.IH [of "Suc i"] Cons.prems by simp
qed simp

lemma blocks_of_size: "c \<in> set (blocks_of 4096 ds) \<Longrightarrow> length c = 4096"
  using full_blocks_length [of 4096 c] by (auto simp: blocks_of_def)

subsection \<open>Children\<close>

lemma run_server_forks:
  "list_all (\<lambda>(s2, f). s2 > 0 \<and> f > 0) evs \<Longrightarrow>
   run_server (evs @ es) r = run_server es (r\<lparr>children := children r @ map (\<lambda>(s2, f). (f, s2)) evs\<rparr>)"
  by (induction evs arbitrary: r) (auto split: prod.splits)

text \<open>
  What the system guarantees (signal(7), wait(2)): only running children exit; an exit makes \<^verbatim>\<open>SIGCHLD\<close> pending; a pending signal is not
  queued a second time, and the handler runs only for a pending signal.
\<close>

fun allowed :: "nat \<Rightarrow> bool \<Rightarrow> child_event list \<Rightarrow> bool" where
  "allowed k p [] = True"
| "allowed k p (Forked # es) = allowed (Suc k) p es"
| "allowed k p (Exited # es) = (0 < k \<and> allowed (k - 1) True es)"
| "allowed k p (Signalled # es) = (p \<and> allowed k False es)"

fun signal_pending :: "bool \<Rightarrow> child_event list \<Rightarrow> bool" where
  "signal_pending p [] = p"
| "signal_pending p (Forked # es) = signal_pending p es"
| "signal_pending p (Exited # es) = signal_pending True es"
| "signal_pending p (Signalled # es) = signal_pending False es"

lemma child_run_exact:
  "allowed (running c) p es \<Longrightarrow> z + (if p then 1 else 0) \<le> zombies c \<Longrightarrow>
   \<exists>c'. child_run es c = Some c' \<and> zombies c' + count_list es Signalled = zombies c + count_list es Exited
     \<and> z + (if signal_pending p es then 1 else 0) \<le> zombies c'"
proof (induction es arbitrary: c p)
  case (Cons e es)
  show ?case
  proof (cases e)
    case Forked
    then show ?thesis
      using Cons.IH [of "c\<lparr>running := running c + 1\<rparr>" p] Cons.prems by simp
  next
    case Exited
    then show ?thesis
      using Cons.IH [of "c\<lparr>running := running c - 1, zombies := zombies c + 1\<rparr>" True] Cons.prems by fastforce
  next
    case Signalled
    then have "p" "0 < zombies c" "z \<le> zombies c - 1" using Cons.prems by auto
    then obtain c' where "child_run es (c\<lparr>zombies := zombies c - 1\<rparr>) = Some c'"
      "zombies c' + count_list es Signalled = zombies c - 1 + count_list es Exited" "z + (if signal_pending False es then 1 else 0) \<le> zombies c'"
      using Cons.IH [of "c\<lparr>zombies := zombies c - 1\<rparr>" False] Cons.prems Signalled by auto
    then show ?thesis using \<open>0 < zombies c\<close> Signalled by (auto simp: reaper_def)
  qed
qed simp

subsection \<open>Properties\<close>

text \<open>
  C5. A whole session: a child that serves any directory in the server's block size, over a connection that takes the data, sends
  exactly the full blocks of the files it opens, in order, one message per block with the block as its content; the client
  connected to it exits with status 0 and reports exactly the number of these blocks. The errors logged are the files that could
  not be opened, and the totals logged are right when every entry is either skipped for its type, as directories are, or
  opened with success.
\<close>

theorem session_blocks:
  assumes "\<not> send_mutex (ship_io s)" "ship_out s = []" "4400 * length (blocks_of HIPFT_BLOCK_SIZE (files_in deps)) \<le> grants (ship_evs s)"
  shows "\<exists>s' tot ms. serve_child h1 g rnd s (Some deps) False = Inr (s', Some tot)
     \<and> carries h2 (ship_out s') ms \<and> map (\<lambda>m. content (body m)) ms = blocks_of HIPFT_BLOCK_SIZE (files_in deps)
     \<and> client_main h2 gr 3 0 0 (ship_out s') = Inr (0, Some (length ms))
     \<and> errors tot = unreadable deps
     \<and> (list_all plain deps \<longrightarrow> blocktotal tot = int (length ms) \<and> bytetotal tot = int (length ms * HIPFT_BLOCK_SIZE))"
proof -
  let ?cs = "blocks_of 4096 (files_in deps)" and ?tot = "\<lparr>blocktotal = 0, bytetotal = 0, errors = 0\<rparr>"
  have "length (block_frames g rnd (ship_draws s) ?cs) \<le> grants (ship_evs s)"
    using block_frames_bound [of ?cs g rnd "ship_draws s"] blocks_of_size assms(3) by (fastforce simp: HIPFT_BLOCK_SIZE_def)
  then obtain s' tot where s': "transfer_loop h1 g rnd 4096 (s, ?tot) deps = Inr (s', tot)"
    "ship_out s' = block_frames g rnd (ship_draws s) ?cs" "errors tot = unreadable deps"
    "list_all plain deps \<longrightarrow> blocktotal tot = int (length ?cs) \<and> bytetotal tot = int (length ?cs * 4096)"
    using transfer_loop_blocks [of 4096 s g rnd deps h1 ?tot] assms(1,2) by auto
  obtain ms where ms: "carries h2 (ship_out s') ms" "map (\<lambda>m. content (body m)) ms = ?cs"
    using block_stream [of ?cs h2 g rnd "ship_draws s"] blocks_of_size s'(2) by fastforce
  then have "length ms = length ?cs" by (metis length_map)
  moreover have "read_blocks h2 gr (ship_out s') = Inr (length ?cs, [])"
    unfolding s'(2) using blocks_of_size by (intro read_block_frames) fastforce
  ultimately show ?thesis
    using s' ms by (intro exI [of _ s'] exI [of _ tot] exI [of _ ms])
      (simp add: serve_child_def run_file_transfer_def init_def HIPFT_BLOCK_SIZE_def client_main_def)
qed

text \<open>The server's directory: the entries for itself and its parent, the directory of the logs, and a file of one block and a bit.\<close>

definition sample_listing :: "dirent list" where
  "sample_listing = map (\<lambda>nm. \<lparr>d_type = 4, d_name = nm, d_data = None\<rparr>) [''.'', ''..'', ''log'']
     @ [\<lparr>d_type = DT_REG, d_name = ''a'', d_data = Some (replicate 4100 65)\<rparr>]"

theorem session_blocks_witness:
  "\<exists>s' tot m. serve_child Little_Host (\<lambda>_. 3) (\<lambda>_. 7) (sample_ship\<lparr>ship_evs := replicate 4400 (Accept 1)\<rparr>) (Some sample_listing) False = Inr (s', Some tot)
     \<and> carries Big_Host (ship_out s') [m] \<and> content (body m) = replicate 4096 65
     \<and> client_main Big_Host (\<lambda>_ _. 9) 3 0 0 (ship_out s') = Inr (0, Some 1)
     \<and> errors tot = 0 \<and> blocktotal tot = 1 \<and> bytetotal tot = 4096"
proof -
  let ?s = "sample_ship\<lparr>ship_evs := replicate 4400 (Accept 1)\<rparr>"
  have fs: "files_in sample_listing = [replicate 4100 65]" "unreadable sample_listing = 0" "list_all plain sample_listing"
    by (simp_all add: sample_listing_def opened_def plain_def DT_REG_def)
  have "full_blocks 4096 (replicate 4100 65 :: bytes) = [replicate 4096 65]" by (simp add: full_blocks_def)
  then have bs: "blocks_of HIPFT_BLOCK_SIZE (files_in sample_listing) = [replicate 4096 65]"
    by (simp add: fs HIPFT_BLOCK_SIZE_def)
  have pre: "\<not> send_mutex (ship_io ?s)" "ship_out ?s = []" "4400 * length (blocks_of HIPFT_BLOCK_SIZE (files_in sample_listing)) \<le> grants (ship_evs ?s)"
    by (simp_all add: sample_ship_def io_init_def bs grants_replicate)
  obtain s' tot ms where r: "serve_child Little_Host (\<lambda>_. 3) (\<lambda>_. 7) ?s (Some sample_listing) False = Inr (s', Some tot)"
    "carries Big_Host (ship_out s') ms" "map (\<lambda>m. content (body m)) ms = blocks_of HIPFT_BLOCK_SIZE (files_in sample_listing)"
    "client_main Big_Host (\<lambda>_ _. 9) 3 0 0 (ship_out s') = Inr (0, Some (length ms))" "errors tot = unreadable sample_listing"
    "list_all plain sample_listing \<longrightarrow> blocktotal tot = int (length ms) \<and> bytetotal tot = int (length ms * HIPFT_BLOCK_SIZE)"
    using session_blocks [OF pre, of Little_Host "\<lambda>_. 3" "\<lambda>_. 7" Big_Host "\<lambda>_ _. 9"] by blast
  then obtain m where "ms = [m]" "content (body m) = replicate 4096 65" unfolding bs by (auto simp: map_eq_Cons_conv)
  with r fs show ?thesis by (auto simp: HIPFT_BLOCK_SIZE_def)
qed

text \<open>
  Every accepted connection is served by exactly one child, in the order of arrival, and the parent keeps none of
  them open; a fork that fails ends the server and leaves that one connection open.
\<close>

theorem run_server_children:
  assumes "list_all (\<lambda>(s2, f). s2 > 0 \<and> f > 0) evs" "s2 > 0" "f < 0"
  shows "run_server evs \<lparr>open_conns = [], children = []\<rparr> =
       (Accepting, \<lparr>open_conns = [], children = map (\<lambda>(s2, f). (f, s2)) evs\<rparr>)
     \<and> run_server (evs @ (s2, f) # later) \<lparr>open_conns = [], children = []\<rparr> =
       (Fork_Failed, \<lparr>open_conns = [s2], children = map (\<lambda>(s2, f). (f, s2)) evs\<rparr>)"
  using run_server_forks [OF assms(1), of "[]"] run_server_forks [OF assms(1), of "(s2, f) # later"] assms(2,3) by simp

theorem run_server_children_witness:
  "run_server [(4, 100), (5, 101)] \<lparr>open_conns = [], children = []\<rparr> =
       (Accepting, \<lparr>open_conns = [], children = map (\<lambda>(s2, f). (f, s2)) [(4, 100), (5, 101)]\<rparr>)
     \<and> run_server ([(4, 100), (5, 101)] @ (6, - 1) # []) \<lparr>open_conns = [], children = []\<rparr> =
       (Fork_Failed, \<lparr>open_conns = [6], children = map (\<lambda>(s2, f). (f, s2)) [(4, 100), (5, 101)]\<rparr>)"
  by (rule run_server_children) simp_all

text \<open>
  C34. Children are lost: for every sequence of forks, exits and signals that the system allows, the handler never hangs, and the terminated
  children that remain are exactly the exits for which no signal of their own was delivered, because each run of the handler
  waits for one child. Those left without a pending signal are never removed again, whatever happens afterwards.
\<close>

theorem zombies_remain:
  assumes "allowed 0 False es"
  shows "\<exists>c. child_run es \<lparr>running = 0, zombies = 0\<rparr> = Some c \<and> zombies c + count_list es Signalled = count_list es Exited
     \<and> (\<not> signal_pending False es \<longrightarrow> (\<forall>es'. allowed (running c) False es' \<longrightarrow> (\<exists>c'. child_run es' c = Some c' \<and> zombies c \<le> zombies c')))"
proof -
  obtain c where c: "child_run es \<lparr>running = 0, zombies = 0\<rparr> = Some c" "zombies c + count_list es Signalled = count_list es Exited"
    using child_run_exact [of "\<lparr>running = 0, zombies = 0\<rparr>" False es 0] assms by auto
  have "\<exists>c'. child_run es' c = Some c' \<and> zombies c \<le> zombies c'" if "allowed (running c) False es'" for es'
    using child_run_exact [of c False es' "zombies c"] that by fastforce
  with c show ?thesis by blast
qed

text \<open>Two children exit before the signal is delivered; one of them stays, also after a third one has come and gone.\<close>

theorem zombies_remain_witness:
  "\<exists>c c'. child_run [Forked, Forked, Exited, Exited, Signalled] \<lparr>running = 0, zombies = 0\<rparr> = Some c \<and> zombies c = 1
     \<and> child_run [Forked, Exited, Signalled] c = Some c' \<and> 1 \<le> zombies c'"
proof -
  have "allowed 0 False [Forked, Forked, Exited, Exited, Signalled]" "\<not> signal_pending False [Forked, Forked, Exited, Exited, Signalled]" by simp_all
  from zombies_remain [OF this(1)] this(2) obtain c where c: "child_run [Forked, Forked, Exited, Exited, Signalled] \<lparr>running = 0, zombies = 0\<rparr> = Some c"
    "zombies c = 1" "\<forall>es'. allowed (running c) False es' \<longrightarrow> (\<exists>c'. child_run es' c = Some c' \<and> zombies c \<le> zombies c')"
    by auto
  moreover have "allowed (running c) False [Forked, Exited, Signalled]" by simp
  ultimately obtain c' where "child_run [Forked, Exited, Signalled] c = Some c'" "zombies c \<le> zombies c'" by blast
  with c show ?thesis by auto
qed

end
