(* ===== verification/Recv_Sketch.thy ===== *)
theory Recv_Sketch
  imports Socket_Msg
begin

text \<open>
  \<^verbatim>\<open>src/justin-snapshot/recv_msg.c\<close>: the sketch of a receiver that is to replace the stub of
  \<^verbatim>\<open>socket_msg_help.c\<close>. It reads one byte at a time up to a delimiter. It keeps none of them: ``add c to read\_bytes'' is a comment, and
  \<^verbatim>\<open>read_bytes\<close>, which it then passes to \<^verbatim>\<open>cobs_verify\<close>, is a pointer that is never set, so this call is the end of every frame and the lines
  behind it are not reached. (The file does not compile as it is: line 59 lacks a semicolon, and \<^verbatim>\<open>decoded_bytes\<close> is declared
  as a byte.) The variable \<^verbatim>\<open>c\<close> is not initialised either (\<open>None\<close>). The result of \<^verbatim>\<open>readn\<close> is stored in an unsigned
  variable, so -1 counts as data.
\<close>

text \<open>Bytes and events that are left; every call of \<^verbatim>\<open>readn\<close> for one byte makes this smaller.\<close>

fun ev_size :: "read_event list \<Rightarrow> nat" where
  "ev_size [] = 0"
| "ev_size (Data_In bs # evs) = Suc (length bs) + ev_size evs"
| "ev_size (_ # evs) = Suc (ev_size evs)"

lemma readn_loop_size:
  "readn_loop n buf evs = Inr (ret, fin, buf', evs') \<Longrightarrow>
     (length buf < n \<longrightarrow> ev_size evs' < ev_size evs) \<and> (\<not> length buf < n \<longrightarrow> evs' = evs)"
proof (induction n buf evs rule: readn_loop.induct)
  case (1 n buf evs)
  show ?case
  proof (cases "length buf < n")
    case True
    note step = 1(4) [unfolded readn_loop.simps [of n buf evs]]
    show ?thesis
    proof (cases evs)
      case (Cons e es)
      show ?thesis
      proof (cases e)
        case (Data_In bs)
        then show ?thesis
          using step True Cons 1(1) [OF True Cons Data_In] 1(2) [OF True Cons Data_In]
          by (fastforce split: if_splits)
      qed (use step True Cons 1(3) in auto)
    qed (use step True in simp)
  next
    case False
    then show ?thesis using 1(4) by (simp add: readn_loop.simps [of n buf evs])
  qed
qed

lemma readn_size: "readn io 1 evs = Inr (io', ret, buf, evs') \<Longrightarrow> ev_size evs' < ev_size evs"
  using readn_loop_size [of 1 "[]" evs] by (auto simp: readn_def c_result_iff)

text \<open>The return value of \<^verbatim>\<open>readn\<close> in a \<^verbatim>\<open>uint64\<close>.\<close>

definition readin_of :: "nat option \<Rightarrow> uint64" where
  "readin_of ret = (case ret of None \<Rightarrow> -1 | Some k \<Rightarrow> word_of_nat k)"

record frame_state =
  last_c :: "uchar8 option"
  read_length :: uint64

text \<open>The inner loop (lines 41 to 47): the state, and the last value of \<^verbatim>\<open>readin\<close>.\<close>

function read_until ::
    "io_state \<Rightarrow> frame_state \<Rightarrow> read_event list \<Rightarrow> (io_state \<times> frame_state \<times> uint64 \<times> read_event list) c_result" where
  "read_until io s evs =
     (case readn io 1 evs of
        Inl e \<Rightarrow> Inl e
      | Inr (io', ret, buf, evs') \<Rightarrow>
          (let readin = readin_of ret; c = (case buf of [] \<Rightarrow> last_c s | b # _ \<Rightarrow> Some b) in
           if 0 < readin then
             (case c of
                None \<Rightarrow> Inl Uninitialised_Use
              | Some b \<Rightarrow>
                  (let s' = \<lparr>last_c = c, read_length = read_length s + readin\<rparr> in
                   if b = SPECIAL_CHAR then Inr (io', s', readin, evs') else read_until io' s' evs'))
           else Inr (io', s, readin, evs')))"
  by pat_completeness auto
termination by (relation "measure (\<lambda>(io, s, evs). ev_size evs)") (auto simp: readn_size)

declare read_until.simps [simp del]

text \<open>The body of the outer loop, up to the use of the pointer (lines 38 to 54); it is never executed a second time.\<close>

definition recv_msg_sketch ::
    "io_state \<Rightarrow> uchar8 option \<Rightarrow> read_event list \<Rightarrow> (io_state \<times> msg_t option \<times> read_event list) c_result" where
  "recv_msg_sketch io c evs =
     c_bind (read_until io \<lparr>last_c = c, read_length = 0\<rparr> evs) (\<lambda>(io, s, readin, evs).
     if readin \<le> 0 then Inr (io, None, evs) else Inl Uninitialised_Use)"

subsection \<open>One call\<close>

lemma readn_locked: "recv_mutex io \<Longrightarrow> readn io n evs = Inl Deadlock"
  by (simp add: readn_def)

lemma readn_one:
  assumes "\<not> recv_mutex io" "pending evs = b # bs"
  obtains evs' where "readn io 1 evs = Inr (io, Some 1, [b], evs')" "pending evs' = bs"
  using readn_loop_complete [of 1 "[]" evs] assms by (fastforce simp: readn_def)

lemma readn_none:
  assumes "\<not> recv_mutex io" "pending evs = []"
  shows "readn io 1 evs = Inl Diverges
     \<or> (\<exists>ret evs'. readn io 1 evs = Inr (io\<lparr>recv_mutex := True\<rparr>, ret, [], evs') \<and> (ret = Some 0 \<or> ret = None))"
  using readn_loop_short [of "[]" evs 1] assms by (auto simp: readn_def)

text \<open>A delimiter among the bytes that arrive is found; without one, the end of the stream is.\<close>

lemma read_until_delimiter:
  assumes "\<not> recv_mutex io" "SPECIAL_CHAR \<in> set (pending evs)"
  shows "\<exists>s' evs'. read_until io s evs = Inr (io, s', 1, evs')"
  using assms
proof (induction "pending evs" arbitrary: s evs)
  case (Cons b bs)
  obtain evs' where r: "readn io 1 evs = Inr (io, Some 1, [b], evs')" "pending evs' = bs"
    using readn_one [OF Cons.prems(1) Cons.hyps(2) [symmetric]] by blast
  let ?s = "\<lparr>last_c = Some b, read_length = read_length s + 1\<rparr>"
  have step: "read_until io s evs = (if b = SPECIAL_CHAR then Inr (io, ?s, 1, evs') else read_until io ?s evs')"
    by (subst read_until.simps) (simp add: r(1) [unfolded One_nat_def] readin_of_def Let_def)
  show ?case
    using Cons.hyps(1) [OF r(2) [symmetric] Cons.prems(1), of ?s] Cons.prems(2) r(2) unfolding step Cons.hyps(2) [symmetric] by auto
qed simp

lemma read_until_end:
  assumes "\<not> recv_mutex io" "SPECIAL_CHAR \<notin> set (pending evs)"
  shows "case read_until io s evs of Inl e \<Rightarrow> e \<in> {Diverges, Deadlock, Uninitialised_Use} | Inr (io', s', readin, evs') \<Rightarrow> recv_mutex io'"
  using assms
proof (induction "pending evs" arbitrary: s evs)
  case Nil
  have locked: "read_until (io\<lparr>recv_mutex := True\<rparr>) s' e = Inl Deadlock" for s' e
    by (subst read_until.simps) (simp add: readn_locked)
  show ?case
    using readn_none [OF Nil.prems(1) Nil.hyps [symmetric]]
    by (subst read_until.simps) (auto simp: Let_def locked readin_of_def split: option.splits)
next
  case (Cons b bs)
  obtain evs' where r: "readn io 1 evs = Inr (io, Some 1, [b], evs')" "pending evs' = bs"
    using readn_one [OF Cons.prems(1) Cons.hyps(2) [symmetric]] by blast
  let ?s = "\<lparr>last_c = Some b, read_length = read_length s + 1\<rparr>"
  have "b \<noteq> SPECIAL_CHAR" "SPECIAL_CHAR \<notin> set (pending evs')" using Cons.prems(2) r(2) by (auto simp flip: Cons.hyps(2))
  moreover from this have "read_until io s evs = read_until io ?s evs'"
    by (subst read_until.simps) (simp add: r(1) [unfolded One_nat_def] readin_of_def Let_def)
  ultimately show ?case using Cons.hyps(1) [OF r(2) [symmetric] Cons.prems(1), of ?s] by simp
qed

subsection \<open>Streams that end regularly\<close>

fun regular :: "read_event list \<Rightarrow> bool" where
  "regular (Data_In bs # evs) = (bs \<noteq> [] \<and> regular evs)"
| "regular (Read_Interrupted # evs) = regular evs"
| "regular (End_Of_File # evs) = True"
| "regular _ = False"

lemma readn_loop_regular:
  "regular evs \<Longrightarrow> (\<exists>b evs'. readn_loop 1 [] evs = Inr (Some 1, True, [b], evs') \<and> regular evs')
     \<or> (\<exists>evs'. readn_loop 1 [] evs = Inr (Some 0, False, [], evs'))"
proof (induction evs rule: regular.induct)
  case (1 bs evs)
  then show ?case
    by (cases bs) (auto simp: readn_loop.simps [of _ "[]"] readn_loop.simps [of _ "[_]"])
qed (auto simp: readn_loop.simps [of _ "[]" "Read_Interrupted # _"] readn_loop.simps [of _ "[]" "End_Of_File # _"])

lemma readn_regular:
  assumes "\<not> recv_mutex io" "regular evs"
  shows "(\<exists>b evs'. readn io 1 evs = Inr (io, Some 1, [b], evs') \<and> regular evs')
     \<or> (\<exists>evs'. readn io 1 evs = Inr (io\<lparr>recv_mutex := True\<rparr>, Some 0, [], evs'))"
proof -
  have "io\<lparr>recv_mutex := False\<rparr> = io" using assms(1) by (cases io) simp
  then show ?thesis
    using readn_loop_regular [OF assms(2)] assms(1) by (auto simp: readn_def)
qed

lemma read_until_regular:
  assumes "\<not> recv_mutex io" "regular evs"
  shows "\<exists>io' s' readin evs'. read_until io s evs = Inr (io', s', readin, evs')
     \<and> (if readin = 0 then io' = io\<lparr>recv_mutex := True\<rparr> else io' = io \<and> regular evs')"
  using assms
proof (induction io s evs rule: read_until.induct)
  case (1 io s evs)
  consider b evs' where "readn io 1 evs = Inr (io, Some 1, [b], evs')" "regular evs'"
    | evs' where "readn io 1 evs = Inr (io\<lparr>recv_mutex := True\<rparr>, Some 0, [], evs')"
    using readn_regular [OF 1(2,3)] by blast
  then show ?case
  proof cases
    case (1 b evs')
    then show ?thesis
      using "1.IH" [OF 1(1) refl refl refl refl refl, of b] "1.prems"(1)
      by (subst read_until.simps) (auto simp: 1(1) [unfolded One_nat_def] readin_of_def Let_def)
  next
    case (2 evs')
    then show ?thesis
      by (subst read_until.simps) (simp add: 2 [unfolded One_nat_def] readin_of_def Let_def)
  qed
qed

subsection \<open>Property\<close>

text \<open>
  C40. The sketched receiver never delivers a message. As soon as a delimiter arrives, however the stream cuts the bytes before it, the
  sketch uses a pointer that was never set. On a stream without a delimiter it returns \<^verbatim>\<open>NULL\<close> with the receive mutex locked, if the
  stream ends regularly; otherwise it may also wait, deadlock (an error of the socket counts as data, and the next call of \<^verbatim>\<open>readn\<close>
  waits for the mutex) or use the byte it never set.
\<close>

theorem sketch_never_delivers:
  assumes "\<not> recv_mutex io"
  shows "if SPECIAL_CHAR \<in> set (pending evs) then recv_msg_sketch io c evs = Inl Uninitialised_Use
     else (case recv_msg_sketch io c evs of
         Inl e \<Rightarrow> e \<in> {Diverges, Deadlock, Uninitialised_Use} | Inr (io', r, _) \<Rightarrow> r = None \<and> recv_mutex io')
       \<and> (regular evs \<longrightarrow> (\<exists>evs'. recv_msg_sketch io c evs = Inr (io\<lparr>recv_mutex := True\<rparr>, None, evs')))"
proof (cases "SPECIAL_CHAR \<in> set (pending evs)")
  case True
  then show ?thesis
    using read_until_delimiter [OF assms True, of "\<lparr>last_c = c, read_length = 0\<rparr>"] by (auto simp: recv_msg_sketch_def)
next
  case False
  then show ?thesis
    using read_until_end [OF assms False, of "\<lparr>last_c = c, read_length = 0\<rparr>"]
      read_until_regular [OF assms, of evs "\<lparr>last_c = c, read_length = 0\<rparr>"] assms
    by (auto simp: recv_msg_sketch_def c_result_iff split: sum.splits if_splits)
qed

theorem sketch_never_delivers_witness:
  "recv_msg_sketch io_init None [Data_In [2, 65, SPECIAL_CHAR], End_Of_File] = Inl Uninitialised_Use
   \<and> (\<exists>evs'. recv_msg_sketch io_init None [Data_In [2, 65], End_Of_File] = Inr (io_init\<lparr>recv_mutex := True\<rparr>, None, evs'))"
  using sketch_never_delivers [of io_init "[Data_In [2, 65, SPECIAL_CHAR], End_Of_File]" None]
    sketch_never_delivers [of io_init "[Data_In [2, 65], End_Of_File]" None] by (simp add: io_init_def SPECIAL_CHAR_def)

end
