(* ===== verification/Msg_Heap.thy ===== *)
theory Msg_Heap
  imports Message_Correct
begin

text \<open>
  The memory of messages (\<^verbatim>\<open>src/justin-snapshot/src/message.c\<close>): which blocks \<^verbatim>\<open>form_msg\<close> and \<^verbatim>\<open>msg_from_bytes\<close> allocate, which
  ones their failure paths release, and \<^verbatim>\<open>free_msg\<close>. A heap is the set of live blocks and the next fresh address; a null
  pointer is \<open>None\<close>. The values are those of \<open>Message\<close>; the functions here are the same routines with their calls of
  \<^verbatim>\<open>malloc\<close> and \<^verbatim>\<open>free\<close>, and forgetting the heap gives the functions of \<open>Message\<close> back.
\<close>

record heap =
  live :: "nat set"
  fresh :: nat

type_synonym ptr = "nat option"

definition c_malloc :: "heap \<Rightarrow> nat \<times> heap" where
  "c_malloc H = (fresh H, \<lparr>live = insert (fresh H) (live H), fresh = Suc (fresh H)\<rparr>)"

definition c_free :: "ptr \<Rightarrow> heap \<Rightarrow> heap c_result" where
  "c_free p H = (case p of
     None \<Rightarrow> Inr H
   | Some a \<Rightarrow> if a \<in> live H then Inr (H\<lparr>live := live H - {a}\<rparr>) else Inl Double_Free)"

text \<open>Releasing several pointers in order.\<close>

fun c_free_all :: "ptr list \<Rightarrow> heap \<Rightarrow> heap c_result" where
  "c_free_all [] H = Inr H"
| "c_free_all (p # ps) H = c_bind (c_free p H) (c_free_all ps)"

record body_ptrs =
  body_ptr :: nat
  content_ptr :: ptr
  vparity_ptr :: ptr
  hparity_ptr :: ptr

record msg_ptrs =
  msg_ptr :: nat
  head_ptr :: ptr
  trail_ptr :: ptr
  body_part :: "body_ptrs option"

subsection \<open>Forming\<close>

definition form_msg_heap ::
    "uint64 \<Rightarrow> uint64 \<Rightarrow> uint64 \<Rightarrow> uint8 \<Rightarrow> uint8 \<Rightarrow> uint64 \<Rightarrow> bytes \<Rightarrow> uint32 \<Rightarrow> heap \<Rightarrow> (msg_t \<times> msg_ptrs \<times> heap) c_result" where
  "form_msg_heap rnd sID rID chant datat snum src clen H =
     (let (m, H) = c_malloc H;
          (hd, H) = c_malloc H;
          (bd, H) = c_malloc H;
          (tr, H) = c_malloc H;
          (cn, H) = c_malloc H;
          (vp, H) = c_malloc H;
          (hp, H) = c_malloc H
      in c_bind (form_msg rnd sID rID chant datat snum src clen) (\<lambda>msg.
         Inr (msg, \<lparr>msg_ptr = m, head_ptr = Some hd, trail_ptr = Some tr,
           body_part = Some \<lparr>body_ptr = bd, content_ptr = Some cn, vparity_ptr = Some vp, hparity_ptr = Some hp\<rparr>\<rparr>, H)))"

subsection \<open>Releasing\<close>

text \<open>The first statement reads \<^verbatim>\<open>src->body->content\<close>, through the message and its body.\<close>

definition free_msg :: "msg_ptrs \<Rightarrow> heap \<Rightarrow> heap c_result" where
  "free_msg p H =
     c_bind (c_guard (msg_ptr p \<in> live H) Use_After_Free) (\<lambda>_.
     case body_part p of
       None \<Rightarrow> Inl Null_Deref
     | Some b \<Rightarrow>
         c_bind (c_guard (body_ptr b \<in> live H) Use_After_Free) (\<lambda>_.
         c_free_all [content_ptr b, hparity_ptr b, vparity_ptr b, head_ptr p, Some (body_ptr b), trail_ptr p, Some (msg_ptr p)] H))"

subsection \<open>Parsing\<close>

definition msg_ht_heap :: "host \<Rightarrow> bytes \<Rightarrow> heap \<Rightarrow> ((msg_header_t \<times> bytes \<times> nat) option \<times> heap) c_result" where
  "msg_ht_heap h src H =
     (let (a, H) = c_malloc H in
      case msg_ht_from_bytes h src of
        None \<Rightarrow> c_bind (c_free (Some a) H) (\<lambda>H. Inr (None, H))
      | Some (r, rest) \<Rightarrow> Inr (Some (r, rest, a), H))"

text \<open>The \<^verbatim>\<open>fail\<close> label of the body: what has been allocated is released, the parts first.\<close>

definition body_fail :: "body_ptrs \<Rightarrow> heap \<Rightarrow> ((msg_body_t \<times> bytes \<times> body_ptrs) option \<times> heap) c_result" where
  "body_fail b H =
     c_bind (c_free_all [content_ptr b, vparity_ptr b, hparity_ptr b, Some (body_ptr b)] H) (\<lambda>H. Inr (None, H))"

definition msg_body_heap ::
    "host \<Rightarrow> bytes \<Rightarrow> uint64 \<Rightarrow> uint64 \<Rightarrow> heap \<Rightarrow> ((msg_body_t \<times> bytes \<times> body_ptrs) option \<times> heap) c_result" where
  "msg_body_heap h src contentlen paritylen H =
     (if src = [] \<or> MAX_MESSAGE_SIZE \<le> contentlen then Inr (None, H)
      else
        (let (bd, H) = c_malloc H;
             (cn, H) = c_malloc H;
             b = \<lparr>body_ptr = bd, content_ptr = Some cn, vparity_ptr = None, hparity_ptr = None\<rparr>
         in case safe_memcpy src (ucast contentlen) of
              None \<Rightarrow> body_fail b H
            | Some c \<Rightarrow>
                (let cur = drop (unat contentlen) src;
                     (vp, H) = c_malloc H;
                     b = b\<lparr>vparity_ptr := Some vp\<rparr>
                 in case safe_memcpy cur (ucast compute_vparity_length) of
                      None \<Rightarrow> body_fail b H
                    | Some v \<Rightarrow>
                        (let cur = drop (unat compute_vparity_length) cur;
                             hparlen = ucast (paritylen - compute_vparity_length) :: uint32
                         in if hparlen <s 0 then body_fail b H
                            else
                              (let (hp, H) = c_malloc H; b = b\<lparr>hparity_ptr := Some hp\<rparr> in
                               case safe_memcpy cur hparlen of
                                 None \<Rightarrow> body_fail b H
                               | Some q \<Rightarrow>
                                   Inr (Some (\<lparr>content = c, vparityData = map (\<lambda>i. ntoh64 h (field h (8 * i) 8 v)) [0..<4], hparityData = q\<rparr>,
                                      drop (unat hparlen) cur, b), H))))))"

text \<open>
  When the header cannot be read the function returns at once; the \<^verbatim>\<open>fail\<close> label releases the header, the body
  and the message.
\<close>

definition msg_from_bytes_heap :: "host \<Rightarrow> bytes \<Rightarrow> heap \<Rightarrow> ((msg_t \<times> msg_ptrs) option \<times> heap) c_result" where
  "msg_from_bytes_heap h src H =
     (let (res, H) = c_malloc H in
      c_bind (msg_ht_heap h src H) (\<lambda>(hd, H).
      case hd of
        None \<Rightarrow> Inr (None, H)
      | Some (hp, src, ha) \<Rightarrow>
          c_bind (msg_body_heap h src (ucast (contentLength hp)) (ucast (parityLength hp)) H) (\<lambda>(bd, H).
          case bd of
            None \<Rightarrow> c_bind (c_free_all [Some ha, Some res] H) (\<lambda>H. Inr (None, H))
          | Some (bdy, src, b) \<Rightarrow>
              c_bind (msg_ht_heap h src H) (\<lambda>(tr, H).
              case tr of
                None \<Rightarrow> c_bind (c_free_all [Some ha, Some (body_ptr b), Some res] H) (\<lambda>H. Inr (None, H))
              | Some (t, src, ta) \<Rightarrow>
                  Inr (Some (\<lparr>head = hp, body = bdy, trail = t\<rparr>,
                    \<lparr>msg_ptr = res, head_ptr = Some ha, trail_ptr = Some ta, body_part = Some b\<rparr>), H)))))"

subsection \<open>The effect on the heap\<close>

definition heap_ok :: "heap \<Rightarrow> bool" where
  "heap_ok H \<longleftrightarrow> (\<forall>a \<in> live H. a < fresh H)"

lemma heap_ok_not_live: "heap_ok H \<Longrightarrow> fresh H \<le> a \<Longrightarrow> a \<notin> live H"
  by (auto simp: heap_ok_def)

lemma body_heap_None:
  assumes "heap_ok H" "msg_body_from_bytes h src cl pl = None"
  shows "\<exists>H'. msg_body_heap h src cl pl H = Inr (None, H') \<and> live H' = live H \<and> fresh H \<le> fresh H'"
  using assms
  by (auto simp: msg_body_heap_def msg_body_from_bytes_def body_fail_def c_malloc_def c_free_def Let_def heap_ok_not_live
      split: option.splits if_splits)

lemma body_heap_Some:
  assumes "msg_body_from_bytes h src cl pl = Some (bd, rest)"
  shows "msg_body_heap h src cl pl H =
     Inr (Some (bd, rest, \<lparr>body_ptr = fresh H, content_ptr = Some (Suc (fresh H)), vparity_ptr = Some (fresh H + 2), hparity_ptr = Some (fresh H + 3)\<rparr>),
       \<lparr>live = live H \<union> {fresh H, Suc (fresh H), fresh H + 2, fresh H + 3}, fresh = fresh H + 4\<rparr>)"
  using assms
  by (auto simp: msg_body_heap_def msg_body_from_bytes_def c_malloc_def Let_def split: option.splits if_splits)

lemma ht_heap_None:
  assumes "heap_ok H" "msg_ht_from_bytes h src = None"
  shows "msg_ht_heap h src H = Inr (None, \<lparr>live = live H, fresh = Suc (fresh H)\<rparr>)"
  using assms by (simp add: msg_ht_heap_def c_malloc_def c_free_def heap_ok_not_live)

lemma ht_heap_Some:
  assumes "msg_ht_from_bytes h src = Some (r, rest)"
  shows "msg_ht_heap h src H = Inr (Some (r, rest, fresh H), \<lparr>live = insert (fresh H) (live H), fresh = Suc (fresh H)\<rparr>)"
  using assms by (simp add: msg_ht_heap_def c_malloc_def)

text \<open>Where parsing stops, and what it leaves behind.\<close>

datatype parse_stage = No_Header | No_Body | No_Trailer | Parsed

definition stage :: "host \<Rightarrow> bytes \<Rightarrow> parse_stage" where
  "stage h src =
     (case msg_header_from_bytes h src of
        None \<Rightarrow> No_Header
      | Some (hp, src) \<Rightarrow>
          (case msg_body_from_bytes h src (ucast (contentLength hp)) (ucast (parityLength hp)) of
             None \<Rightarrow> No_Body
           | Some (bd, src) \<Rightarrow> (case msg_trailer_from_bytes h src of None \<Rightarrow> No_Trailer | Some _ \<Rightarrow> Parsed)))"

lemma stage_Parsed: "stage h src = Parsed \<longleftrightarrow> msg_from_bytes h src \<noteq> None"
  by (auto simp: stage_def msg_from_bytes_def split: option.splits)

fun leaked :: "parse_stage \<Rightarrow> nat \<Rightarrow> nat set" where
  "leaked No_Header a = {a}"
| "leaked No_Body a = {}"
| "leaked No_Trailer a = {a + 3, a + 4, a + 5}"
| "leaked Parsed a = {}"

text \<open>The heap behind the message block and behind the header.\<close>

abbreviation heap1 :: "heap \<Rightarrow> heap" where
  "heap1 H \<equiv> \<lparr>live = insert (fresh H) (live H), fresh = Suc (fresh H)\<rparr>"

lemma heap_ok_heap1: "heap_ok H \<Longrightarrow> heap_ok (heap1 H)"
  by (auto simp: heap_ok_def)

lemma parse_no_header:
  assumes "heap_ok H" "msg_ht_from_bytes h src = None"
  shows "\<exists>H'. msg_from_bytes_heap h src H = Inr (None, H') \<and> live H' = live H \<union> {fresh H}"
  using ht_heap_None [OF heap_ok_heap1 [OF assms(1)] assms(2)] by (simp add: msg_from_bytes_heap_def c_malloc_def)

lemma parse_no_body:
  assumes "heap_ok H" "msg_ht_from_bytes h src = Some (hp, r1)"
    and "msg_body_from_bytes h r1 (ucast (contentLength hp)) (ucast (parityLength hp)) = None"
  shows "\<exists>H'. msg_from_bytes_heap h src H = Inr (None, H') \<and> live H' = live H"
proof -
  let ?H2 = "heap1 (heap1 H)"
  obtain H3 where H3: "msg_body_heap h r1 (ucast (contentLength hp)) (ucast (parityLength hp)) ?H2 = Inr (None, H3)" "live H3 = live ?H2"
    using body_heap_None [OF heap_ok_heap1 [OF heap_ok_heap1 [OF assms(1)]] assms(3)] by blast
  have "live H3 - {Suc (fresh H)} - {fresh H} = live H"
    using H3(2) heap_ok_not_live [OF assms(1), of "fresh H"] heap_ok_not_live [OF assms(1), of "Suc (fresh H)"] by auto
  then have "c_free_all [Some (Suc (fresh H)), Some (fresh H)] H3 = Inr (H3\<lparr>live := live H\<rparr>)"
    using H3(2) by (simp add: c_free_def)
  then show ?thesis
    using H3(1) ht_heap_Some [OF assms(2), of "heap1 H"] by (simp add: msg_from_bytes_heap_def c_malloc_def del: c_free_all.simps)
qed

lemma parse_no_trailer:
  assumes "heap_ok H" "msg_ht_from_bytes h src = Some (hp, r1)"
    and "msg_body_from_bytes h r1 (ucast (contentLength hp)) (ucast (parityLength hp)) = Some (bd, r2)" "msg_ht_from_bytes h r2 = None"
  shows "\<exists>H'. msg_from_bytes_heap h src H = Inr (None, H') \<and> live H' = live H \<union> {fresh H + 3, fresh H + 4, fresh H + 5}"
proof -
  let ?a = "fresh H" and ?H2 = "heap1 (heap1 H)"
  let ?H3 = "\<lparr>live = live ?H2 \<union> {?a + 2, ?a + 3, ?a + 4, ?a + 5}, fresh = ?a + 6\<rparr>"
  have "heap_ok ?H3" using assms(1) by (auto simp: heap_ok_def)
  note h3 = ht_heap_None [OF this assms(4)]
  have h1: "msg_ht_heap h src (heap1 H) = Inr (Some (hp, r1, Suc ?a), ?H2)"
    using ht_heap_Some [OF assms(2), of "heap1 H"] by simp
  have h2: "msg_body_heap h r1 (ucast (contentLength hp)) (ucast (parityLength hp)) ?H2 =
      Inr (Some (bd, r2, \<lparr>body_ptr = ?a + 2, content_ptr = Some (?a + 3), vparity_ptr = Some (?a + 4), hparity_ptr = Some (?a + 5)\<rparr>), ?H3)"
    using body_heap_Some [OF assms(3), of ?H2] by (simp add: eval_nat_numeral)
  have "c_free_all [Some (Suc ?a), Some (?a + 2), Some ?a] \<lparr>live = live ?H3, fresh = Suc (?a + 6)\<rparr> =
      Inr \<lparr>live = live H \<union> {?a + 3, ?a + 4, ?a + 5}, fresh = Suc (?a + 6)\<rparr>"
    using heap_ok_not_live [OF assms(1)] by (auto simp: c_free_def)
  then have "msg_from_bytes_heap h src H = Inr (None, \<lparr>live = live H \<union> {?a + 3, ?a + 4, ?a + 5}, fresh = Suc (?a + 6)\<rparr>)"
    using h1 h2 h3 by (simp only: msg_from_bytes_heap_def c_malloc_def Let_def prod.case c_bind_simps option.case body_ptrs.simps heap.simps)
  then show ?thesis by simp
qed

lemma parse_fails:
  assumes "heap_ok H" "msg_from_bytes h src = None"
  shows "\<exists>H'. msg_from_bytes_heap h src H = Inr (None, H') \<and> live H' = live H \<union> leaked (stage h src) (fresh H)"
proof -
  note stages = stage_def msg_from_bytes_def msg_header_from_bytes_def msg_trailer_from_bytes_def
  consider "msg_ht_from_bytes h src = None"
    | hp r1 where "msg_ht_from_bytes h src = Some (hp, r1)" "msg_body_from_bytes h r1 (ucast (contentLength hp)) (ucast (parityLength hp)) = None"
    | hp r1 bd r2 where "msg_ht_from_bytes h src = Some (hp, r1)"
        "msg_body_from_bytes h r1 (ucast (contentLength hp)) (ucast (parityLength hp)) = Some (bd, r2)" "msg_ht_from_bytes h r2 = None"
    using assms(2) by (auto simp: stages split: option.splits)
  then show ?thesis
  proof cases
    case 1
    then show ?thesis using parse_no_header [OF assms(1) 1] by (simp add: stages)
  next
    case 2
    then show ?thesis using parse_no_body [OF assms(1) 2] by (simp add: stages)
  next
    case 3
    then show ?thesis using parse_no_trailer [OF assms(1) 3] by (simp add: stages)
  qed
qed

text \<open>The seven blocks of a message, allocated one after the other.\<close>

inductive owns :: "msg_ptrs \<Rightarrow> heap \<Rightarrow> heap \<Rightarrow> bool" where
  seven: "distinct [m, ha, tr, b, cn, vp, hp] \<Longrightarrow> live H \<inter> {m, ha, tr, b, cn, vp, hp} = {} \<Longrightarrow>
    live H' = live H \<union> {m, ha, tr, b, cn, vp, hp} \<Longrightarrow>
    owns \<lparr>msg_ptr = m, head_ptr = Some ha, trail_ptr = Some tr,
      body_part = Some \<lparr>body_ptr = b, content_ptr = Some cn, vparity_ptr = Some vp, hparity_ptr = Some hp\<rparr>\<rparr> H H'"

lemma free_owned:
  assumes "owns p H H'"
  shows "\<exists>H2. free_msg p H' = Inr H2 \<and> live H2 = live H \<and> free_msg p H2 = Inl Use_After_Free"
  using assms
proof cases
  case (seven m ha tr b cn vp hp)
  have "free_msg p H' = Inr (H'\<lparr>live := live H' - {cn} - {hp} - {vp} - {ha} - {b} - {tr} - {m}\<rparr>)"
    using seven(2) by (auto simp: free_msg_def seven(1,4) c_free_def)
  moreover have "live H' - {cn} - {hp} - {vp} - {ha} - {b} - {tr} - {m} = live H"
    using seven(3,4) by blast
  moreover have "m \<notin> live H" using seven(3) by blast
  ultimately show ?thesis by (simp add: free_msg_def seven(1))
qed

lemma owns_grows: "owns p H H' \<Longrightarrow> live H \<subset> live H'"
  by (erule owns.cases) auto

lemma seven_fresh:
  assumes "heap_ok H" "a = fresh H" "{m, ha, tr, b, cn, vp, hp} = {a, a + 1, a + 2, a + 3, a + 4, a + 5, a + 6}"
  shows "live H \<inter> {m, ha, tr, b, cn, vp, hp} = {}"
  unfolding assms(3) using heap_ok_not_live [OF assms(1)] assms(2) by auto

lemma form_owned:
  assumes "heap_ok H" "form_msg_heap r s d ct dt n src clen H = Inr (m, p, H')"
  shows "owns p H H'"
proof -
  let ?a = "fresh H"
  have p: "p = \<lparr>msg_ptr = ?a, head_ptr = Some (?a + 1), trail_ptr = Some (?a + 3), body_part = Some
      \<lparr>body_ptr = ?a + 2, content_ptr = Some (?a + 4), vparity_ptr = Some (?a + 5), hparity_ptr = Some (?a + 6)\<rparr>\<rparr>"
    and l: "live H' = live H \<union> {?a, ?a + 1, ?a + 3, ?a + 2, ?a + 4, ?a + 5, ?a + 6}"
    using assms(2) by (auto simp: form_msg_heap_def c_malloc_def Let_def c_result_iff eval_nat_numeral)
  show ?thesis
    unfolding p by (rule owns.seven [OF _ seven_fresh [OF assms(1) refl] l]) auto
qed

lemma parse_owned:
  assumes "heap_ok H" "msg_from_bytes h src = Some m"
  shows "\<exists>p H'. msg_from_bytes_heap h src H = Inr (Some (m, p), H') \<and> owns p H H'"
proof -
  let ?a = "fresh H"
  obtain hp r1 bd r2 tr r3 where q: "msg_ht_from_bytes h src = Some (hp, r1)"
    "msg_body_from_bytes h r1 (ucast (contentLength hp)) (ucast (parityLength hp)) = Some (bd, r2)"
    "msg_ht_from_bytes h r2 = Some (tr, r3)" "m = \<lparr>head = hp, body = bd, trail = tr\<rparr>"
    using assms(2) by (auto simp: msg_from_bytes_def msg_header_from_bytes_def msg_trailer_from_bytes_def split: option.splits)
  let ?p = "\<lparr>msg_ptr = ?a, head_ptr = Some (?a + 1), trail_ptr = Some (?a + 6), body_part = Some
      \<lparr>body_ptr = ?a + 2, content_ptr = Some (?a + 3), vparity_ptr = Some (?a + 4), hparity_ptr = Some (?a + 5)\<rparr>\<rparr>"
  obtain H' where H': "msg_from_bytes_heap h src H = Inr (Some (m, ?p), H')"
    "live H' = live H \<union> {?a, ?a + 1, ?a + 6, ?a + 2, ?a + 3, ?a + 4, ?a + 5}"
    by (auto simp: msg_from_bytes_heap_def c_malloc_def ht_heap_Some [OF q(1)] ht_heap_Some [OF q(3)] body_heap_Some [OF q(2)] q(4)
        eval_nat_numeral)
  have "owns ?p H H'"
    by (rule owns.seven [OF _ seven_fresh [OF assms(1) refl] H'(2)]) auto
  then show ?thesis using H'(1) by blast
qed

subsection \<open>Properties\<close>

text \<open>
  C13. Ownership of messages: a message that was formed or parsed owns seven blocks, all different and new; releasing it gives exactly
  these blocks back and nothing else, and releasing it a second time uses freed memory.
\<close>

theorem msg_released_once:
  assumes "heap_ok H"
  shows "(form_msg_heap r s d ct dt n src clen H = Inr (m, p, H1) \<longrightarrow>
       (\<exists>H2. free_msg p H1 = Inr H2 \<and> live H2 = live H \<and> free_msg p H2 = Inl Use_After_Free))
     \<and> (msg_from_bytes h bs = Some m' \<longrightarrow>
       (\<exists>p' H1 H2. msg_from_bytes_heap h bs H = Inr (Some (m', p'), H1) \<and> live H \<subset> live H1
          \<and> free_msg p' H1 = Inr H2 \<and> live H2 = live H \<and> free_msg p' H2 = Inl Use_After_Free))"
  using form_owned [OF assms] parse_owned [OF assms, of h bs m'] free_owned owns_grows by (metis (no_types, lifting))

text \<open>
  C38. Bytes that are no message: the parser with its memory operations refuses exactly when the parser does, but it does not give
  all memory back. Without a complete header the message block stays allocated; when only the trailer is missing, the
  three arrays of the body do; a failure inside the body loses nothing.
\<close>

theorem parse_failure_leaks:
  assumes "heap_ok H" "msg_from_bytes h src = None"
  shows "\<exists>H'. msg_from_bytes_heap h src H = Inr (None, H')
     \<and> live H \<subseteq> live H' \<and> card (live H' - live H) = (case stage h src of No_Header \<Rightarrow> 1 | No_Trailer \<Rightarrow> 3 | _ \<Rightarrow> 0)"
proof -
  obtain H' where H': "msg_from_bytes_heap h src H = Inr (None, H')" "live H' = live H \<union> leaked (stage h src) (fresh H)"
    using parse_fails [OF assms] by blast
  have "live H' - live H = leaked (stage h src) (fresh H)"
    using heap_ok_not_live [OF assms(1)] unfolding H'(2) by (cases "stage h src") auto
  then show ?thesis using H' by (cases "stage h src") auto
qed

theorem parse_failure_leaks_witness:
  "\<exists>H'. msg_from_bytes_heap Big_Host [1, 2, 3] \<lparr>live = {}, fresh = 0\<rparr> = Inr (None, H')
     \<and> live \<lparr>live = {}, fresh = 0\<rparr> \<subseteq> live H'
     \<and> card (live H' - live \<lparr>live = {}, fresh = 0\<rparr>) = (case stage Big_Host [1, 2, 3] of No_Header \<Rightarrow> 1 | No_Trailer \<Rightarrow> 3 | _ \<Rightarrow> 0)"
  by (rule parse_failure_leaks) (simp_all add: heap_ok_def msg_from_bytes_def msg_header_from_bytes_def msg_ht_from_bytes_def safe_memcpy_def
      sizeof_msg_header_def)

theorem msg_released_once_witness:
  "\<exists>p' H1 H2. msg_from_bytes_heap Little_Host (msg_wire sample_msg) \<lparr>live = {7}, fresh = 9\<rparr> = Inr (Some (sample_msg, p'), H1)
     \<and> live \<lparr>live = {7}, fresh = 9\<rparr> \<subset> live H1 \<and> free_msg p' H1 = Inr H2 \<and> live H2 = {7} \<and> free_msg p' H2 = Inl Use_After_Free"
proof -
  have "msg_from_bytes Little_Host (msg_wire sample_msg) = Some sample_msg"
    unfolding sample_msg_def msg_from_bytes_Some_iff by (intro conjI exI [of _ "[]"] wf_msg_layout wf_formed_msg) simp_all
  then show ?thesis
    using msg_released_once [of "\<lparr>live = {7}, fresh = 9\<rparr>" _ _ _ _ _ _ _ _ _ _ _ Little_Host "msg_wire sample_msg" sample_msg]
    by (simp add: heap_ok_def)
qed

end
