(* ===== verification/File_Handle.thy ===== *)
theory File_Handle
  imports Byte_Help
begin

text \<open>
  \<^verbatim>\<open>src/justin-snapshot/src/file_handle.c\<close>: handles on the files of a directory and the segments of a file. The
  file system is an argument: \<open>fs\<close> maps a path to the bytes of the file, \<open>None\<close> if it cannot be opened. An open
  file is its bytes. The name in a handle is the suffix of its path that \<^verbatim>\<open>fileName\<close> points at. The mutex of a
  handle protects the seek and the read that follows it; a segment is read in one step here.
\<close>

type_synonym file_system = "bytes \<Rightarrow> bytes option"

record file_handle_t =
  pointer :: "bytes option"
  pointerStatus :: bool
  path :: bytes
  fileName :: bytes
  fileSize :: uint64

record dir_handle_t =
  handles :: "file_handle_t list"
  dir :: bytes

definition ffsize :: "bytes option \<Rightarrow> uint64 c_result" where
  "ffsize stream = (case stream of None \<Rightarrow> Inl Null_Deref | Some d \<Rightarrow> Inr (word_of_nat (length d)))"

text \<open>A C string ends at its first zero byte.\<close>

definition c_string :: "bytes \<Rightarrow> bytes" where
  "c_string bs = takeWhile (\<lambda>b. b \<noteq> 0) bs"

definition ffopen :: "file_system \<Rightarrow> bytes \<Rightarrow> bytes option" where
  "ffopen fs p = fs (c_string (p @ [0]))"

text \<open>The loop from \<open>i\<close> down to 1; 47 is the slash.\<close>

fun name_loop :: "bytes \<Rightarrow> nat \<Rightarrow> bytes" where
  "name_loop p 0 = p"
| "name_loop p (Suc i) = (if p ! i = 47 then drop (Suc i) p else name_loop p i)"

definition getFileNameFromPath :: "bytes \<Rightarrow> bytes" where
  "getFileNameFromPath p = name_loop p (length p)"

definition open_file_handle :: "uint64 \<Rightarrow> bytes \<Rightarrow> file_handle_t c_result" where
  "open_file_handle plength p =
     c_bind (copy_void p plength) (\<lambda>path.
     Inr \<lparr>pointer = None, pointerStatus = False, path = path, fileName = getFileNameFromPath path, fileSize = 0\<rparr>)"

definition ready_file_handle :: "file_system \<Rightarrow> file_handle_t \<Rightarrow> file_handle_t c_result" where
  "ready_file_handle fs fhandle =
     (let p = ffopen fs (path fhandle) in
      c_bind (ffsize p) (\<lambda>n.
      Inr (fhandle\<lparr>pointer := p, fileSize := n, pointerStatus := True\<rparr>)))"

subsection \<open>Directories\<close>

text \<open>
  The directory is read twice, first to count its entries that are no directories (type 4), then to open them;
  the directories of the system at these two moments are separate arguments, \<open>None\<close> for a path that cannot be opened, and
  reading a directory that was not opened dereferences a null pointer. Entries of the second listing go into
  the array sized by the first one.
\<close>

type_synonym listing = "(uint8 \<times> bytes) list"
type_synonym dir_system = "bytes \<Rightarrow> listing option"

definition ddopen :: "dir_system \<Rightarrow> bytes \<Rightarrow> listing option" where
  "ddopen ds p = ds (c_string (p @ [0]))"

definition readdir_all :: "listing option \<Rightarrow> listing c_result" where
  "readdir_all dirp = (case dirp of None \<Rightarrow> Inl Null_Deref | Some l \<Rightarrow> Inr l)"

definition files_of :: "listing \<Rightarrow> bytes list" where
  "files_of ds = map snd (filter (\<lambda>d. fst d \<noteq> 4) ds)"

definition open_entry :: "garbage \<Rightarrow> bytes \<Rightarrow> bytes \<Rightarrow> file_handle_t c_result" where
  "open_entry g d name =
     c_bind (combine_voids g d (word_of_nat (length d)) name (word_of_nat (length name))) (\<lambda>fpath.
     open_file_handle (word_of_nat (length d) + word_of_nat (length name)) fpath)"

fun open_loop :: "garbage \<Rightarrow> bytes \<Rightarrow> nat \<Rightarrow> bytes list \<Rightarrow> file_handle_t list \<Rightarrow> file_handle_t list c_result" where
  "open_loop g d numHandles [] hs = Inr hs"
| "open_loop g d numHandles (name # names) hs =
     c_bind (open_entry g d name) (\<lambda>fh.
     if length hs < numHandles then open_loop g d numHandles names (hs @ [fh]) else Inl OOB_Write)"

fun ready_loop :: "file_system \<Rightarrow> file_handle_t list \<Rightarrow> file_handle_t list c_result" where
  "ready_loop fs [] = Inr []"
| "ready_loop fs (fh # fhs) =
     c_bind (ready_file_handle fs fh) (\<lambda>fh. c_bind (ready_loop fs fhs) (\<lambda>fhs. Inr (fh # fhs)))"

definition open_dir_handle ::
    "garbage \<Rightarrow> file_system \<Rightarrow> dir_system \<Rightarrow> dir_system \<Rightarrow> bytes \<Rightarrow> dir_handle_t c_result" where
  "open_dir_handle g fs ds1 ds2 d =
     c_bind (add_to_void g d (word_of_nat (length d)) 1) (\<lambda>d1.
     (let d1 = d1[length d := 47] in
      c_bind (readdir_all (ddopen ds1 d1)) (\<lambda>listing1.
      (let numHandles = length (files_of listing1) in
       c_bind (readdir_all (ddopen ds2 d1)) (\<lambda>listing2.
       c_bind (open_loop g d1 numHandles (files_of listing2) []) (\<lambda>hs.
       c_bind (c_guard (length hs = numHandles) Uninitialised_Use) (\<lambda>_.
       c_bind (ready_loop fs hs) (\<lambda>hs. Inr \<lparr>handles = hs, dir = d1\<rparr>))))))))"

subsection \<open>Closing\<close>

text \<open>\<^verbatim>\<open>fclose\<close> of a null stream is an error; the memory of a handle is released once, with its handle.\<close>

definition close_file_handle :: "file_handle_t \<Rightarrow> unit c_result" where
  "close_file_handle fhandle = c_guard (pointerStatus fhandle \<longrightarrow> pointer fhandle \<noteq> None) Null_Deref"

fun close_loop :: "file_handle_t list \<Rightarrow> unit c_result" where
  "close_loop [] = Inr ()"
| "close_loop (fh # fhs) = c_bind (close_file_handle fh) (\<lambda>_. close_loop fhs)"

definition close_dir_handle :: "dir_handle_t \<Rightarrow> unit c_result" where
  "close_dir_handle dhandle = close_loop (handles dhandle)"

subsection \<open>Segments\<close>

definition num_segments_in_file_handle :: "file_handle_t \<Rightarrow> uint64 \<Rightarrow> uint64 c_result" where
  "num_segments_in_file_handle fhandle segmentSize =
     (if segmentSize = 0 then Inl Div_By_Zero
      else Inr (if fileSize fhandle mod segmentSize = 0 then fileSize fhandle div segmentSize
                else fileSize fhandle div segmentSize + 1))"

fun handle_loop :: "file_handle_t list \<Rightarrow> bytes \<Rightarrow> file_handle_t option c_result" where
  "handle_loop [] file = Inr None"
| "handle_loop (fh # fhs) file =
     c_bind (compare_bytes file (word_of_nat (length file)) (fileName fh) (word_of_nat (length (fileName fh)))) (\<lambda>eq.
     if eq then Inr (Some fh) else handle_loop fhs file)"

definition file_handle_for_file :: "dir_handle_t \<Rightarrow> bytes \<Rightarrow> file_handle_t option c_result" where
  "file_handle_for_file dhandle file = handle_loop (handles dhandle) file"

text \<open>
  The offset passed to \<^verbatim>\<open>fseek\<close> is cut to 32 bits. \<^verbatim>\<open>fread\<close> fills the front of the buffer with what the file still
  has; the rest of the buffer stays as \<^verbatim>\<open>malloc\<close> left it. The result is the buffer (\<open>None\<close> for \<^verbatim>\<open>NULL\<close>), whose
  length is \<^verbatim>\<open>*numBytes\<close>.
\<close>

definition segment_in_file_handle ::
    "garbage \<Rightarrow> file_handle_t \<Rightarrow> uint64 \<Rightarrow> uint64 \<Rightarrow> bytes option c_result" where
  "segment_in_file_handle g fhandle segmentNum segmentSize =
     (if segmentNum = 0 then Inr None
      else c_bind (num_segments_in_file_handle fhandle segmentSize) (\<lambda>n.
        if segmentNum > n then Inr None
        else (let start = (segmentNum - 1) * segmentSize;
                  numBytes = (if start + segmentSize > fileSize fhandle then fileSize fhandle - start else segmentSize)
              in case pointer fhandle of
                   None \<Rightarrow> Inl Null_Deref
                 | Some d \<Rightarrow>
                     (let got = take (unat numBytes) (drop (unat (ucast start :: uint32)) d)
                      in Inr (Some (got @ map g [length got..<unat numBytes]))))))"

end
