(* ===== verification/Conn_Chan.thy ===== *)
theory Conn_Chan
  imports Message File_Handle
begin

text \<open>
  \<^verbatim>\<open>src/justin-snapshot/src/conn_chan.c\<close> and the lookup of \<^verbatim>\<open>src/justin-snapshot/src/server_help.c\<close>: the server's table of
  connections, each with its channels. The arrays are lists, whose lengths are \<^verbatim>\<open>totalConnections\<close> and
  \<^verbatim>\<open>numChans\<close>. Growing an array that is not empty allocates one slot too few and then writes the missing slot;
  whether that leaves the allocation depends on how many slots the allocator really provides for a request,
  the argument \<open>usable\<close>. Closing a channel waits for its thread, which ends when it sees \<^verbatim>\<open>kill\<close>.
  What the system and the threads contribute to the main loop is a record: \<open>slots\<close> is \<open>usable\<close>; \<open>thread_for\<close> is the number that
  \<^verbatim>\<open>pthread_create\<close> stores for a new channel; \<open>joins\<close> is how the wait for the thread of a closed channel ends, with the error by which that
  thread stops the program while it ends (\<open>fork_server_channel\<close> in \<open>Server_Thread\<close>), if it does; \<open>freed_read\<close> is what a read of the
  address in a released connection does. Joining the thread number 0, which no thread has, dereferences a null pointer.
\<close>

record channel_t =
  chan_sock :: int
  selfID :: uint64
  otherID :: uint64
  maxSize :: uint64
  chan_handle :: "file_handle_t option"
  chan_data :: bool
  chan_kill :: bool
  chan_ready :: bool
  chan_value :: "msg_t option"
  chan_thread :: uint64

record connection_t =
  conn_sock :: int
  chans :: "channel_t list"

record conn_table =
  conns :: "connection_t list"
  totalChannels :: uint64

record machine =
  slots :: "nat \<Rightarrow> nat"
  thread_for :: "channel_t \<Rightarrow> uint64"
  joins :: "channel_t \<Rightarrow> unit c_result"
  freed_read :: "unit c_result"

definition conn_init :: conn_table where
  "conn_init = \<lparr>conns = [], totalChannels = 0\<rparr>"

text \<open>
  Growing an array: the first entry goes into a fresh array of one slot; otherwise \<open>n\<close> entries are copied into
  \<open>n\<close> slots and slot \<open>n\<close> is written.
\<close>

definition grow_array :: "(nat \<Rightarrow> nat) \<Rightarrow> 'a list \<Rightarrow> 'a \<Rightarrow> 'a list c_result" where
  "grow_array usable xs x =
     (if xs = [] then Inr [x]
      else c_bind (c_guard (length xs < usable (length xs)) OOB_Write) (\<lambda>_. Inr (xs @ [x])))"

definition new_connection :: "(nat \<Rightarrow> nat) \<Rightarrow> conn_table \<Rightarrow> conn_table c_result" where
  "new_connection usable t =
     c_bind (grow_array usable (conns t) \<lparr>conn_sock = 0, chans = []\<rparr>) (\<lambda>cs. Inr (t\<lparr>conns := cs\<rparr>))"

definition blank_channel :: channel_t where
  "blank_channel =
     \<lparr>chan_sock = 0, selfID = 0, otherID = 0, maxSize = 0, chan_handle = None,
      chan_data = False, chan_kill = False, chan_ready = False, chan_value = None, chan_thread = 0\<rparr>"

definition new_channel :: "(nat \<Rightarrow> nat) \<Rightarrow> conn_table \<Rightarrow> nat \<Rightarrow> conn_table c_result" where
  "new_channel usable t conn_index =
     c_bind (c_guard (conn_index < length (conns t)) OOB_Read) (\<lambda>_.
     c_bind (grow_array usable (chans (conns t ! conn_index)) blank_channel) (\<lambda>chs.
     Inr \<lparr>conns = (conns t)[conn_index := (conns t ! conn_index)\<lparr>chans := chs\<rparr>],
          totalChannels = totalChannels t + 1\<rparr>))"

definition pthread_join :: "machine \<Rightarrow> channel_t \<Rightarrow> unit c_result" where
  "pthread_join mc ch = (if chan_thread ch = 0 then Inl Null_Deref else joins mc ch)"

definition end_channel :: "machine \<Rightarrow> conn_table \<Rightarrow> nat \<Rightarrow> nat \<Rightarrow> conn_table c_result" where
  "end_channel mc t conn_index chan_index =
     c_bind (c_guard (conn_index < length (conns t) \<and> chan_index < length (chans (conns t ! conn_index))) OOB_Read) (\<lambda>_.
     c_bind (pthread_join mc ((chans (conns t ! conn_index) ! chan_index)\<lparr>chan_kill := True\<rparr>)) (\<lambda>_.
     Inr \<lparr>conns = (conns t)[conn_index := (conns t ! conn_index)
                     \<lparr>chans := array_remove chan_index (chans (conns t ! conn_index))\<rparr>],
          totalChannels = totalChannels t - 1\<rparr>))"

text \<open>The loop of \<^verbatim>\<open>end_connection\<close>: channel 0 is ended until none is left.\<close>

function end_channels :: "machine \<Rightarrow> conn_table \<Rightarrow> nat \<Rightarrow> conn_table c_result" where
  "end_channels mc t index =
     (if index < length (conns t) then
        (if length (chans (conns t ! index)) \<noteq> 0
         then (case end_channel mc t index 0 of Inl e \<Rightarrow> Inl e | Inr t' \<Rightarrow> end_channels mc t' index)
         else Inr t)
      else Inl OOB_Read)"
  by pat_completeness auto
termination
  by (relation "measure (\<lambda>(mc, t, index). length (chans (conns t ! index)))")
    (auto simp: end_channel_def c_result_iff)

definition end_connection :: "machine \<Rightarrow> conn_table \<Rightarrow> nat \<Rightarrow> conn_table c_result" where
  "end_connection mc t index =
     c_bind (end_channels mc t index) (\<lambda>t. Inr (t\<lparr>conns := array_remove index (conns t)\<rparr>))"

text \<open>The fuel of \<^verbatim>\<open>end_all_connections\<close> is the number of connections.\<close>

fun end_all :: "machine \<Rightarrow> nat \<Rightarrow> conn_table \<Rightarrow> conn_table c_result" where
  "end_all mc 0 t = (if conns t = [] then Inr t else Inl Diverges)"
| "end_all mc (Suc fuel) t =
     (if conns t = [] then Inr t else c_bind (end_connection mc t 0) (\<lambda>t. end_all mc fuel t))"

definition end_all_connections :: "machine \<Rightarrow> conn_table \<Rightarrow> conn_table c_result" where
  "end_all_connections mc t = end_all mc (length (conns t)) t"

subsection \<open>Finding a channel\<close>

fun find_index :: "('a \<Rightarrow> bool) \<Rightarrow> 'a list \<Rightarrow> nat \<Rightarrow> nat option" where
  "find_index P [] i = None"
| "find_index P (x # xs) i = (if P x then Some i else find_index P xs (Suc i))"

definition find_existing_channel :: "connection_t \<Rightarrow> uint64 \<Rightarrow> uint64 \<Rightarrow> nat option" where
  "find_existing_channel c send_id recv_id =
     (case find_index (\<lambda>ch. selfID ch = recv_id) (chans c) 0 of
        Some i \<Rightarrow> Some i
      | None \<Rightarrow> find_index (\<lambda>ch. otherID ch = send_id) (chans c) 0)"

declare end_channels.simps [simp del]

subsection \<open>The count of channels\<close>

definition channel_count :: "conn_table \<Rightarrow> nat" where
  "channel_count t = sum_list (map (\<lambda>c. length (chans c)) (conns t))"

definition counted :: "conn_table \<Rightarrow> bool" where
  "counted t \<longleftrightarrow> totalChannels t = word_of_nat (channel_count t)"

lemma grow_array_Inr: "grow_array usable xs x = Inr ys \<Longrightarrow> ys = xs @ [x]"
  by (auto simp: grow_array_def c_result_iff split: if_splits)

lemma grow_array_strict: "xs \<noteq> [] \<Longrightarrow> usable (length xs) = length xs \<Longrightarrow> grow_array usable xs x = Inl OOB_Write"
  by (simp add: grow_array_def)

lemma grow_array_ok: "xs = [] \<or> length xs < usable (length xs) \<Longrightarrow> grow_array usable xs x = Inr (xs @ [x])"
  by (auto simp: grow_array_def)

lemma sum_list_update_nat:
  "i < length xs \<Longrightarrow> sum_list (xs[i := (y :: nat)]) + xs ! i = sum_list xs + y"
  by (induction xs arbitrary: i) (auto split: nat.split)

lemma channel_count_update:
  assumes "i < length (conns t)"
  shows "channel_count (t\<lparr>conns := (conns t)[i := c]\<rparr>) + length (chans (conns t ! i)) = channel_count t + length (chans c)"
  using sum_list_update_nat [of i "map (\<lambda>c. length (chans c)) (conns t)" "length (chans c)"] assms
  by (simp add: channel_count_def map_update)

lemma channel_count_member: "i < length (conns t) \<Longrightarrow> length (chans (conns t ! i)) \<le> channel_count t"
  by (auto simp: channel_count_def intro: member_le_sum_list)

lemma new_channel_Inr:
  assumes "new_channel usable t i = Inr t'"
  shows "i < length (conns t)" "conns t' = (conns t)[i := (conns t ! i)\<lparr>chans := chans (conns t ! i) @ [blank_channel]\<rparr>]"
    "totalChannels t' = totalChannels t + 1" "channel_count t' = Suc (channel_count t)"
proof -
  show *: "i < length (conns t)" "conns t' = (conns t)[i := (conns t ! i)\<lparr>chans := chans (conns t ! i) @ [blank_channel]\<rparr>]"
    "totalChannels t' = totalChannels t + 1"
    using assms by (auto simp: new_channel_def c_result_iff dest!: grow_array_Inr)
  show "channel_count t' = Suc (channel_count t)"
    using channel_count_update [OF *(1), of "(conns t ! i)\<lparr>chans := chans (conns t ! i) @ [blank_channel]\<rparr>"] *(2)
    by (simp add: channel_count_def)
qed

text \<open>A channel is joined without an error.\<close>

definition joinable :: "machine \<Rightarrow> channel_t \<Rightarrow> bool" where
  "joinable mc ch \<longleftrightarrow> pthread_join mc (ch\<lparr>chan_kill := True\<rparr>) = Inr ()"

lemma not_joinable: "\<not> joinable mc ch \<Longrightarrow> \<exists>e. pthread_join mc (ch\<lparr>chan_kill := True\<rparr>) = Inl e"
  by (cases "pthread_join mc (ch\<lparr>chan_kill := True\<rparr>)") (auto simp: joinable_def)

lemma end_channel_ok_iff:
  assumes "i < length (conns t)" "j < length (chans (conns t ! i))"
  shows "(\<exists>t'. end_channel mc t i j = Inr t') \<longleftrightarrow> joinable mc (chans (conns t ! i) ! j)"
  using assms not_joinable [of mc "chans (conns t ! i) ! j"] by (auto simp: end_channel_def joinable_def c_result_iff)

lemma end_channel_Inr:
  assumes "end_channel mc t i j = Inr t'"
  shows "i < length (conns t)" "j < length (chans (conns t ! i))"
    "conns t' = (conns t)[i := (conns t ! i)\<lparr>chans := array_remove j (chans (conns t ! i))\<rparr>]"
    "totalChannels t' = totalChannels t - 1" "Suc (channel_count t') = channel_count t"
proof -
  show *: "i < length (conns t)" "j < length (chans (conns t ! i))"
    "conns t' = (conns t)[i := (conns t ! i)\<lparr>chans := array_remove j (chans (conns t ! i))\<rparr>]" "totalChannels t' = totalChannels t - 1"
    using assms by (auto simp: end_channel_def c_result_iff)
  have "channel_count t' + length (chans (conns t ! i)) = channel_count t + (length (chans (conns t ! i)) - 1)"
    using channel_count_update [OF *(1), of "(conns t ! i)\<lparr>chans := array_remove j (chans (conns t ! i))\<rparr>"] *(2)
    by (simp add: channel_count_def *(3))
  then show "Suc (channel_count t') = channel_count t" using *(2) by linarith
qed

lemma array_remove_first [simp]: "array_remove 0 (x # xs) = xs"
  by (simp add: array_remove_eq)

text \<open>Closing the channels of a connection: it succeeds when every thread is joined, and ends with the error of the first that is not.\<close>

lemma end_channels_result:
  "i < length (conns t) \<Longrightarrow>
   (if list_all (joinable mc) (chans (conns t ! i))
    then \<exists>t'. end_channels mc t i = Inr t' \<and> conns t' = (conns t)[i := (conns t ! i)\<lparr>chans := []\<rparr>]
       \<and> totalChannels t' = totalChannels t - word_of_nat (length (chans (conns t ! i)))
       \<and> channel_count t' + length (chans (conns t ! i)) = channel_count t
    else \<exists>ch e. ch \<in> set (chans (conns t ! i)) \<and> pthread_join mc (ch\<lparr>chan_kill := True\<rparr>) = Inl e \<and> end_channels mc t i = Inl e)"
proof (induction "chans (conns t ! i)" arbitrary: t)
  case Nil
  then have "(conns t ! i)\<lparr>chans := []\<rparr> = conns t ! i"
    by (cases "conns t ! i") simp
  then have "(conns t)[i := (conns t ! i)\<lparr>chans := []\<rparr>] = conns t"
    by (simp only: list_update_id)
  then show ?case
    using Nil.prems Nil.hyps [symmetric] by (simp add: end_channels.simps)
next
  case (Cons ch chs)
  note c = Cons.hyps(2) [symmetric]
  have unfold: "end_channels mc t i = (case end_channel mc t i 0 of Inl e \<Rightarrow> Inl e | Inr t' \<Rightarrow> end_channels mc t' i)"
    using Cons.prems c by (subst end_channels.simps) simp
  show ?case
  proof (cases "joinable mc ch")
    case True
    then obtain t1 where t1: "end_channel mc t i 0 = Inr t1"
      using end_channel_ok_iff [OF Cons.prems, of 0 mc] c by auto
    note e = end_channel_Inr [OF t1]
    have "chs = chans (conns t1 ! i)" "i < length (conns t1)" using Cons.prems by (simp_all add: e(3) c)
    from Cons.hyps(1) [OF this] show ?thesis
      using True Cons.prems e(4,5) unfolding unfold t1 sum.case by (auto simp: c e(3) split: if_splits)
  next
    case False
    then obtain e where "pthread_join mc (ch\<lparr>chan_kill := True\<rparr>) = Inl e" using not_joinable by blast
    then show ?thesis
      using False Cons.prems unfolding unfold by (auto simp: c end_channel_def)
  qed
qed

lemma sum_list_remove_nth:
  "i < length xs \<Longrightarrow> sum_list (map f (take i xs @ drop (Suc i) xs)) + f (xs ! i) = (sum_list (map f xs) :: nat)"
  by (subst (3) id_take_nth_drop [of i xs]) simp_all

lemma end_connection_result:
  assumes "i < length (conns t)"
  shows "if list_all (joinable mc) (chans (conns t ! i))
     then \<exists>t'. end_connection mc t i = Inr t' \<and> conns t' = take i (conns t) @ drop (Suc i) (conns t)
       \<and> totalChannels t' = totalChannels t - word_of_nat (length (chans (conns t ! i)))
       \<and> channel_count t' + length (chans (conns t ! i)) = channel_count t
     else \<exists>ch e. ch \<in> set (chans (conns t ! i)) \<and> pthread_join mc (ch\<lparr>chan_kill := True\<rparr>) = Inl e \<and> end_connection mc t i = Inl e"
proof (cases "list_all (joinable mc) (chans (conns t ! i))")
  case True
  then obtain t1 where t1: "end_channels mc t i = Inr t1" "conns t1 = (conns t)[i := (conns t ! i)\<lparr>chans := []\<rparr>]"
     "totalChannels t1 = totalChannels t - word_of_nat (length (chans (conns t ! i)))"
    using end_channels_result [OF assms, of mc] by auto
  have c: "array_remove i (conns t1) = take i (conns t) @ drop (Suc i) (conns t)"
    using assms by (simp add: t1(2) array_remove_eq)
  show ?thesis
    using True t1(1,3) assms sum_list_remove_nth [of i "conns t" "\<lambda>c. length (chans c)"]
    by (simp add: end_connection_def c channel_count_def)
next
  case False
  then show ?thesis
    using end_channels_result [OF assms, of mc] by (auto simp: end_connection_def)
qed

lemma end_connection_Inr:
  assumes "i < length (conns t)" "end_connection mc t i = Inr t'"
  shows "conns t' = take i (conns t) @ drop (Suc i) (conns t)"
    "totalChannels t' = totalChannels t - word_of_nat (length (chans (conns t ! i)))"
    "channel_count t' + length (chans (conns t ! i)) = channel_count t"
  using end_connection_result [OF assms(1), of mc] assms(2) by (auto split: if_splits)

lemma counted_end_connection:
  assumes "i < length (conns t)" "counted t" "end_connection mc t i = Inr t'"
  shows "counted t' \<and> channel_count t' \<le> channel_count t"
proof -
  note e = end_connection_Inr [OF assms(1,3)]
  have "channel_count t' = channel_count t - length (chans (conns t ! i))" "length (chans (conns t ! i)) \<le> channel_count t"
    using e(3) by linarith+
  with e(2) show ?thesis
    using assms(2) by (simp add: counted_def of_nat_diff)
qed

lemma end_all_result:
  "length (conns t) = n \<Longrightarrow> counted t \<Longrightarrow>
   (if list_all (\<lambda>c. list_all (joinable mc) (chans c)) (conns t) then \<exists>t'. end_all mc n t = Inr t' \<and> conns t' = [] \<and> counted t'
    else \<exists>c ch e. c \<in> set (conns t) \<and> ch \<in> set (chans c) \<and> pthread_join mc (ch\<lparr>chan_kill := True\<rparr>) = Inl e \<and> end_all mc n t = Inl e)"
proof (induction n arbitrary: t)
  case (Suc n)
  then obtain c cs where cs: "conns t = c # cs" by (cases "conns t") auto
  have c: "conns t ! 0 = c" "0 < length (conns t)" by (simp_all add: cs)
  show ?case
  proof (cases "list_all (joinable mc) (chans c)")
    case True
    then obtain t1 where t1: "end_connection mc t 0 = Inr t1"
      using end_connection_result [OF c(2), of mc] c(1) by auto
    have "conns t1 = cs" using end_connection_Inr(1) [OF c(2) t1] by (simp add: cs)
    moreover have "counted t1" using counted_end_connection [OF c(2) Suc.prems(2) t1] by simp
    ultimately show ?thesis
      using True Suc.IH [of t1] Suc.prems(1) by (auto simp: cs t1 split: if_splits)
  next
    case False
    then show ?thesis using end_connection_result [OF c(2), of mc] by (fastforce simp: cs)
  qed
qed simp

lemma find_index_Some:
  "find_index P xs i = Some k \<Longrightarrow> i \<le> k \<and> k - i < length xs \<and> P (xs ! (k - i))"
  by (induction P xs i rule: find_index.induct) (auto simp: nth_Cons' split: if_splits)

lemma find_index_None: "find_index P xs i = None \<longleftrightarrow> (\<forall>x \<in> set xs. \<not> P x)"
  by (induction P xs i rule: find_index.induct) auto

lemma find_existing_channel_Some:
  "find_existing_channel c s r = Some k \<Longrightarrow> k < length (chans c) \<and> (selfID (chans c ! k) = r \<or> otherID (chans c ! k) = s)"
  by (auto simp: find_existing_channel_def split: option.splits dest: find_index_Some)

subsection \<open>Properties\<close>

text \<open>
  Growing a table that is not empty writes one slot past the array it has just allocated: with an allocator that
  provides exactly the slots asked for, the second connection, and the second channel of a
  connection, already corrupt the heap.
\<close>

theorem new_connection_overflow:
  assumes "\<And>n. usable n = n" "i < length (conns t)" "chans (conns t ! i) \<noteq> []"
  shows "new_connection usable t = Inl OOB_Write \<and> new_channel usable t i = Inl OOB_Write"
proof -
  have "conns t \<noteq> []" using assms(2) by auto
  then show ?thesis
    using assms by (simp add: new_connection_def new_channel_def grow_array_strict)
qed

theorem new_connection_overflow_witness:
  "new_connection (\<lambda>n. n) \<lparr>conns = [\<lparr>conn_sock = 4, chans = [blank_channel]\<rparr>], totalChannels = 1\<rparr> = Inl OOB_Write
   \<and> new_channel (\<lambda>n. n) \<lparr>conns = [\<lparr>conn_sock = 4, chans = [blank_channel]\<rparr>], totalChannels = 1\<rparr> 0 = Inl OOB_Write"
  by (rule new_connection_overflow) simp_all

text \<open>
  C32. Shutting down: closing all connections of a table whose counter is right waits for the thread of every channel; if every one is joined,
  the table is empty afterwards, with no connection, no channel and the counter at 0, and otherwise the program stops with the
  error of a channel that cannot be joined, for instance one that never got a thread.
\<close>

theorem end_all_connections_empties:
  assumes "counted t"
  shows "if list_all (\<lambda>c. list_all (\<lambda>ch. pthread_join mc (ch\<lparr>chan_kill := True\<rparr>) = Inr ()) (chans c)) (conns t)
     then end_all_connections mc t = Inr \<lparr>conns = [], totalChannels = 0\<rparr>
     else \<exists>c ch e. c \<in> set (conns t) \<and> ch \<in> set (chans c) \<and> pthread_join mc (ch\<lparr>chan_kill := True\<rparr>) = Inl e
       \<and> end_all_connections mc t = Inl e"
  using end_all_result [OF refl assms, of mc] conn_table.equality
  by (auto simp: end_all_connections_def counted_def channel_count_def joinable_def [abs_def] split: if_splits)

text \<open>Two channels with threads that end, and the same table with a channel that has none.\<close>

definition sample_machine :: machine where
  "sample_machine = \<lparr>slots = (\<lambda>n. n), thread_for = (\<lambda>_. 11), joins = (\<lambda>_. Inr ()), freed_read = Inl Use_After_Free\<rparr>"

definition two_channels :: "uint64 \<Rightarrow> conn_table" where
  "two_channels n = \<lparr>conns = [\<lparr>conn_sock = 4, chans = [blank_channel\<lparr>chan_thread := 11\<rparr>]\<rparr>,
     \<lparr>conn_sock = 5, chans = [blank_channel\<lparr>chan_thread := n\<rparr>]\<rparr>], totalChannels = 2\<rparr>"

theorem end_all_connections_empties_witness:
  "end_all_connections sample_machine (two_channels 12) = Inr \<lparr>conns = [], totalChannels = 0\<rparr>
   \<and> end_all_connections sample_machine (two_channels 0) = Inl Null_Deref"
proof -
  have "counted (two_channels n)" for n by (simp add: counted_def channel_count_def two_channels_def)
  from end_all_connections_empties [OF this, of sample_machine 12] end_all_connections_empties [OF this, of sample_machine 0]
  show ?thesis by (auto simp: two_channels_def pthread_join_def sample_machine_def blank_channel_def split: if_splits)
qed

end
