(* ===== verification/Section_Pieces.thy ===== *)
theory Section_Pieces
  imports HipFT_Prelude
begin

text \<open>
  \<^verbatim>\<open>src/justin-snapshot/src/section.c\<close>: a set of 64-bit numbers kept as an array of pieces (closed intervals).
  The array is a list, whose length is \<^verbatim>\<open>numPieces\<close>. The state of the pointer \<^verbatim>\<open>pieces\<close> itself is kept as well,
  since \<^verbatim>\<open>delete_from_section\<close> may leave it dangling.
\<close>

record piece_t =
  lowBound :: uint64
  highBound :: uint64

datatype array_ptr = Null_Array | Live_Array | Freed_Array

record section_t =
  pieces :: "piece_t list"
  piecesPtr :: array_ptr

definition create_section :: section_t where
  "create_section = \<lparr>pieces = [], piecesPtr = Null_Array\<rparr>"

text \<open>
  The search loop of \<^verbatim>\<open>add_to_section\<close> from index \<open>i\<close>. \<open>Inl\<close> is the array when the loop returns, \<open>Inr\<close> the
  insertion index when it runs to its end. Additions on bounds wrap.
\<close>

definition extend_high :: "piece_t list \<Rightarrow> nat \<Rightarrow> uint64 \<Rightarrow> piece_t list" where
  "extend_high ps i num =
     (let ps = ps[i := (ps ! i)\<lparr>highBound := num\<rparr>] in
      if i + 1 < length ps \<and> lowBound (ps ! (i + 1)) = highBound (ps ! i) + 1
      then array_remove i (ps[i + 1 := (ps ! (i + 1))\<lparr>lowBound := lowBound (ps ! i)\<rparr>])
      else ps)"

definition extend_low :: "piece_t list \<Rightarrow> nat \<Rightarrow> uint64 \<Rightarrow> piece_t list" where
  "extend_low ps i num =
     (let ps = ps[i := (ps ! i)\<lparr>lowBound := num\<rparr>] in
      if i > 0 \<and> highBound (ps ! (i - 1)) = lowBound (ps ! i) - 1
      then array_remove i (ps[i - 1 := (ps ! (i - 1))\<lparr>highBound := highBound (ps ! i)\<rparr>])
      else ps)"

function add_loop :: "piece_t list \<Rightarrow> uint64 \<Rightarrow> nat \<Rightarrow> nat \<Rightarrow> piece_t list + nat" where
  "add_loop ps num i index =
     (if i < length ps then
        (let index = (if highBound (ps ! i) < num then index + 1 else index) in
         if lowBound (ps ! i) \<le> num \<and> num \<le> highBound (ps ! i) then Inl ps
         else if highBound (ps ! i) + 1 = num then Inl (extend_high ps i num)
         else if lowBound (ps ! i) \<noteq> 0 \<and> lowBound (ps ! i) - 1 = num then Inl (extend_low ps i num)
         else add_loop ps num (i + 1) index)
      else Inr index)"
  by pat_completeness auto
termination by (relation "measure (\<lambda>(ps, num, i, index). length ps - i)") (auto split: if_splits)

definition add_to_section :: "section_t \<Rightarrow> uint64 \<Rightarrow> section_t" where
  "add_to_section sec num =
     (case add_loop (pieces sec) num 0 0 of
        Inl ps \<Rightarrow> sec\<lparr>pieces := ps\<rparr>
      | Inr index \<Rightarrow>
          (let temp_piece = \<lparr>lowBound = num, highBound = num\<rparr> in
           if pieces sec = [] then \<lparr>pieces = [temp_piece], piecesPtr = Live_Array\<rparr>
           else \<lparr>pieces = array_insert index temp_piece (pieces sec), piecesPtr = Live_Array\<rparr>))"

text \<open>
  The body of the loop of \<^verbatim>\<open>delete_from_section\<close> for the piece that holds the number, and the search for
  that piece.
\<close>

definition delete_at :: "section_t \<Rightarrow> nat \<Rightarrow> uint64 \<Rightarrow> section_t" where
  "delete_at sec i num =
     (let ps = pieces sec; p = ps ! i in
      if lowBound p < num \<and> num < highBound p
      then \<lparr>pieces = array_insert (i + 1) \<lparr>lowBound = num + 1, highBound = highBound p\<rparr>
                       (ps[i := p\<lparr>highBound := num - 1\<rparr>]), piecesPtr = Live_Array\<rparr>
      else if lowBound p = num \<and> num < highBound p
      then sec\<lparr>pieces := ps[i := p\<lparr>lowBound := num + 1\<rparr>]\<rparr>
      else if lowBound p < num \<and> highBound p = num
      then sec\<lparr>pieces := ps[i := p\<lparr>highBound := num - 1\<rparr>]\<rparr>
      else if length ps - 1 > 0
      then \<lparr>pieces = array_remove i ps, piecesPtr = Live_Array\<rparr>
      else \<lparr>pieces = [], piecesPtr = Freed_Array\<rparr>)"

function delete_loop :: "section_t \<Rightarrow> uint64 \<Rightarrow> nat \<Rightarrow> section_t" where
  "delete_loop sec num i =
     (if i < length (pieces sec) then
        (if lowBound (pieces sec ! i) \<le> num \<and> num \<le> highBound (pieces sec ! i) then delete_at sec i num
         else delete_loop sec num (i + 1))
      else sec)"
  by pat_completeness auto
termination by (relation "measure (\<lambda>(sec, num, i). length (pieces sec) - i)") auto

definition delete_from_section :: "section_t \<Rightarrow> uint64 \<Rightarrow> section_t" where
  "delete_from_section sec num = delete_loop sec num 0"

definition last_continual_high_in_section :: "section_t \<Rightarrow> uint64" where
  "last_continual_high_in_section sec =
     (if length (pieces sec) = 0 then 0 else highBound (pieces sec ! 0))"

definition first_low_in_section :: "section_t \<Rightarrow> uint64" where
  "first_low_in_section sec = (if length (pieces sec) = 0 then 0 else lowBound (pieces sec ! 0))"

definition get_piece_in_section :: "section_t \<Rightarrow> nat \<Rightarrow> piece_t option" where
  "get_piece_in_section sec index =
     (if length (pieces sec) \<le> index then None else Some (pieces sec ! index))"

text \<open>\<^verbatim>\<open>free(NULL)\<close> does nothing; freeing a dangling array is a double free.\<close>

definition free_section :: "section_t \<Rightarrow> unit c_result" where
  "free_section sec = c_guard (piecesPtr sec \<noteq> Freed_Array) Double_Free"

subsection \<open>What a section denotes\<close>

definition piece_set :: "piece_t \<Rightarrow> uint64 set" where
  "piece_set p = {lowBound p..highBound p}"

definition section_set :: "section_t \<Rightarrow> uint64 set" where
  "section_set sec = (\<Union>p \<in> set (pieces sec). piece_set p)"

text \<open>Pieces are non-empty, in order, and between two of them at least one number is missing.\<close>

fun sorted_pieces :: "piece_t list \<Rightarrow> bool" where
  "sorted_pieces [] \<longleftrightarrow> True"
| "sorted_pieces [p] \<longleftrightarrow> lowBound p \<le> highBound p"
| "sorted_pieces (p # q # ps) \<longleftrightarrow>
     lowBound p \<le> highBound p \<and> unat (highBound p) + 1 < unat (lowBound q) \<and> sorted_pieces (q # ps)"

definition section_inv :: "section_t \<Rightarrow> bool" where
  "section_inv sec \<longleftrightarrow>
     sorted_pieces (pieces sec) \<and> (pieces sec \<noteq> [] \<longrightarrow> piecesPtr sec = Live_Array)"

declare add_loop.simps [simp del] delete_loop.simps [simp del]

end
