(* ===== verification/Number_Set.thy ===== *)
theory Number_Set
  imports Main
begin

text \<open>
  The contract of a set of numbers that is filled one number at a time and emptied from its least
  number, as \<^verbatim>\<open>src/justin-snapshot/hdr/section.h\<close> offers it to the server thread and to the client, and what
  these users obtain from it. \<open>dom\<close> are the numbers that may be stored.
\<close>

locale number_set =
  fixes empty :: 's
    and ins :: "'s \<Rightarrow> 'n::linorder \<Rightarrow> 's"
    and del :: "'s \<Rightarrow> 'n \<Rightarrow> 's"
    and mem :: "'s \<Rightarrow> 'n set"
    and inv :: "'s \<Rightarrow> bool"
    and dom :: "'n \<Rightarrow> bool"
  assumes inv_empty: "inv empty"
    and mem_empty: "mem empty = {}"
    and inv_ins: "inv s \<Longrightarrow> dom n \<Longrightarrow> inv (ins s n)"
    and mem_ins: "inv s \<Longrightarrow> dom n \<Longrightarrow> mem (ins s n) = insert n (mem s)"
    and inv_del: "inv s \<Longrightarrow> inv (del s n)"
    and mem_del: "inv s \<Longrightarrow> mem (del s n) = mem s - {n}"
begin

lemma inv_inserts: "inv s \<Longrightarrow> \<forall>n \<in> set ns. dom n \<Longrightarrow> inv (foldl ins s ns)"
  by (induction ns arbitrary: s) (simp_all add: inv_ins)

lemma mem_inserts: "inv s \<Longrightarrow> \<forall>n \<in> set ns. dom n \<Longrightarrow> mem (foldl ins s ns) = set ns \<union> mem s"
  by (induction ns arbitrary: s) (auto simp: inv_ins mem_ins)

lemma inv_deletes: "inv s \<Longrightarrow> inv (foldl del s ns)"
  by (induction ns arbitrary: s) (simp_all add: inv_del)

lemma mem_deletes: "inv s \<Longrightarrow> mem (foldl del s ns) = mem s - set ns"
  by (induction ns arbitrary: s) (auto simp: inv_del mem_del)

end

text \<open>Taking the least number out until none is left; the fuel bounds the number of rounds.\<close>

fun drain :: "('s \<Rightarrow> bool) \<Rightarrow> ('s \<Rightarrow> 'n) \<Rightarrow> ('s \<Rightarrow> 'n \<Rightarrow> 's) \<Rightarrow> nat \<Rightarrow> 's \<Rightarrow> 'n list \<times> 's" where
  "drain nonempty least del 0 s = ([], s)"
| "drain nonempty least del (Suc fuel) s =
     (if nonempty s
      then (let (ns, s') = drain nonempty least del fuel (del s (least s)) in (least s # ns, s'))
      else ([], s))"

locale number_queue = number_set empty ins del mem inv dom
  for empty :: 's
    and ins :: "'s \<Rightarrow> 'n::linorder \<Rightarrow> 's"
    and del :: "'s \<Rightarrow> 'n \<Rightarrow> 's"
    and mem :: "'s \<Rightarrow> 'n set"
    and inv :: "'s \<Rightarrow> bool"
    and dom :: "'n \<Rightarrow> bool" +
  fixes nonempty :: "'s \<Rightarrow> bool"
    and least :: "'s \<Rightarrow> 'n"
  assumes finite_mem: "inv s \<Longrightarrow> finite (mem s)"
    and nonempty_iff: "inv s \<Longrightarrow> nonempty s \<longleftrightarrow> mem s \<noteq> {}"
    and least_Min: "inv s \<Longrightarrow> mem s \<noteq> {} \<Longrightarrow> least s = Min (mem s)"
begin

lemma drain_sorted:
  "inv s \<Longrightarrow> card (mem s) \<le> fuel \<Longrightarrow>
   fst (drain nonempty least del fuel s) = sorted_list_of_set (mem s)
   \<and> inv (snd (drain nonempty least del fuel s)) \<and> mem (snd (drain nonempty least del fuel s)) = {}"
proof (induction fuel arbitrary: s)
  case 0
  then show ?case
    using finite_mem [of s] by simp
next
  case (Suc fuel)
  show ?case
  proof (cases "mem s = {}")
    case True
    then show ?thesis
      using Suc.prems nonempty_iff [of s] by simp
  next
    case False
    have fin: "finite (mem s)" and least: "least s = Min (mem s)" and ne: "nonempty s"
      using Suc.prems(1) False by (simp_all add: finite_mem least_Min nonempty_iff)
    have "inv (del s (least s))" "mem (del s (least s)) = mem s - {Min (mem s)}"
      using Suc.prems(1) by (simp_all add: inv_del mem_del least)
    moreover have "card (mem s - {Min (mem s)}) \<le> fuel"
      using Suc.prems(2) fin False by simp
    ultimately show ?thesis
      using Suc.IH [of "del s (least s)"] ne fin False
      by (simp add: split_beta least sorted_list_of_set_nonempty)
  qed
qed

end

end
