(* ===== verification/Section_Correct.thy ===== *)
theory Section_Correct
  imports Section_Pieces Number_Set
begin

text \<open>
  Sections implement sets of numbers: adding and deleting keep the pieces sorted, disjoint and merged, and act
  on the set of numbers as insertion and removal. The contract is stated as a locale, with what a
  client that drains a section can rely on, and interpreted on the code's model.
\<close>

definition apart :: "piece_t \<Rightarrow> piece_t \<Rightarrow> bool" where
  "apart p q \<longleftrightarrow> unat (highBound p) + 1 < unat (lowBound q)"

definition pset :: "piece_t list \<Rightarrow> uint64 set" where
  "pset ps = (\<Union>p \<in> set ps. piece_set p)"

text \<open>
  The invariant that all operations keep. The largest 64-bit number is excluded: the test
  \<^verbatim>\<open>highBound+1 == num\<close> wraps there.
\<close>

definition pieces_ok :: "piece_t list \<Rightarrow> bool" where
  "pieces_ok ps \<longleftrightarrow> sorted_pieces ps \<and> (\<forall>p \<in> set ps. highBound p \<noteq> - 1)"

definition section_ok :: "section_t \<Rightarrow> bool" where
  "section_ok sec \<longleftrightarrow> section_inv sec \<and> - 1 \<notin> section_set sec"

subsection \<open>Sorted pieces, pairwise\<close>

lemma sorted_pieces_iff:
  "sorted_pieces ps \<longleftrightarrow> sorted_wrt apart ps \<and> (\<forall>p \<in> set ps. lowBound p \<le> highBound p)"
proof (induction ps rule: sorted_pieces.induct)
  case (3 p q ps)
  have "apart p r" if "apart p q" "apart q r" "lowBound q \<le> highBound q" for r
    using that by (simp add: apart_def word_le_nat_alt)
  moreover have "unat (highBound p) + 1 < unat (lowBound q) \<longleftrightarrow> apart p q"
    by (simp add: apart_def)
  ultimately show ?case
    using 3 by auto
qed simp_all

lemma sorted_pieces_append:
  "sorted_pieces (as @ p # bs) \<longleftrightarrow> sorted_pieces as \<and> sorted_pieces bs \<and> lowBound p \<le> highBound p
   \<and> (\<forall>q \<in> set as. apart q p) \<and> (\<forall>q \<in> set bs. apart p q) \<and> (\<forall>q \<in> set as. \<forall>r \<in> set bs. apart q r)"
  by (auto simp: sorted_pieces_iff sorted_wrt_append)

lemma sorted_pieces_Cons:
  "sorted_pieces (p # bs) \<longleftrightarrow> sorted_pieces bs \<and> lowBound p \<le> highBound p \<and> (\<forall>q \<in> set bs. apart p q)"
  using sorted_pieces_append [of "[]"] by simp

lemma sorted_pieces_partition:
  assumes "sorted_pieces ps" "\<forall>p \<in> set ps. \<not> (lowBound p \<le> num \<and> num \<le> highBound p)"
  obtains as bs where "ps = as @ bs" "\<forall>p \<in> set as. highBound p < num" "\<forall>p \<in> set bs. num < lowBound p"
proof -
  have "\<exists>as bs. ps = as @ bs \<and> (\<forall>p \<in> set as. highBound p < num) \<and> (\<forall>p \<in> set bs. num < lowBound p)"
    using assms
  proof (induction ps)
    case Nil
    then show ?case by simp
  next
    case (Cons p ps)
    show ?case
    proof (cases "highBound p < num")
      case True
      obtain as bs where "ps = as @ bs" "\<forall>p \<in> set as. highBound p < num" "\<forall>p \<in> set bs. num < lowBound p"
        using Cons by (auto simp: sorted_pieces_Cons)
      then show ?thesis
        using True by (intro exI [of _ "p # as"] exI [of _ bs]) simp
    next
      case False
      then have n: "num < lowBound p"
        using Cons.prems(2) by auto
      moreover have "num < lowBound q" if "q \<in> set ps" for q
      proof -
        have "lowBound p \<le> highBound p" "apart p q"
          using Cons.prems(1) that by (auto simp: sorted_pieces_Cons)
        then show ?thesis
          using n by (simp add: apart_def word_le_nat_alt word_less_nat_alt)
      qed
      ultimately show ?thesis
        by (intro exI [of _ "[]"] exI [of _ "p # ps"]) simp
    qed
  qed
  then show thesis
    using that by blast
qed

subsection \<open>The loops\<close>

definition hit :: "uint64 \<Rightarrow> piece_t \<Rightarrow> bool" where
  "hit num p \<longleftrightarrow> lowBound p \<le> num \<and> num \<le> highBound p
     \<or> highBound p + 1 = num \<or> lowBound p \<noteq> 0 \<and> lowBound p - 1 = num"

lemma add_loop_skip:
  "\<forall>p \<in> set bs. \<not> hit num p \<Longrightarrow>
   add_loop (as @ bs @ cs) num (length as) index =
   add_loop (as @ bs @ cs) num (length as + length bs) (index + length (filter (\<lambda>p. highBound p < num) bs))"
proof (induction bs arbitrary: as index)
  case (Cons p bs)
  have "add_loop (as @ (p # bs) @ cs) num (length as) index =
      add_loop ((as @ [p]) @ bs @ cs) num (length (as @ [p])) (if highBound p < num then index + 1 else index)"
    using Cons.prems by (subst add_loop.simps) (auto simp: hit_def Let_def)
  then show ?case
    using Cons.IH [of "as @ [p]"] Cons.prems by simp
qed simp

lemma add_loop_none:
  "\<forall>p \<in> set ps. \<not> hit num p \<Longrightarrow>
   add_loop ps num 0 0 = Inr (length (filter (\<lambda>p. highBound p < num) ps))"
  using add_loop_skip [of ps num "[]" "[]" 0] by (simp add: add_loop.simps)

lemma add_loop_first:
  assumes "\<forall>q \<in> set as. \<not> hit num q" "hit num p"
  shows "add_loop (as @ p # bs) num 0 0 =
     Inl (if lowBound p \<le> num \<and> num \<le> highBound p then as @ p # bs
          else if highBound p + 1 = num then extend_high (as @ p # bs) (length as) num
          else extend_low (as @ p # bs) (length as) num)"
  using add_loop_skip [OF assms(1), of "[]" "p # bs" 0] assms(2)
  by (auto simp: add_loop.simps [of _ _ "length as"] Let_def hit_def)

lemma extend_high_eq:
  "extend_high (as @ p # bs) (length as) num =
     (case bs of [] \<Rightarrow> as @ [p\<lparr>highBound := num\<rparr>]
      | q # cs \<Rightarrow> if lowBound q = num + 1 then as @ q\<lparr>lowBound := lowBound p\<rparr> # cs
                  else as @ p\<lparr>highBound := num\<rparr> # q # cs)"
  by (auto simp: extend_high_def Let_def nth_append list_update_append array_remove_eq split: list.split)

lemma extend_low_eq:
  assumes "as = [] \<or> highBound (last as) \<noteq> num - 1"
  shows "extend_low (as @ p # bs) (length as) num = as @ p\<lparr>lowBound := num\<rparr> # bs"
proof -
  have "as ! (length as - 1) = last as" if "as \<noteq> []"
    using that by (simp add: last_conv_nth)
  then show ?thesis
    using assms by (auto simp: extend_low_def Let_def nth_append list_update_append)
qed

lemma delete_loop_skip:
  "\<forall>p \<in> set bs. \<not> (lowBound p \<le> num \<and> num \<le> highBound p) \<Longrightarrow> pieces sec = as @ bs @ cs \<Longrightarrow>
   delete_loop sec num (length as) = delete_loop sec num (length as + length bs)"
proof (induction bs arbitrary: as)
  case (Cons p bs)
  then have "delete_loop sec num (length as) = delete_loop sec num (length (as @ [p]))"
    by (subst delete_loop.simps) auto
  then show ?case
    using Cons.IH [of "as @ [p]"] Cons.prems by simp
qed simp

lemma delete_first:
  assumes "\<forall>q \<in> set as. \<not> (lowBound q \<le> num \<and> num \<le> highBound q)" "lowBound p \<le> num" "num \<le> highBound p"
    "pieces sec = as @ p # bs"
  shows "delete_from_section sec num = delete_at sec (length as) num"
  using delete_loop_skip [OF assms(1), of sec "[]" "p # bs"] assms
  by (simp add: delete_from_section_def delete_loop.simps [of _ _ "length as"])

lemma delete_none:
  assumes "\<forall>q \<in> set (pieces sec). \<not> (lowBound q \<le> num \<and> num \<le> highBound q)"
  shows "delete_from_section sec num = sec"
  using delete_loop_skip [OF assms, of sec "[]" "[]"]
  by (simp add: delete_from_section_def delete_loop.simps [of _ _ "length (pieces sec)"])

subsection \<open>Adding\<close>

lemma unat_succ: "x \<noteq> - 1 \<Longrightarrow> unat (x + 1 :: uint64) = unat x + 1"
proof -
  assume "x \<noteq> - 1"
  then have "1 + x \<noteq> 0"
    by (metis add.commute eq_neg_iff_add_eq_0)
  then show ?thesis
    by (simp add: unatSuc add.commute)
qed

lemma unat_pred: "x \<noteq> 0 \<Longrightarrow> unat (x - 1 :: uint64) + 1 = unat x"
  by (simp add: unat_minus_one unat_gt_0 Suc_leI)

lemmas word_arith = word_le_nat_alt word_less_nat_alt

lemma piece_high: "lowBound p \<le> highBound p \<Longrightarrow> highBound p \<noteq> - 1 \<Longrightarrow>
    {lowBound p..highBound p + 1} = insert (highBound p + 1) {lowBound p..highBound p}"
  by (auto simp: word_arith unat_succ word_unat_eq_iff)

lemma piece_low: "lowBound p \<le> highBound p \<Longrightarrow> lowBound p \<noteq> 0 \<Longrightarrow>
    {lowBound p - 1..highBound p} = insert (lowBound p - 1) {lowBound p..highBound p}"
  using unat_pred [of "lowBound p"] by (auto simp: word_arith word_unat_eq_iff)

lemma pset_simps [simp]:
  "pset [] = {}"
  "pset (p # ps) = {lowBound p..highBound p} \<union> pset ps"
  "pset (ps @ qs) = pset ps \<union> pset qs"
  by (auto simp: pset_def piece_set_def)

lemma section_ok_iff:
  "section_ok sec \<longleftrightarrow> pieces_ok (pieces sec) \<and> (pieces sec \<noteq> [] \<longrightarrow> piecesPtr sec = Live_Array)"
proof -
  have "- 1 \<in> piece_set p \<longleftrightarrow> highBound p = - 1" if "lowBound p \<le> highBound p" for p
    using that by (auto simp: piece_set_def intro: antisym)
  then show ?thesis
    by (auto simp: section_ok_def section_inv_def pieces_ok_def section_set_def sorted_pieces_iff)
qed

lemma section_set_pset: "section_set sec = pset (pieces sec)"
  by (simp add: section_set_def pset_def)

lemma add_high:
  assumes "pieces_ok (as @ p # bs)" "highBound p + 1 = num" "num \<noteq> - 1"
  shows "pieces_ok (extend_high (as @ p # bs) (length as) num)
    \<and> pset (extend_high (as @ p # bs) (length as) num) = insert num (pset (as @ p # bs))"
proof -
  have p: "lowBound p \<le> highBound p" "highBound p \<noteq> - 1"
    using assms(1) by (auto simp: pieces_ok_def sorted_pieces_append)
  have n: "unat num = unat (highBound p) + 1"
    using unat_succ [OF p(2)] assms(2) by simp
  have hi: "{lowBound p..num} = insert num {lowBound p..highBound p}"
    using piece_high [OF p] assms(2) by simp
  show ?thesis
  proof (cases bs)
    case Nil
    then show ?thesis
      using assms(1,3) n p hi
      by (auto simp: extend_high_eq pieces_ok_def sorted_pieces_append apart_def word_arith)
  next
    case (Cons q cs)
    have q: "lowBound q \<le> highBound q" "unat num < unat (lowBound q)" "apart p q"
      using assms(1) n by (auto simp: Cons pieces_ok_def sorted_pieces_append sorted_pieces_Cons apart_def)
    show ?thesis
    proof (cases "lowBound q = num + 1")
      case True
      have "{lowBound p..highBound q} = {lowBound p..num} \<union> {lowBound q..highBound q}"
        using True p q n unat_succ [OF assms(3)] by (auto simp: word_arith)
      moreover have "lowBound p \<le> highBound q"
        using p q n by (simp add: word_arith)
      ultimately show ?thesis
        using assms(1) True hi
        by (auto simp: Cons extend_high_eq pieces_ok_def sorted_pieces_append sorted_pieces_Cons apart_def)
    next
      case False
      then have "unat num + 1 < unat (lowBound q)"
        using q(2) unat_succ [OF assms(3)] by (metis Suc_eq_plus1 Suc_lessI word_unat_eq_iff)
      moreover have "unat num + 1 < unat (lowBound r)" if "r \<in> set cs" for r
        using assms(1) q(1,2) that by (auto simp: Cons pieces_ok_def sorted_pieces_append sorted_pieces_Cons
            apart_def word_arith dest!: bspec)
      ultimately show ?thesis
        using assms(1,3) False hi p n q
        by (auto simp: Cons extend_high_eq pieces_ok_def sorted_pieces_append sorted_pieces_Cons apart_def word_arith)
    qed
  qed
qed

lemma add_low:
  assumes "pieces_ok (as @ p # bs)" "lowBound p \<noteq> 0" "lowBound p - 1 = num" "\<forall>q \<in> set as. \<not> hit num q"
  shows "pieces_ok (extend_low (as @ p # bs) (length as) num)
    \<and> pset (extend_low (as @ p # bs) (length as) num) = insert num (pset (as @ p # bs))"
proof -
  have p: "lowBound p \<le> highBound p"
    using assms(1) by (auto simp: pieces_ok_def sorted_pieces_append)
  have n: "unat num + 1 = unat (lowBound p)"
    using unat_pred [OF assms(2)] assms(3) by simp
  have before: "unat (highBound q) + 1 < unat num" if "q \<in> set as" for q
  proof -
    have "highBound q \<noteq> - 1" "highBound q + 1 \<noteq> num" "unat (highBound q) + 1 < unat (lowBound p)"
      using assms(1,4) that by (auto simp: pieces_ok_def sorted_pieces_append apart_def hit_def)
    then show ?thesis
      using n unat_succ [of "highBound q"] by (metis Suc_eq_plus1 less_Suc_eq word_unat_eq_iff)
  qed
  have "as = [] \<or> highBound (last as) \<noteq> num - 1"
  proof (cases "as = []")
    case False
    then have "unat (highBound (last as)) + 1 < unat num"
      using before by simp
    moreover have "num \<noteq> 0"
      using calculation by auto
    ultimately have "highBound (last as) \<noteq> num - 1"
      using unat_pred [of num] by auto
    then show ?thesis ..
  qed simp
  then have e: "extend_low (as @ p # bs) (length as) num = as @ p\<lparr>lowBound := num\<rparr> # bs"
    by (rule extend_low_eq)
  have "{num..highBound p} = insert num {lowBound p..highBound p}"
    using piece_low [OF p assms(2)] assms(3) by simp
  then show ?thesis
    unfolding e using assms(1) p n before
    by (auto simp: pieces_ok_def sorted_pieces_append apart_def word_arith)
qed

lemma add_new:
  assumes "pieces_ok ps" "num \<noteq> - 1" "\<forall>q \<in> set ps. \<not> hit num q"
  defines "k \<equiv> length (filter (\<lambda>p. highBound p < num) ps)"
  shows "k \<le> length ps \<and> pieces_ok (array_insert k \<lparr>lowBound = num, highBound = num\<rparr> ps)
    \<and> pset (array_insert k \<lparr>lowBound = num, highBound = num\<rparr> ps) = insert num (pset ps)"
proof -
  obtain as bs where split: "ps = as @ bs" "\<forall>p \<in> set as. highBound p < num" "\<forall>p \<in> set bs. num < lowBound p"
    using assms(1,3) sorted_pieces_partition [of ps num] by (auto simp: hit_def pieces_ok_def)
  have as: "unat (highBound q) + 1 < unat num" if "q \<in> set as" for q
  proof -
    have "highBound q \<noteq> - 1" "highBound q + 1 \<noteq> num" "unat (highBound q) < unat num"
      using assms(1,3) split that by (auto simp: pieces_ok_def hit_def word_arith)
    then show ?thesis
      using unat_succ [of "highBound q"] by (metis Suc_eq_plus1 Suc_lessI word_unat_eq_iff)
  qed
  have bs: "unat num + 1 < unat (lowBound q)" if "q \<in> set bs" for q
  proof -
    have "\<not> hit num q" "num < lowBound q"
      using assms(3) split(1,3) that by auto
    then have "lowBound q \<noteq> 0" "lowBound q - 1 \<noteq> num" "unat num < unat (lowBound q)"
      by (auto simp: hit_def word_less_nat_alt)
    then show ?thesis
      using unat_pred [of "lowBound q"] by (metis Suc_eq_plus1 Suc_lessI add_right_cancel word_unat_eq_iff)
  qed
  have "\<not> highBound q < num" if "q \<in> set bs" for q
    using assms(1) bs [OF that] that
    by (auto simp: split(1) pieces_ok_def sorted_pieces_iff word_arith dest!: bspec)
  then have k: "k = length as"
    using split by (simp add: k_def)
  show ?thesis
    using assms(1,2) as bs
    by (auto simp: k split(1) array_insert_eq pieces_ok_def sorted_pieces_append apart_def sorted_pieces_iff sorted_wrt_append)
qed

lemma add_pieces:
  assumes "section_ok sec" "num \<noteq> - 1"
  shows "section_ok (add_to_section sec num) \<and> section_set (add_to_section sec num) = insert num (section_set sec)"
proof (cases "\<exists>p \<in> set (pieces sec). hit num p")
  case True
  then obtain as p bs where ps: "pieces sec = as @ p # bs" "hit num p" "\<forall>q \<in> set as. \<not> hit num q"
    using split_list_first_prop [of "pieces sec" "hit num"] by blast
  have ok: "pieces_ok (as @ p # bs)" "piecesPtr sec = Live_Array"
    using assms(1) ps(1) by (auto simp: section_ok_iff)
  have loop: "add_loop (pieces sec) num 0 0 =
     Inl (if lowBound p \<le> num \<and> num \<le> highBound p then as @ p # bs
          else if highBound p + 1 = num then extend_high (as @ p # bs) (length as) num
          else extend_low (as @ p # bs) (length as) num)" (is "_ = Inl ?r")
    unfolding ps(1) by (rule add_loop_first [OF ps(3,2)])
  have "pieces_ok ?r \<and> pset ?r = insert num (pset (as @ p # bs))"
    using ok(1) add_high [OF ok(1) _ assms(2)] add_low [OF ok(1) _ _ ps(3)] ps(2) by (auto simp: hit_def)
  moreover have "add_to_section sec num = sec\<lparr>pieces := ?r\<rparr>"
    by (simp only: add_to_section_def loop sum.case)
  ultimately show ?thesis
    using ok(2) by (simp add: section_ok_iff section_set_pset ps(1))
next
  case False
  then have none: "\<forall>p \<in> set (pieces sec). \<not> hit num p" by blast
  have "pieces_ok (pieces sec)"
    using assms(1) by (simp add: section_ok_iff)
  note new = add_new [OF this assms(2) none]
  have "add_to_section sec num =
      \<lparr>pieces = array_insert (length (filter (\<lambda>p. highBound p < num) (pieces sec))) \<lparr>lowBound = num, highBound = num\<rparr> (pieces sec),
       piecesPtr = Live_Array\<rparr>"
    by (simp add: add_to_section_def add_loop_none [OF none] Let_def array_insert_eq [of 0 "[]"])
  then show ?thesis
    using new by (simp add: section_ok_iff section_set_pset)
qed

subsection \<open>Deleting\<close>

lemma pieces_ok_parts:
  assumes "pieces_ok (as @ p # bs)" "lowBound p \<le> num" "num \<le> highBound p"
  shows "num \<notin> pset as" "num \<notin> pset bs"
  using assms by (auto simp: pset_def piece_set_def pieces_ok_def sorted_pieces_append apart_def word_arith dest!: bspec)

lemma replace_piece:
  assumes "pieces_ok (as @ p # bs)" "pieces_ok cs"
    and cs: "\<forall>c \<in> set cs. lowBound p \<le> lowBound c \<and> highBound c \<le> highBound p"
  shows "pieces_ok (as @ cs @ bs)"
proof -
  have "apart q c" if "q \<in> set as" "c \<in> set cs" for q c
    using assms(1) bspec [OF cs that(2)] that(1) by (auto simp: pieces_ok_def sorted_pieces_append apart_def word_arith dest!: bspec)
  moreover have "apart c q" if "q \<in> set bs" "c \<in> set cs" for q c
    using assms(1) bspec [OF cs that(2)] that(1) by (auto simp: pieces_ok_def sorted_pieces_append apart_def word_arith dest!: bspec)
  ultimately show ?thesis
    using assms(1,2) by (auto simp: pieces_ok_def sorted_pieces_iff sorted_wrt_append)
qed

text \<open>What is left of a piece without a number of it: no, one or two pieces.\<close>

definition remains :: "uint64 \<Rightarrow> piece_t \<Rightarrow> piece_t list" where
  "remains num p =
     (if lowBound p < num then [\<lparr>lowBound = lowBound p, highBound = num - 1\<rparr>] else [])
     @ (if num < highBound p then [\<lparr>lowBound = num + 1, highBound = highBound p\<rparr>] else [])"

lemma delete_at_remains:
  assumes "pieces sec = as @ p # bs" "piecesPtr sec = Live_Array" "lowBound p \<le> num" "num \<le> highBound p"
  shows "delete_at sec (length as) num =
     \<lparr>pieces = as @ remains num p @ bs, piecesPtr = (if as @ remains num p @ bs = [] then Freed_Array else Live_Array)\<rparr>"
proof -
  have upd: "p\<lparr>lowBound := n\<rparr> = \<lparr>lowBound = n, highBound = highBound p\<rparr>" "p\<lparr>highBound := n\<rparr> = \<lparr>lowBound = lowBound p, highBound = n\<rparr>"
    for n by (cases p; simp)+
  have sec: "sec\<lparr>pieces := qs\<rparr> = \<lparr>pieces = qs, piecesPtr = Live_Array\<rparr>" for qs
    using assms(2) by (cases sec) simp
  consider "lowBound p < num" "num < highBound p" | "lowBound p = num" "num < highBound p"
    | "lowBound p < num" "highBound p = num" | "lowBound p = num" "highBound p = num"
    using assms(3,4) by fastforce
  then show ?thesis
    by cases (auto simp: delete_at_def assms(1) Let_def array_insert_eq array_remove_eq list_update_append remains_def upd sec)
qed

lemma remains_pieces:
  assumes "lowBound p \<le> num" "num \<le> highBound p" "highBound p \<noteq> - 1"
  shows "pieces_ok (remains num p)" "pset (remains num p) = piece_set p - {num}"
    "\<forall>c \<in> set (remains num p). lowBound p \<le> lowBound c \<and> highBound c \<le> highBound p"
proof -
  have le: "unat (lowBound p) \<le> unat num" "unat num \<le> unat (highBound p)"
    using assms by (auto simp: word_arith)
  have up: "unat (num + 1) = unat num + 1" if "num < highBound p"
    using that by (intro unat_succ) auto
  have down: "unat (num - 1) + 1 = unat num" if "lowBound p < num"
    using that by (intro unat_pred) auto
  have nm1: "num - 1 \<noteq> - 1" if "lowBound p < num"
    using that by auto
  show "pieces_ok (remains num p)"
    using le up down nm1 assms(3) by (auto simp: remains_def pieces_ok_def word_arith)
  show "\<forall>c \<in> set (remains num p). lowBound p \<le> lowBound c \<and> highBound c \<le> highBound p"
    using le up down by (auto simp: remains_def word_arith)
  show "pset (remains num p) = piece_set p - {num}"
    using le up down by (auto simp: remains_def pset_def piece_set_def word_arith word_unat_eq_iff)
qed

lemma delete_at_pieces:
  assumes "section_ok sec" "pieces sec = as @ p # bs" "lowBound p \<le> num" "num \<le> highBound p"
  shows "section_ok (delete_at sec (length as) num)
    \<and> section_set (delete_at sec (length as) num) = section_set sec - {num}"
proof -
  have ok: "pieces_ok (as @ p # bs)" "piecesPtr sec = Live_Array" "highBound p \<noteq> - 1"
    using assms(1,2) by (auto simp: section_ok_iff pieces_ok_def)
  note rem = remains_pieces [OF assms(3,4) ok(3)]
  have "pset (as @ remains num p @ bs) = pset (as @ p # bs) - {num}"
    using rem(2) pieces_ok_parts [OF ok(1) assms(3,4)] by (auto simp: pset_def)
  then show ?thesis
    using replace_piece [OF ok(1) rem(1,3)] delete_at_remains [OF assms(2) ok(2) assms(3,4)]
    by (auto simp: section_ok_iff section_set_pset assms(2))
qed

lemma delete_pieces:
  assumes "section_ok sec"
  shows "section_ok (delete_from_section sec num) \<and> section_set (delete_from_section sec num) = section_set sec - {num}"
proof (cases "\<exists>p \<in> set (pieces sec). lowBound p \<le> num \<and> num \<le> highBound p")
  case True
  then obtain as p bs where ps: "pieces sec = as @ p # bs" "lowBound p \<le> num" "num \<le> highBound p"
    "\<forall>q \<in> set as. \<not> (lowBound q \<le> num \<and> num \<le> highBound q)"
    using split_list_first_prop [of "pieces sec" "\<lambda>p. lowBound p \<le> num \<and> num \<le> highBound p"] by blast
  show ?thesis
    unfolding delete_first [OF ps(4,2,3,1)] by (rule delete_at_pieces [OF assms ps(1,2,3)])
next
  case False
  then have "delete_from_section sec num = sec" "num \<notin> section_set sec"
    by (auto simp: delete_none section_set_def piece_set_def)
  then show ?thesis
    using assms by simp
qed

subsection \<open>Reading\<close>

lemma section_set_finite: "finite (section_set sec)"
  by simp

lemma section_set_empty_iff: "section_ok sec \<Longrightarrow> section_set sec = {} \<longleftrightarrow> pieces sec = []"
  by (cases "pieces sec") (auto simp: section_set_pset section_ok_iff pieces_ok_def sorted_pieces_Cons)

lemma first_low_Min:
  assumes "section_ok sec" "section_set sec \<noteq> {}"
  shows "first_low_in_section sec = Min (section_set sec)"
proof -
  obtain p ps where ps: "pieces sec = p # ps"
    using assms by (cases "pieces sec") (auto simp: section_set_pset)
  have p: "lowBound p \<le> highBound p" "\<forall>q \<in> set ps. apart p q \<and> lowBound q \<le> highBound q"
    using assms(1) by (auto simp: section_ok_iff pieces_ok_def ps sorted_pieces_Cons sorted_pieces_iff)
  have "lowBound p \<le> x" if "x \<in> section_set sec" for x
  proof -
    obtain q where q: "q = p \<or> q \<in> set ps" "lowBound q \<le> x"
      using \<open>x \<in> section_set sec\<close> by (auto simp: section_set_def ps piece_set_def)
    then show ?thesis
      using p by (auto simp: apart_def word_arith dest!: bspec)
  qed
  moreover have "lowBound p \<in> section_set sec"
    using p(1) by (simp add: section_set_pset ps)
  ultimately show ?thesis
    by (simp add: first_low_in_section_def ps Min_eqI [symmetric] section_set_finite)
qed

interpretation sq: number_queue create_section add_to_section delete_from_section section_set section_ok "\<lambda>n. n \<noteq> - 1"
  "\<lambda>sec. get_piece_in_section sec 0 \<noteq> None" first_low_in_section
proof unfold_locales
  show "section_ok create_section" "section_set create_section = {}"
    by (simp_all add: create_section_def section_ok_iff section_set_pset pieces_ok_def)
  show "get_piece_in_section s 0 \<noteq> None \<longleftrightarrow> section_set s \<noteq> {}" if "section_ok s" for s
    using that by (simp add: section_set_empty_iff get_piece_in_section_def)
qed (simp_all add: add_pieces delete_pieces first_low_Min section_set_finite)

subsection \<open>Properties\<close>

text \<open>
  C7. Sections are sets of the numbers below \<open>2 ^ 64 - 1\<close>: as long as the largest 64-bit number is not stored and is not the argument,
  adding a number inserts it, deleting a number removes it, and both keep the pieces sorted, disjoint and maximally merged. What
  happens with the largest number is stated separately (\<open>section_wraps\<close>).
\<close>

theorem section_refines_set:
  assumes "section_ok sec" "num \<noteq> - 1"
  shows "section_ok (add_to_section sec num) \<and> section_set (add_to_section sec num) = insert num (section_set sec)
    \<and> section_ok (delete_from_section sec num) \<and> section_set (delete_from_section sec num) = section_set sec - {num}"
  using assms sq.inv_ins sq.mem_ins sq.inv_del sq.mem_del by simp

theorem section_refines_set_witness:
  "let sec = foldl add_to_section create_section [5, 7, 6] in
     section_ok (add_to_section sec 6) \<and> section_set (add_to_section sec 6) = insert 6 (section_set sec)
     \<and> section_ok (delete_from_section sec 6) \<and> section_set (delete_from_section sec 6) = section_set sec - {6} \<and> 6 \<in> section_set sec"
proof -
  have "section_ok (foldl add_to_section create_section [5, 7, 6])" "6 \<in> section_set (foldl add_to_section create_section [5, 7, 6])"
    using sq.inv_inserts [OF sq.inv_empty, of "[5, 7, 6]"] sq.mem_inserts [OF sq.inv_empty, of "[5, 7, 6]"] by simp_all
  with section_refines_set [OF this(1), of 6] show ?thesis unfolding Let_def by simp
qed

text \<open>
  C27. The retransmission queue: after any sequence of requests for numbers below \<open>2 ^ 64 - 1\<close>, the loop that takes the first number until no
  piece is left ends, and has produced every requested number exactly once, in ascending order. (With the largest number the loop
  may not end, see \<open>section_wraps\<close>.)
\<close>

theorem retransmission_order:
  assumes "\<forall>n \<in> set ns. n \<noteq> - 1" "length ns \<le> fuel"
  shows "\<exists>sec. drain (\<lambda>sec. get_piece_in_section sec 0 \<noteq> None) first_low_in_section delete_from_section
       fuel (foldl add_to_section create_section ns) = (sorted_list_of_set (set ns), sec)
     \<and> get_piece_in_section sec 0 = None"
proof -
  let ?s = "foldl add_to_section create_section ns"
  have s: "section_ok ?s" "section_set ?s = set ns"
    using assms(1) sq.inv_inserts [OF sq.inv_empty] sq.mem_inserts [OF sq.inv_empty] by (simp_all add: sq.mem_empty)
  then have "card (section_set ?s) \<le> fuel"
    using assms(2) card_length [of ns] by simp
  note d = sq.drain_sorted [OF s(1) this]
  then have "get_piece_in_section (snd (drain (\<lambda>sec. get_piece_in_section sec 0 \<noteq> None) first_low_in_section
      delete_from_section fuel ?s)) 0 = None"
    using sq.nonempty_iff by blast
  then show ?thesis
    using d s(2) by (intro exI [of _ "snd (drain (\<lambda>sec. get_piece_in_section sec 0 \<noteq> None) first_low_in_section
      delete_from_section fuel ?s)"] conjI prod_eqI) (simp_all only: fst_conv snd_conv)
qed

theorem retransmission_order_witness:
  "\<exists>sec. drain (\<lambda>sec. get_piece_in_section sec 0 \<noteq> None) first_low_in_section delete_from_section
       4 (foldl add_to_section create_section [5, 3, 5, 4]) = (sorted_list_of_set (set [5, 3, 5, 4]), sec)
     \<and> get_piece_in_section sec 0 = None"
  by (rule retransmission_order) simp_all

text \<open>
  C28. The largest number breaks a section: \<^verbatim>\<open>highBound+1\<close> wraps to 0, so after \<open>2 ^ 64 - 1\<close> the number 0 extends the piece of the first to one whose
  bounds are reversed. It holds no number, deleting its lower bound changes nothing, and the loop that takes the first number until no
  piece is left never ends: in any number of rounds it produces \<open>2 ^ 64 - 1\<close> each time and the section stays as it is. The thread adds the
  numbers of requests as they arrive.
\<close>

theorem section_wraps:
  "let sec = add_to_section (add_to_section create_section (- 1)) 0 in
     pieces sec = [\<lparr>lowBound = - 1, highBound = 0\<rparr>] \<and> section_set sec = {} \<and> delete_from_section sec (- 1) = sec
     \<and> drain (\<lambda>sec. get_piece_in_section sec 0 \<noteq> None) first_low_in_section delete_from_section fuel sec = (replicate fuel (- 1), sec)"
proof -
  define sec where "sec = \<lparr>pieces = [\<lparr>lowBound = - 1, highBound = 0 :: uint64\<rparr>], piecesPtr = Live_Array\<rparr>"
  have "add_to_section create_section (- 1) = \<lparr>pieces = [\<lparr>lowBound = - 1, highBound = - 1\<rparr>], piecesPtr = Live_Array\<rparr>"
    by (simp add: add_to_section_def create_section_def add_loop.simps)
  then have add: "add_to_section (add_to_section create_section (- 1)) 0 = sec"
    by (simp add: add_to_section_def add_loop.simps [of _ _ 0] extend_high_def Let_def sec_def)
  have del: "delete_from_section sec (- 1) = sec"
    by (simp add: delete_from_section_def delete_loop.simps [of _ _ 0] delete_loop.simps [of _ _ "Suc 0"] sec_def)
  have read: "get_piece_in_section sec 0 \<noteq> None" "first_low_in_section sec = - 1" "section_set sec = {}"
    by (simp_all add: sec_def get_piece_in_section_def first_low_in_section_def section_set_def piece_set_def)
  have "drain (\<lambda>sec. get_piece_in_section sec 0 \<noteq> None) first_low_in_section delete_from_section fuel sec = (replicate fuel (- 1), sec)"
    by (induction fuel) (simp_all only: drain.simps replicate.simps read del if_True Let_def prod.case not_False_eq_True simp_thms)
  with add del read(3) show ?thesis by (simp add: Let_def sec_def)
qed

text \<open>
  Deleting the last number of a section frees its array and keeps the dangling pointer, so that
  releasing the section frees the array twice.
\<close>

theorem free_emptied_section:
  assumes "section_ok sec" "section_set sec = {num}"
  shows "free_section sec = Inr () \<and> free_section (delete_from_section sec num) = Inl Double_Free"
proof -
  obtain p ps where ps: "pieces sec = p # ps"
    using assms by (cases "pieces sec") (auto simp: section_set_pset)
  have srt: "lowBound p \<le> highBound p" "\<forall>q \<in> set ps. apart p q \<and> lowBound q \<le> highBound q" "piecesPtr sec = Live_Array"
    using assms(1) by (auto simp: section_ok_iff pieces_ok_def ps sorted_pieces_Cons sorted_pieces_iff)
  have eq: "lowBound q = num" "highBound q = num" if "q \<in> set (p # ps)" for q
  proof -
    have "lowBound q \<le> highBound q"
      using srt(1,2) that by auto
    then have "lowBound q \<in> piece_set q" "highBound q \<in> piece_set q"
      by (simp_all add: piece_set_def)
    moreover have "piece_set q \<subseteq> {num}"
      unfolding assms(2) [symmetric] section_set_def using that by (intro UN_upper) (simp add: ps)
    ultimately show "lowBound q = num" "highBound q = num"
      by blast+
  qed
  have "ps = []"
  proof (rule ccontr)
    assume "ps \<noteq> []"
    then have "apart p (hd ps)" "lowBound (hd ps) = num"
      using srt(2) eq(1) [of "hd ps"] by simp_all
    then show False
      using eq(2) [of p] by (simp add: apart_def)
  qed
  then have "delete_from_section sec num = \<lparr>pieces = [], piecesPtr = Freed_Array\<rparr>"
    using delete_first [of "[]" num p sec "[]"] ps eq [of p] by (simp add: delete_at_def)
  then show ?thesis
    using srt(3) by (simp add: free_section_def)
qed

theorem free_emptied_section_witness:
  "free_section (add_to_section create_section 7) = Inr ()
   \<and> free_section (delete_from_section (add_to_section create_section 7) 7) = Inl Double_Free"
  by (rule free_emptied_section) (simp_all add: sq.inv_ins sq.inv_empty sq.mem_ins sq.mem_empty)

end
