(* ===== verification/File_Handle_Correct.thy ===== *)
theory File_Handle_Correct
  imports File_Handle
begin

text \<open>Theorems on file handles: names, lookup, and the segments of a file put together again.\<close>

text \<open>A handle that has been made ready on a file with the bytes \<open>d\<close>.\<close>

definition ready_on :: "file_handle_t \<Rightarrow> bytes \<Rightarrow> bool" where
  "ready_on fh d \<longleftrightarrow> pointer fh = Some d \<and> fileSize fh = word_of_nat (length d)"

definition segments :: "nat \<Rightarrow> bytes \<Rightarrow> bytes list" where
  "segments ss d = map (\<lambda>i. take ss (drop (i * ss) d)) [0..<(length d + (ss - 1)) div ss]"

lemma ready_file_handle_on:
  "ffopen fs (path fh) = Some d \<Longrightarrow> \<exists>fh'. ready_file_handle fs fh = Inr fh' \<and> ready_on fh' d \<and> fileName fh' = fileName fh"
  by (simp add: ready_file_handle_def ffsize_def ready_on_def Let_def)

subsection \<open>Names\<close>

lemma name_loop_split:
  "i \<le> length p \<Longrightarrow> 47 \<notin> set (drop i p) \<Longrightarrow>
   \<exists>pre. p = pre @ name_loop p i \<and> 47 \<notin> set (name_loop p i) \<and> (pre = [] \<or> last pre = 47)"
proof (induction i)
  case 0
  then show ?case by auto
next
  case (Suc i)
  show ?case
  proof (cases "p ! i = 47")
    case True
    then have "name_loop p (Suc i) = drop (Suc i) p" "last (take (Suc i) p) = 47"
      using Suc.prems(1) by (simp_all add: take_Suc_conv_app_nth)
    then show ?thesis
      using True Suc.prems(2) by (intro exI [of _ "take (Suc i) p"]) simp
  next
    case False
    then have "47 \<notin> set (drop i p)"
      using Suc.prems by (simp add: Cons_nth_drop_Suc [symmetric])
    then show ?thesis
      using Suc False by simp
  qed
qed

lemma handle_loop_find:
  "length file < 2 ^ 64 \<Longrightarrow> \<forall>fh \<in> set fhs. length (fileName fh) < 2 ^ 64 \<Longrightarrow>
   handle_loop fhs file = Inr (find (\<lambda>fh. fileName fh = file) fhs)"
  by (induction fhs) (auto simp: compare_bytes_eq unat_of_nat64)

subsection \<open>Segments\<close>

lemma num_segments_unat:
  assumes "num_segments_in_file_handle fh ss = Inr n"
  shows "unat n = (unat (fileSize fh) + (unat ss - 1)) div unat ss" "0 < unat ss"
proof -
  have ss: "ss \<noteq> 0" and n: "n = fileSize fh div ss + (if fileSize fh mod ss \<noteq> 0 then 1 else 0)"
    using assms by (auto simp: num_segments_in_file_handle_def split: if_splits)
  show pos: "0 < unat ss" using ss by (simp add: unat_gt_0)
  show "unat n = (unat (fileSize fh) + (unat ss - 1)) div unat ss"
  proof (cases "unat ss = 1")
    case True
    then have "ss = 1" by (simp add: word_unat_eq_iff)
    then show ?thesis by (simp add: n)
  next
    case False
    then have "1 < unat ss" using pos by linarith
    then show ?thesis unfolding n using unat_div_ceil [of ss "fileSize fh"] ceil_div [OF pos, of "unat (fileSize fh)"] by simp
  qed
qed

lemma num_segments_eq:
  assumes "ready_on fh d" "length d < 2 ^ 64" "ss \<noteq> 0"
  shows "\<exists>n. num_segments_in_file_handle fh ss = Inr n \<and> unat n = (length d + (unat ss - 1)) div unat ss"
proof -
  have "unat (fileSize fh) = length d"
    using assms(1,2) by (simp add: ready_on_def unat_of_nat64)
  moreover obtain n where "num_segments_in_file_handle fh ss = Inr n"
    using assms(3) by (simp add: num_segments_in_file_handle_def)
  ultimately show ?thesis
    using num_segments_unat(1) by metis
qed

lemma segments_length [simp]: "length (segments ss d) = (length d + (ss - 1)) div ss"
  by (simp add: segments_def)

lemma chunks_take: "concat (map (\<lambda>i. take s (drop (i * s) d)) [0..<n]) = take (n * s) d"
  by (induction n) (simp_all add: take_add [symmetric] add.commute)

lemma segments_concat: "0 < ss \<Longrightarrow> concat (segments ss d) = d"
proof -
  assume ss: "0 < ss"
  let ?m = "length d + (ss - 1)"
  have "?m - ?m mod ss \<ge> length d"
    using ss mod_less_divisor [OF ss, of ?m] by linarith
  then have "length d \<le> ?m div ss * ss"
    by (simp add: minus_mod_eq_div_mult)
  then show ?thesis
    by (simp add: segments_def chunks_take)
qed

lemma segment_start:
  assumes "k < (n + (ss - 1)) div ss" "0 < (ss :: nat)"
  shows "k * ss < n"
proof -
  have "Suc k * ss \<le> n + (ss - 1)"
    using assms by (meson Suc_leI div_times_less_eq_dividend le_trans mult_le_mono1)
  then show ?thesis
    using assms(2) by simp
qed

lemma segment_eq:
  assumes "ready_on fh d" "length d < 2 ^ 32" "ss \<noteq> 0" "unat ss < 2 ^ 63" "k < length (segments (unat ss) d)"
  shows "segment_in_file_handle g fh (word_of_nat (Suc k)) ss = Inr (Some (segments (unat ss) d ! k))"
proof -
  let ?s = "unat ss" and ?num = "word_of_nat (Suc k) :: uint64"
  have pos: "0 < ?s" using assms(3) by (simp add: unat_gt_0)
  have len: "unat (fileSize fh) = length d" "pointer fh = Some d"
    using assms(1,2) by (simp_all add: ready_on_def unat_of_nat64)
  have ks: "k * ?s < length d"
    using segment_start [OF _ pos, of k "length d"] assms(5) by simp
  have "k \<le> k * ?s" using pos by simp
  then have "k < 2 ^ 32" using ks assms(2) by linarith
  then have k: "Suc k < 2 ^ 64" by simp
  have num: "unat ?num = Suc k" using k by (rule unat_of_nat64)
  have "unat (?num - 1) = k"
    using k by (simp add: unat_of_nat64)
  then have start: "unat ((?num - 1) * ss) = k * ?s"
    using ks assms(2) by (simp add: unat_word_ariths)
  have fin: "unat ((?num - 1) * ss + ss) = k * ?s + ?s"
    using start ks assms(2,4) by (subst unat_add64) simp_all
  obtain n where n: "num_segments_in_file_handle fh ss = Inr n" "unat n = (length d + (?s - 1)) div ?s"
    using num_segments_eq [OF assms(1) _ assms(3)] assms(2) by auto
  have le: "\<not> ?num > n"
    using n(2) num assms(5) by (simp add: word_less_nat_alt)
  define nb where "nb = (if (?num - 1) * ss + ss > fileSize fh then fileSize fh - (?num - 1) * ss else ss)"
  have nb: "unat nb = min ?s (length d - k * ?s)"
    using fin start len(1) ks
    by (auto simp: nb_def word_less_nat_alt unat_sub word_le_nat_alt)
  have cut: "unat (ucast ((?num - 1) * ss) :: uint32) = k * ?s"
    using start ks assms(2) by (subst unat_ucast_64_32) simp_all
  have got: "take (unat nb) (drop (k * ?s) d) = take ?s (drop (k * ?s) d)"
    by (simp add: nb min_def)
  have "?num \<noteq> 0"
    using num by (metis nat.distinct(1) unat_0)
  then show ?thesis
    using n(1) le got assms(5)
    by (simp add: segment_in_file_handle_def Let_def len(2) cut nb_def [symmetric] segments_def nb del: of_nat_Suc)
qed

subsection \<open>Opening a directory\<close>

definition entry_handle :: "bytes \<Rightarrow> bytes \<Rightarrow> file_handle_t" where
  "entry_handle d nm = \<lparr>pointer = None, pointerStatus = False, path = d @ nm, fileName = nm, fileSize = 0\<rparr>"

definition ready_handle :: "file_system \<Rightarrow> bytes \<Rightarrow> bytes \<Rightarrow> file_handle_t" where
  "ready_handle fs d nm = \<lparr>pointer = fs (d @ nm), pointerStatus = True, path = d @ nm, fileName = nm,
     fileSize = word_of_nat (length (the (fs (d @ nm))))\<rparr>"

text \<open>A name as a directory listing has it.\<close>

definition entry_name :: "bytes \<Rightarrow> bool" where
  "entry_name nm \<longleftrightarrow> 47 \<notin> set nm \<and> 0 \<notin> set nm \<and> length nm < 2 ^ 62"

lemma name_loop_append:
  "pre \<noteq> [] \<Longrightarrow> last pre = 47 \<Longrightarrow> 47 \<notin> set nm \<Longrightarrow> k \<le> length nm \<Longrightarrow> name_loop (pre @ nm) (length pre + k) = nm"
proof (induction k)
  case 0
  then obtain n where n: "length pre = Suc n"
    by (cases "length pre") simp_all
  then have "(pre @ nm) ! n = 47"
    using 0 by (simp add: nth_append last_conv_nth)
  then show ?case
    by (simp add: n)
next
  case (Suc k)
  then have "nm ! k \<in> set nm" by simp
  then have "(pre @ nm) ! (length pre + k) \<noteq> 47"
    using Suc.prems(3) by (metis nth_append_length_plus)
  then show ?case
    using Suc by simp
qed

lemma file_name_of_entry:
  assumes "entry_name nm"
  shows "getFileNameFromPath ((d @ [47]) @ nm) = nm"
  using name_loop_append [of "d @ [47]" nm "length nm"] assms by (simp add: getFileNameFromPath_def entry_name_def)

lemma open_entry_eq:
  assumes "entry_name nm" "length d < 2 ^ 62"
  shows "open_entry g (d @ [47]) nm = Inr (entry_handle (d @ [47]) nm)"
proof -
  have len: "length (d @ [47]) + length nm < 2 ^ 64" "length (d @ [47]) < 2 ^ 64" "length nm < 2 ^ 64"
    using assms by (simp_all add: entry_name_def)
  have "combine_voids g (d @ [47]) (word_of_nat (length (d @ [47]))) nm (word_of_nat (length nm)) = Inr ((d @ [47]) @ nm)"
    using len by (intro combine_voids_append) (simp_all only: unat_of_nat64)
  moreover have "copy_void ((d @ [47]) @ nm) (word_of_nat (length (d @ [47])) + word_of_nat (length nm)) = Inr ((d @ [47]) @ nm)"
    using copy_void_whole [of "(d @ [47]) @ nm"] len by (simp only: length_append of_nat_add)
  ultimately show ?thesis
    by (simp only: open_entry_def open_file_handle_def c_bind_simps file_name_of_entry [OF assms(1)] entry_handle_def)
qed

lemma open_loop_entries:
  "list_all entry_name nms \<Longrightarrow> length d < 2 ^ 62 \<Longrightarrow> length hs + length nms \<le> n \<Longrightarrow>
   open_loop g (d @ [47]) n nms hs = Inr (hs @ map (entry_handle (d @ [47])) nms)"
  by (induction nms arbitrary: hs) (simp_all add: open_entry_eq)

lemma c_string_terminated: "0 \<notin> set p \<Longrightarrow> c_string (p @ [0]) = p"
  by (induction p) (simp_all add: c_string_def)

lemma ready_entry:
  assumes "entry_name nm" "0 \<notin> set d" "fs ((d @ [47]) @ nm) \<noteq> None"
  shows "ready_file_handle fs (entry_handle (d @ [47]) nm) = Inr (ready_handle fs (d @ [47]) nm)"
proof -
  have "c_string (((d @ [47]) @ nm) @ [0]) = (d @ [47]) @ nm"
    by (rule c_string_terminated) (use assms(1,2) in \<open>auto simp: entry_name_def\<close>)
  then show ?thesis
    using assms(3) by (auto simp: ready_file_handle_def entry_handle_def ready_handle_def ffopen_def ffsize_def Let_def)
qed

lemma ready_loop_entries:
  "list_all entry_name nms \<Longrightarrow> 0 \<notin> set d \<Longrightarrow> list_all (\<lambda>nm. fs ((d @ [47]) @ nm) \<noteq> None) nms \<Longrightarrow>
   ready_loop fs (map (entry_handle (d @ [47])) nms) = Inr (map (ready_handle fs (d @ [47])) nms)"
  by (induction nms) (simp_all add: ready_entry del: append_assoc)

text \<open>The path of a directory is its name with a slash, and this is the path that is opened.\<close>

lemma open_dir_path:
  assumes "0 \<notin> set d" "length d < 2 ^ 62"
  obtains tail where "add_to_void g d (word_of_nat (length d)) 1 = Inr (d @ tail)" "(d @ tail)[length d := 47] = d @ [47]"
    "ddopen ds (d @ [47]) = ds (d @ [47])"
proof -
  obtain tail where t: "add_to_void g d (word_of_nat (length d)) 1 = Inr (d @ tail)" "length tail = 1"
    using add_to_void_prefix [of d "word_of_nat (length d)" 1 g] assms(2) by (auto simp: unat_of_nat64)
  moreover from t(2) have "(d @ tail)[length d := 47] = d @ [47]" by (cases tail) simp_all
  moreover have "ddopen ds (d @ [47]) = ds (d @ [47])"
    using c_string_terminated [of "d @ [47]"] assms(1) by (simp add: ddopen_def)
  ultimately show thesis using that by blast
qed

lemma open_dir_entries:
  assumes "list_all entry_name (files_of l)" "0 \<notin> set d" "length d < 2 ^ 62" "ds (d @ [47]) = Some l"
    "list_all (\<lambda>nm. fs ((d @ [47]) @ nm) \<noteq> None) (files_of l)"
  shows "open_dir_handle g fs ds ds d = Inr \<lparr>handles = map (ready_handle fs (d @ [47])) (files_of l), dir = d @ [47]\<rparr>"
proof (rule open_dir_path [OF assms(2,3), of g ds])
  fix tail
  assume "add_to_void g d (word_of_nat (length d)) 1 = Inr (d @ tail)" "(d @ tail)[length d := 47] = d @ [47]"
    "ddopen ds (d @ [47]) = ds (d @ [47])"
  then show ?thesis
    using open_loop_entries [OF assms(1,3), of "[]" "length (files_of l)" g] ready_loop_entries [OF assms(1,2,5)] assms(4)
    by (simp add: open_dir_handle_def readdir_all_def Let_def del: append_assoc)
qed

text \<open>The result of \<^verbatim>\<open>opendir\<close> is not checked: a directory that cannot be opened stops the program.\<close>

lemma open_dir_missing:
  assumes "0 \<notin> set d" "length d < 2 ^ 62" "ds (d @ [47]) = None"
  shows "open_dir_handle g fs ds ds' d = Inl Null_Deref"
  using assms by (rule_tac open_dir_path [of d g ds]) (simp_all add: open_dir_handle_def readdir_all_def Let_def)

lemma close_loop_ready: "list_all (\<lambda>nm. fs (d @ nm) \<noteq> None) nms \<Longrightarrow> close_loop (map (ready_handle fs d) nms) = Inr ()"
  by (induction nms) (simp_all add: close_file_handle_def ready_handle_def)

subsection \<open>Properties\<close>

text \<open>
  C20. The segments of a file are the file: for a file below 4 GiB and a segment size that is not 0, the announced
  number of segments is the number of segments that can be read, reading them in order gives the bytes of the
  file, and the next one is refused.
\<close>

theorem segments_reassemble:
  assumes "ready_on fh d" "length d < 2 ^ 32" "ss \<noteq> 0" "unat ss < 2 ^ 63"
  shows "\<exists>segs. num_segments_in_file_handle fh ss = Inr (word_of_nat (length segs)) \<and> concat segs = d
     \<and> (\<forall>k<length segs. segment_in_file_handle g fh (word_of_nat (Suc k)) ss = Inr (Some (segs ! k)))
     \<and> segment_in_file_handle g fh (word_of_nat (Suc (length segs))) ss = Inr None"
proof -
  let ?segs = "segments (unat ss) d"
  have pos: "0 < unat ss" using assms(3) by (simp add: unat_gt_0)
  obtain n where n: "num_segments_in_file_handle fh ss = Inr n" "unat n = length ?segs"
    using num_segments_eq [OF assms(1) _ assms(3)] assms(2) by auto
  have "length ?segs \<le> length d + (unat ss - 1)"
    by simp
  then have lt: "Suc (length ?segs) < 2 ^ 64"
    using assms(2,4) by (simp del: segments_length)
  have nw: "n = word_of_nat (length ?segs)"
    using n(2) lt by (simp add: word_unat_eq_iff unat_of_nat64)
  have u: "unat (word_of_nat (Suc (length ?segs)) :: uint64) = Suc (length ?segs)"
    using lt by (rule unat_of_nat64)
  have past: "word_of_nat (Suc (length ?segs)) > n"
    using u n(2) by (simp add: word_less_nat_alt)
  have "segment_in_file_handle g fh (word_of_nat (Suc (length ?segs))) ss = Inr None"
    using past n(1) by (auto simp: segment_in_file_handle_def)
  then show ?thesis
    using n(1) nw segments_concat [OF pos] segment_eq [OF assms] by (intro exI [of _ ?segs]) simp
qed

theorem segments_reassemble_witness:
  "\<exists>segs. num_segments_in_file_handle \<lparr>pointer = Some [1, 2, 3], pointerStatus = True, path = [97], fileName = [97], fileSize = 3\<rparr> 2
       = Inr (word_of_nat (length segs)) \<and> concat segs = [1, 2, 3]
     \<and> (\<forall>k<length segs. segment_in_file_handle (\<lambda>_. 0) \<lparr>pointer = Some [1, 2, 3], pointerStatus = True, path = [97], fileName = [97], fileSize = 3\<rparr>
          (word_of_nat (Suc k)) 2 = Inr (Some (segs ! k)))
     \<and> segment_in_file_handle (\<lambda>_. 0) \<lparr>pointer = Some [1, 2, 3], pointerStatus = True, path = [97], fileName = [97], fileSize = 3\<rparr>
          (word_of_nat (Suc (length segs))) 2 = Inr None"
  by (rule segments_reassemble) (simp_all add: ready_on_def)

text \<open>
  Lookup by name: the name of a handle is the part of its path after the last slash, and looking a name up in
  a directory gives the first handle with exactly that name, or none.
\<close>

theorem file_lookup_exact:
  assumes "length file < 2 ^ 64" "\<forall>fh \<in> set (handles dh). length (fileName fh) < 2 ^ 64"
  shows "file_handle_for_file dh file = Inr (find (\<lambda>fh. fileName fh = file) (handles dh))
     \<and> (\<exists>pre. p = pre @ getFileNameFromPath p \<and> 47 \<notin> set (getFileNameFromPath p) \<and> (pre = [] \<or> last pre = 47))"
  using handle_loop_find [OF assms] name_loop_split [of "length p" p]
  by (simp add: file_handle_for_file_def getFileNameFromPath_def)

theorem file_lookup_exact_witness:
  "file_handle_for_file \<lparr>handles = [\<lparr>pointer = None, pointerStatus = False, path = [47, 97], fileName = [97], fileSize = 0\<rparr>], dir = [47]\<rparr> [97]
     = Inr (find (\<lambda>fh. fileName fh = [97]) (handles
        \<lparr>handles = [\<lparr>pointer = None, pointerStatus = False, path = [47, 97], fileName = [97], fileSize = 0\<rparr>], dir = [47]\<rparr>))
   \<and> (\<exists>pre. [47, 97] = pre @ getFileNameFromPath [47, 97] \<and> 47 \<notin> set (getFileNameFromPath [47, 97]) \<and> (pre = [] \<or> last pre = 47))"
  by (rule file_lookup_exact) simp_all

text \<open>
  C21. A directory is served: opening a directory, when it and its files can be opened and it does not change in between, gives one
  handle per entry that is no directory; every such entry is found by its name, with its bytes and size ready to be
  sent; and closing the directory succeeds.
\<close>

theorem directory_served:
  assumes "list_all entry_name (files_of l)" "0 \<notin> set d" "length d < 2 ^ 62" "ds (d @ [47]) = Some l"
    "list_all (\<lambda>nm. fs ((d @ [47]) @ nm) \<noteq> None) (files_of l)" "nm \<in> set (files_of l)"
  shows "\<exists>dh fh. open_dir_handle g fs ds ds d = Inr dh \<and> length (handles dh) = length (files_of l)
     \<and> file_handle_for_file dh nm = Inr (Some fh) \<and> ready_on fh (the (fs ((d @ [47]) @ nm))) \<and> close_dir_handle dh = Inr ()"
proof -
  let ?hs = "map (ready_handle fs (d @ [47])) (files_of l)"
  have names: "\<forall>fh \<in> set ?hs. length (fileName fh) < 2 ^ 64" "length nm < 2 ^ 64"
    using assms(1,6) by (auto simp: ready_handle_def list_all_iff entry_name_def)
  obtain fh where fh: "find (\<lambda>fh. fileName fh = nm) ?hs = Some fh"
    using assms(6) by (cases "find (\<lambda>fh. fileName fh = nm) ?hs") (auto simp: find_None_iff ready_handle_def)
  then have "fh = ready_handle fs (d @ [47]) nm"
    by (auto simp: find_Some_iff ready_handle_def)
  then have "ready_on fh (the (fs ((d @ [47]) @ nm)))"
    using assms(5,6) by (auto simp: ready_on_def ready_handle_def list_all_iff)
  then show ?thesis
    using open_dir_entries [where ds = ds, OF assms(1-5), of g] handle_loop_find [OF names(2,1)] fh close_loop_ready [OF assms(5)]
    by (simp add: file_handle_for_file_def close_dir_handle_def)
qed

theorem directory_served_witness:
  "\<exists>dh fh. open_dir_handle (\<lambda>_. 0) (\<lambda>_. Some [7, 8]) [[46, 47] \<mapsto> [(8, [97]), (4, [46])]] [[46, 47] \<mapsto> [(8, [97]), (4, [46])]] [46] = Inr dh
     \<and> length (handles dh) = length (files_of [(8, [97]), (4, [46])])
     \<and> file_handle_for_file dh [97] = Inr (Some fh) \<and> ready_on fh (the ((\<lambda>_. Some [7, 8]) (([46] @ [47]) @ [97 :: uchar8])))
     \<and> close_dir_handle dh = Inr ()"
  by (rule directory_served) (simp_all add: files_of_def entry_name_def)

end
