(* ===== verification/Server_Thread.thy ===== *)
theory Server_Thread
  imports Conn_Chan Section_Correct File_Handle_Correct Message_Correct
begin

text \<open>
  The thread of a channel, \<^verbatim>\<open>fork_server_channel\<close> of \<^verbatim>\<open>src/justin-snapshot/src/server_help.c\<close>: it sends the
  segments of the channel's file in order and then the segments asked for again. The channel is shared with the
  main loop; what the main loop writes into it after an iteration of the thread is an event. The
  result is the thread's state when the events are used up or when the thread has ended, and the messages it
  has given to \<^verbatim>\<open>send_msg\<close>.
\<close>

record thread_t =
  send_sec :: section_t
  retrans_sec :: section_t
  finished_ft :: bool

definition thread_init :: thread_t where
  "thread_init = \<lparr>send_sec = add_to_section create_section 0, retrans_sec = create_section, finished_ft = False\<rparr>"

datatype chan_event = Quiet | Make_Ready | Retransmit msg_t | Kill

fun apply_event :: "chan_event \<Rightarrow> channel_t \<Rightarrow> channel_t" where
  "apply_event Quiet ch = ch"
| "apply_event Make_Ready ch = ch\<lparr>chan_ready := True\<rparr>"
| "apply_event (Retransmit m) ch = ch\<lparr>chan_value := Some m, chan_data := True\<rparr>"
| "apply_event Kill ch = ch\<lparr>chan_kill := True\<rparr>"

text \<open>Taking over a retransmission request; the message is freed and \<^verbatim>\<open>value\<close> is not read again before the next request.\<close>

definition relay :: "thread_t \<Rightarrow> channel_t \<Rightarrow> (thread_t \<times> channel_t) c_result" where
  "relay th ch =
     (if chan_data ch then
        (case chan_value ch of
           None \<Rightarrow> Inl Null_Deref
         | Some m \<Rightarrow> Inr (th\<lparr>retrans_sec := add_to_section (retrans_sec th) (segmentNum (head m))\<rparr>,
                          ch\<lparr>chan_value := None, chan_data := False\<rparr>))
      else Inr (th, ch))"

definition segment_msg :: "garbage \<Rightarrow> uint64 \<Rightarrow> channel_t \<Rightarrow> file_handle_t \<Rightarrow> uint64 \<Rightarrow> msg_t c_result" where
  "segment_msg g rnd ch fh num =
     c_bind (segment_in_file_handle g fh num (maxSize ch)) (\<lambda>bytes.
     (let b = (case bytes of None \<Rightarrow> [] | Some b \<Rightarrow> b) in
      form_msg rnd (selfID ch) (otherID ch) (chan_code DATA) (data_code SYN) num b (word_of_nat (length b))))"

text \<open>What an iteration does next (lines 61 to 81), and the whole iteration (lines 52 to 81).\<close>

definition thread_work :: "garbage \<Rightarrow> uint64 \<Rightarrow> thread_t \<Rightarrow> channel_t \<Rightarrow> (thread_t \<times> msg_t list) c_result" where
  "thread_work g rnd th ch =
     (case chan_handle ch of
        None \<Rightarrow> Inl Null_Deref
      | Some fh \<Rightarrow>
          if finished_ft th then
            (if get_piece_in_section (retrans_sec th) 0 \<noteq> None then
               c_bind (segment_msg g rnd ch fh (first_low_in_section (retrans_sec th))) (\<lambda>m.
               Inr (th\<lparr>retrans_sec := delete_from_section (retrans_sec th) (first_low_in_section (retrans_sec th))\<rparr>, [m]))
             else Inr (th, []))
          else
            c_bind (num_segments_in_file_handle fh (maxSize ch)) (\<lambda>n.
            if last_continual_high_in_section (send_sec th) < n + 1 then
              (let num = last_continual_high_in_section (send_sec th) + 1 in
               c_bind (segment_msg g rnd ch fh num) (\<lambda>m.
               Inr (th\<lparr>send_sec := add_to_section (send_sec th) num\<rparr>, [m])))
            else Inr (th\<lparr>finished_ft := True\<rparr>, [])))"

definition thread_step ::
    "garbage \<Rightarrow> uint64 \<Rightarrow> thread_t \<Rightarrow> channel_t \<Rightarrow> (thread_t \<times> channel_t \<times> msg_t list) c_result" where
  "thread_step g rnd th ch =
     c_bind (relay th ch) (\<lambda>(th, ch).
     c_bind (thread_work g rnd th ch) (\<lambda>(th, ms). Inr (th, ch, ms)))"

datatype thread_status = Running | Ended

text \<open>The end of the thread (lines 84 to 86): a request that is still pending and the two sections are released.\<close>

definition free_sections :: "thread_t \<Rightarrow> unit c_result" where
  "free_sections th = c_bind (free_section (send_sec th)) (\<lambda>_. free_section (retrans_sec th))"

definition thread_end :: "thread_t \<Rightarrow> channel_t \<Rightarrow> unit c_result" where
  "thread_end th ch =
     c_bind (if chan_data ch then (case chan_value ch of None \<Rightarrow> Inl Null_Deref | Some m \<Rightarrow> Inr ()) else Inr ()) (\<lambda>_.
     free_sections th)"

text \<open>The loop. An event is what the main loop does after the iteration; \<open>rnds\<close> are the draws of \<^verbatim>\<open>form_msg\<close>.\<close>

fun thread_loop ::
    "garbage \<Rightarrow> (nat \<Rightarrow> uint64) \<Rightarrow> thread_t \<Rightarrow> channel_t \<Rightarrow> chan_event list \<Rightarrow> msg_t list
     \<Rightarrow> (thread_status \<times> thread_t \<times> channel_t \<times> msg_t list) c_result" where
  "thread_loop g rnds th ch [] out =
     (if chan_kill ch then c_bind (thread_end th ch) (\<lambda>_. Inr (Ended, th, ch, out)) else Inr (Running, th, ch, out))"
| "thread_loop g rnds th ch (ev # evs) out =
     (if chan_kill ch then c_bind (thread_end th ch) (\<lambda>_. Inr (Ended, th, ch, out))
      else c_bind (thread_step g (rnds (length out)) th ch) (\<lambda>(th, ch, ms).
           thread_loop g rnds th (apply_event ev ch) evs (out @ ms)))"

fun wait_ready :: "channel_t \<Rightarrow> chan_event list \<Rightarrow> channel_t \<times> chan_event list" where
  "wait_ready ch [] = (ch, [])"
| "wait_ready ch (ev # evs) =
     (if \<not> chan_ready ch \<and> \<not> chan_kill ch then wait_ready (apply_event ev ch) evs else (ch, ev # evs))"

definition fork_server_channel ::
    "garbage \<Rightarrow> (nat \<Rightarrow> uint64) \<Rightarrow> channel_t \<Rightarrow> chan_event list
     \<Rightarrow> (thread_status \<times> thread_t \<times> channel_t \<times> msg_t list) c_result" where
  "fork_server_channel g rnds ch evs =
     (let (ch, evs) = wait_ready ch evs in thread_loop g rnds thread_init ch evs [])"

subsection \<open>The messages of a file\<close>

text \<open>What a channel on the file \<open>d\<close> with segment size \<open>ss\<close> has to send: its segments and one empty message.\<close>

definition serves :: "channel_t \<Rightarrow> uint64 \<Rightarrow> bytes \<Rightarrow> bool" where
  "serves ch ss d \<longleftrightarrow> (\<exists>fh. chan_handle ch = Some fh \<and> ready_on fh d) \<and> maxSize ch = ss \<and> ss \<noteq> 0 \<and> unat ss < 65536
     \<and> length d < 2 ^ 32"

definition nth_segment :: "uint64 \<Rightarrow> bytes \<Rightarrow> nat \<Rightarrow> bytes" where
  "nth_segment ss d k = (if k < length (segments (unat ss) d) then segments (unat ss) d ! k else [])"

definition segment_message :: "uint64 \<Rightarrow> channel_t \<Rightarrow> bytes \<Rightarrow> nat \<Rightarrow> msg_t" where
  "segment_message rnd ch d k =
     formed_msg (form_head rnd (selfID ch) (otherID ch) (chan_code DATA) (data_code SYN) (word_of_nat (Suc k))
       (word_of_nat (length (nth_segment (maxSize ch) d k)))) (nth_segment (maxSize ch) d k)"

lemma nth_segment_length: "length (nth_segment ss d k) \<le> unat ss"
  by (simp add: nth_segment_def segments_def)

lemma segments_bound: "length d < 2 ^ 32 \<Longrightarrow> 0 < ss \<Longrightarrow> length (segments ss d) < 2 ^ 32"
proof -
  assume d: "length d < 2 ^ 32" and ss: "0 < ss"
  have "(length d + (ss - 1)) div ss \<le> length d"
  proof (cases "length d = 0")
    case False
    have "(length d + (ss - 1)) div ss < length d + 1"
    proof (rule div_less_iff_less_mult [THEN iffD2, OF ss])
      have "ss - 1 < ss" "length d \<le> length d * ss" using ss by simp_all
      then have "length d + (ss - 1) < length d * ss + ss" by linarith
      then show "length d + (ss - 1) < (length d + 1) * ss"
        by (simp add: add_mult_distrib)
    qed
    then show ?thesis by simp
  qed (use ss in simp)
  then show ?thesis
    using d by simp
qed

lemma segment_msg_eq:
  assumes "chan_handle ch = Some fh" "ready_on fh d" "maxSize ch \<noteq> 0" "unat (maxSize ch) < 65536" "length d < 2 ^ 32"
    and k: "k \<le> length (segments (unat (maxSize ch)) d)"
  shows "segment_msg g rnd ch fh (word_of_nat (Suc k)) = Inr (segment_message rnd ch d k)"
proof -
  let ?ss = "maxSize ch" and ?b = "nth_segment (maxSize ch) d k"
  have seg: "\<exists>r. segment_in_file_handle g fh (word_of_nat (Suc k)) ?ss = Inr r \<and> (case r of None \<Rightarrow> [] | Some b \<Rightarrow> b) = ?b"
  proof (cases "k < length (segments (unat ?ss) d)")
    case True
    then show ?thesis
      using segment_eq [OF assms(2,5,3), of k g] assms(4) by (simp add: nth_segment_def)
  next
    case False
    then have kk: "k = length (segments (unat ?ss) d)" using k by simp
    obtain n where n: "num_segments_in_file_handle fh ?ss = Inr n" "unat n = k"
      using num_segments_eq [OF assms(2) _ assms(3)] assms(5) kk by auto
    have "k < 2 ^ 32"
      unfolding kk by (rule segments_bound [OF assms(5)]) (simp add: unat_gt_0 assms(3))
    then have "n < word_of_nat (Suc k)"
      using n(2) by (simp add: word_less_nat_alt unat_of_nat64 del: of_nat_Suc)
    then show ?thesis
      using n(1) False by (auto simp: segment_in_file_handle_def nth_segment_def)
  qed
  have "length ?b < 65536"
    using nth_segment_length [of ?ss d k] assms(4) by simp
  then have "unat (word_of_nat (length ?b) :: uint32) = length ?b"
    by (simp add: unat_of_nat32)
  then show ?thesis
    using seg form_msg_eq [of "word_of_nat (length ?b)" ?b] \<open>length ?b < 65536\<close>
    by (auto simp: segment_msg_def segment_message_def Let_def simp del: of_nat_Suc)
qed

end
