(* ===== verification/Chan_Race.thy ===== *)
theory Chan_Race
  imports Server_Thread
begin

text \<open>
  How the main loop of the server hands a request for retransmission to the thread of a channel (\<^verbatim>\<open>drv/server.c\<close> lines 238 and
  239, \<^verbatim>\<open>server_help.c\<close> lines 53 to 56): without a lock, through the fields \<^verbatim>\<open>value\<close> and \<^verbatim>\<open>data\<close>. Here every access to these fields
  is a step of its own, and a schedule is any sequence of steps of the two. A message is a block of memory with an
  address; the set of live addresses shows use after release.
\<close>

datatype thread_pc = Check | Take | Release | Clear | Work

record race =
  r_ch :: channel_t
  r_th :: thread_t
  r_addr :: "nat option"
  r_live :: "nat set"
  r_fresh :: nat
  r_pc :: thread_pc

datatype micro = Thread | Store msg_t | Flag

text \<open>
  The thread tests \<^verbatim>\<open>data\<close>, takes the number out of the message, releases the message that \<^verbatim>\<open>value\<close> points to by
  then, clears \<^verbatim>\<open>data\<close>, and does the rest of its iteration, which does not touch the two fields.
\<close>

definition thread_micro :: "race \<Rightarrow> race c_result" where
  "thread_micro s =
     (case r_pc s of
        Check \<Rightarrow> Inr (s\<lparr>r_pc := if chan_data (r_ch s) then Take else Work\<rparr>)
      | Take \<Rightarrow>
          (case (r_addr s, chan_value (r_ch s)) of
             (Some a, Some m) \<Rightarrow>
               if a \<in> r_live s
               then Inr (s\<lparr>r_th := (r_th s)\<lparr>retrans_sec := add_to_section (retrans_sec (r_th s)) (segmentNum (head m))\<rparr>, r_pc := Release\<rparr>)
               else Inl Use_After_Free
           | _ \<Rightarrow> Inl Null_Deref)
      | Release \<Rightarrow>
          (case r_addr s of
             Some a \<Rightarrow> if a \<in> r_live s then Inr (s\<lparr>r_live := r_live s - {a}, r_pc := Clear\<rparr>) else Inl Use_After_Free
           | None \<Rightarrow> Inl Null_Deref)
      | Clear \<Rightarrow> Inr (s\<lparr>r_ch := (r_ch s)\<lparr>chan_data := False\<rparr>, r_pc := Work\<rparr>)
      | Work \<Rightarrow> Inr (s\<lparr>r_pc := Check\<rparr>))"

fun micro_step :: "micro \<Rightarrow> race \<Rightarrow> race c_result" where
  "micro_step Thread s = thread_micro s"
| "micro_step (Store m) s =
     Inr (s\<lparr>r_ch := (r_ch s)\<lparr>chan_value := Some m\<rparr>, r_addr := Some (r_fresh s), r_live := insert (r_fresh s) (r_live s),
            r_fresh := Suc (r_fresh s)\<rparr>)"
| "micro_step Flag s = Inr (s\<lparr>r_ch := (r_ch s)\<lparr>chan_data := True\<rparr>\<rparr>)"

fun run_micro :: "micro list \<Rightarrow> race \<Rightarrow> race c_result" where
  "run_micro [] s = Inr s"
| "run_micro (x # xs) s = c_bind (micro_step x s) (run_micro xs)"

text \<open>The main loop sets the flag right after it has stored the message; \<open>waiting\<close> holds between the two.\<close>

fun main_order :: "bool \<Rightarrow> micro list \<Rightarrow> bool" where
  "main_order waiting [] = True"
| "main_order waiting (Thread # xs) = main_order waiting xs"
| "main_order waiting (Store m # xs) = (\<not> waiting \<and> main_order True xs)"
| "main_order waiting (Flag # xs) = (waiting \<and> main_order False xs)"

fun still_waiting :: "bool \<Rightarrow> micro list \<Rightarrow> bool" where
  "still_waiting waiting [] = waiting"
| "still_waiting waiting (Thread # xs) = still_waiting waiting xs"
| "still_waiting waiting (Store m # xs) = still_waiting True xs"
| "still_waiting waiting (Flag # xs) = still_waiting False xs"

fun stored :: "micro list \<Rightarrow> msg_t list" where
  "stored [] = []"
| "stored (Store m # xs) = m # stored xs"
| "stored (_ # xs) = stored xs"

definition race_init :: "channel_t \<Rightarrow> race" where
  "race_init ch = \<lparr>r_ch = ch, r_th = thread_init, r_addr = None, r_live = {}, r_fresh = 0, r_pc = Check\<rparr>"

subsection \<open>Without interruption\<close>

text \<open>Four steps of the thread in a row are the hand-over of \<open>Server_Thread\<close>, which takes it in one step.\<close>

lemma relay_micro:
  assumes "r_pc s = Check" "chan_data (r_ch s)" "r_addr s = Some a" "a \<in> r_live s" "chan_value (r_ch s) = Some m"
  shows "\<exists>s' ch'. run_micro [Thread, Thread, Thread, Thread] s = Inr s' \<and> relay (r_th s) (r_ch s) = Inr (r_th s', ch')
     \<and> r_ch s'\<lparr>chan_value := None\<rparr> = ch' \<and> r_pc s' = Work \<and> r_live s' = r_live s - {a}"
  using assms by (simp add: thread_micro_def relay_def)

subsection \<open>A main loop that waits\<close>

text \<open>
  Schedules in which a request is stored only while the thread neither has one to take nor is taking one. The main loop
  makes no such check.
\<close>

definition vacant :: "race \<Rightarrow> bool" where
  "vacant s \<longleftrightarrow> \<not> chan_data (r_ch s) \<and> r_pc s \<in> {Check, Work}"

fun polite :: "micro list \<Rightarrow> race \<Rightarrow> bool" where
  "polite [] s = True"
| "polite (x # xs) s =
     ((case x of Store m \<Rightarrow> vacant s | _ \<Rightarrow> True) \<and> (case micro_step x s of Inl e \<Rightarrow> True | Inr s' \<Rightarrow> polite xs s'))"

definition queued :: "section_t \<Rightarrow> msg_t list \<Rightarrow> section_t" where
  "queued sec ms = foldl (\<lambda>sec m. add_to_section sec (segmentNum (head m))) sec ms"

text \<open>
  The states of the hand-over when the requests \<open>ms\<close> have been stored: \<open>waiting\<close> as above; the last request is either
  still to be taken or has been taken.
\<close>

definition pending_req :: "msg_t list \<Rightarrow> race \<Rightarrow> bool" where
  "pending_req ms s \<longleftrightarrow> ms \<noteq> [] \<and> chan_value (r_ch s) = Some (last ms) \<and> (\<exists>a. r_addr s = Some a \<and> r_live s = {a})
     \<and> retrans_sec (r_th s) = queued create_section (butlast ms)"

definition taken :: "msg_t list \<Rightarrow> race \<Rightarrow> bool" where
  "taken ms s \<longleftrightarrow> retrans_sec (r_th s) = queued create_section ms"

definition hand_over :: "bool \<Rightarrow> msg_t list \<Rightarrow> race \<Rightarrow> bool" where
  "hand_over waiting ms s \<longleftrightarrow>
     (if waiting then vacant s \<and> pending_req ms s
      else if \<not> chan_data (r_ch s) then r_pc s \<in> {Check, Work} \<and> taken ms s \<and> r_live s = {}
      else (case r_pc s of
              Release \<Rightarrow> taken ms s \<and> (\<exists>a. r_addr s = Some a \<and> r_live s = {a})
            | Clear \<Rightarrow> taken ms s \<and> r_live s = {}
            | _ \<Rightarrow> pending_req ms s))"

lemma queued_last: "ms \<noteq> [] \<Longrightarrow> add_to_section (queued sec (butlast ms)) (segmentNum (head (last ms))) = queued sec ms"
proof -
  assume "ms \<noteq> []"
  then have "queued sec ms = queued sec (butlast ms @ [last ms])" by simp
  then show ?thesis by (simp only: queued_def foldl_append foldl.simps)
qed

lemma hand_over_thread:
  assumes "hand_over w ms s"
  shows "\<exists>s'. thread_micro s = Inr s' \<and> hand_over w ms s'"
  using assms queued_last [of ms create_section]
  by (cases "r_pc s"; cases w; cases "chan_data (r_ch s)")
    (auto simp: hand_over_def thread_micro_def vacant_def pending_req_def taken_def)

lemma hand_over_store:
  "hand_over False ms s \<Longrightarrow> vacant s \<Longrightarrow> \<exists>s'. micro_step (Store m) s = Inr s' \<and> hand_over True (ms @ [m]) s'"
  by (auto simp: hand_over_def vacant_def pending_req_def taken_def)

lemma hand_over_flag: "hand_over True ms s \<Longrightarrow> \<exists>s'. micro_step Flag s = Inr s' \<and> hand_over False ms s'"
  by (auto simp: hand_over_def vacant_def pending_req_def)

lemma polite_run:
  "polite xs s \<Longrightarrow> main_order w xs \<Longrightarrow> hand_over w ms s \<Longrightarrow> \<exists>s'. run_micro xs s = Inr s' \<and> hand_over (still_waiting w xs) (ms @ stored xs) s'"
proof (induction xs arbitrary: s w ms)
  case Nil
  then show ?case by auto
next
  case (Cons x xs)
  show ?case
  proof (cases x)
    case Thread
    then show ?thesis using Cons hand_over_thread [OF Cons.prems(3)] by fastforce
  next
    case (Store m)
    then show ?thesis using Cons hand_over_store [of ms s m] by fastforce
  next
    case Flag
    then show ?thesis using Cons hand_over_flag [of ms s] by fastforce
  qed
qed

lemma run_micro_append: "run_micro (xs @ ys) s = c_bind (run_micro xs s) (run_micro ys)"
proof (induction xs arbitrary: s)
  case (Cons x xs)
  then show ?case by (cases "micro_step x s") simp_all
qed simp

lemma five_steps:
  assumes "hand_over False ms s"
  shows "\<exists>s'. run_micro (replicate 5 Thread) s = Inr s' \<and> taken ms s' \<and> r_live s' = {}"
  using assms queued_last [of ms create_section]
  by (cases "r_pc s"; cases "chan_data (r_ch s)")
    (auto simp: hand_over_def thread_micro_def pending_req_def taken_def numeral_eq_Suc)

lemma still_waiting_Flag [simp]: "\<not> still_waiting w (xs @ [Flag])"
  by (induction w xs rule: still_waiting.induct) simp_all

lemma stored_Flag [simp]: "stored (xs @ [Flag]) = stored xs"
  by (induction xs rule: stored.induct) simp_all

lemma hand_over_init: "\<not> chan_data ch \<Longrightarrow> hand_over False [] (race_init ch)"
  by (simp add: hand_over_def race_init_def taken_def thread_init_def queued_def)

subsection \<open>Properties\<close>

text \<open>
  C25. The hand-over of requests is not safe: with two requests, a schedule of the two programs exists in which the thread reads a
  message that it has released itself, because the main loop stores the second one between the reading and the releasing of the
  first; and one in which the second request is lost, because the main loop sets the flag before the thread clears it: no memory
  error occurs, the request is never queued and its message is never released.
\<close>

theorem hand_over_race:
  assumes "\<not> chan_data ch"
  shows "(\<exists>xs. main_order False xs \<and> stored xs = [m1, m2] \<and> run_micro xs (race_init ch) = Inl Use_After_Free)
     \<and> (\<exists>xs s. main_order False xs \<and> stored xs = [m1, m2] \<and> run_micro xs (race_init ch) = Inr s \<and> vacant s
          \<and> retrans_sec (r_th s) = queued create_section [m1] \<and> r_live s = {1})"
proof
  show "\<exists>xs. main_order False xs \<and> stored xs = [m1, m2] \<and> run_micro xs (race_init ch) = Inl Use_After_Free"
    by (rule exI [of _ "[Store m1, Flag, Thread, Thread, Store m2, Thread, Thread, Flag, Thread, Thread, Thread]"])
      (simp add: race_init_def thread_micro_def)
  show "\<exists>xs s. main_order False xs \<and> stored xs = [m1, m2] \<and> run_micro xs (race_init ch) = Inr s \<and> vacant s
      \<and> retrans_sec (r_th s) = queued create_section [m1] \<and> r_live s = {1}"
    by (rule exI [of _ "[Store m1, Flag, Thread, Thread, Thread, Store m2, Flag, Thread]"])
      (auto simp: race_init_def thread_micro_def vacant_def queued_def thread_init_def)
qed

theorem hand_over_race_witness:
  "(\<exists>xs. main_order False xs \<and> stored xs = [sample_msg, sample_msg] \<and> run_micro xs (race_init blank_channel) = Inl Use_After_Free)
     \<and> (\<exists>xs s. main_order False xs \<and> stored xs = [sample_msg, sample_msg] \<and> run_micro xs (race_init blank_channel) = Inr s \<and> vacant s
          \<and> retrans_sec (r_th s) = queued create_section [sample_msg] \<and> r_live s = {1})"
  by (rule hand_over_race) (simp add: blank_channel_def)

text \<open>
  The hand-over is safe for a main loop that stores a request only while the thread has none: in every such schedule, however
  the steps are interleaved, no memory error occurs, and once the thread gets five more steps after the last flag every request has been
  queued once, in order, and every message released.
\<close>

theorem hand_over_polite:
  assumes "\<not> chan_data ch" "polite (xs @ [Flag]) (race_init ch)" "main_order False (xs @ [Flag])"
  shows "\<exists>s. run_micro (xs @ Flag # replicate 5 Thread) (race_init ch) = Inr s
     \<and> retrans_sec (r_th s) = queued create_section (stored xs) \<and> r_live s = {}"
proof -
  obtain s where s: "run_micro (xs @ [Flag]) (race_init ch) = Inr s" "hand_over False (stored xs) s"
    using polite_run [OF assms(2,3) hand_over_init [OF assms(1)]] by auto
  have "run_micro (xs @ Flag # replicate 5 Thread) (race_init ch) = run_micro (replicate 5 Thread) s"
    using s(1) run_micro_append [of "xs @ [Flag]" "replicate 5 Thread" "race_init ch"] by simp
  with five_steps [OF s(2)] show ?thesis by (auto simp: taken_def)
qed

theorem hand_over_polite_witness:
  "\<exists>s. run_micro ([Thread, Store sample_msg] @ Flag # replicate 5 Thread) (race_init blank_channel) = Inr s
     \<and> retrans_sec (r_th s) = queued create_section (stored [Thread, Store sample_msg]) \<and> r_live s = {}"
  by (rule hand_over_polite) (simp_all add: blank_channel_def race_init_def thread_micro_def vacant_def)

end
