(* ===== verification/Server_Thread_Correct.thy ===== *)
theory Server_Thread_Correct
  imports Server_Thread
begin

text \<open>
  Theorems on the thread of a channel: the messages it sends are the segments of the file in order, followed by an
  empty one, then the segments asked for again.
\<close>

definition sent_upto :: "nat \<Rightarrow> section_t" where
  "sent_upto k = \<lparr>pieces = [\<lparr>lowBound = 0, highBound = word_of_nat k\<rparr>], piecesPtr = Live_Array\<rparr>"

lemma thread_init_sent: "thread_init = \<lparr>send_sec = sent_upto 0, retrans_sec = create_section, finished_ft = False\<rparr>"
  by (simp add: thread_init_def sent_upto_def create_section_def add_to_section_def add_loop.simps)

lemma add_sent:
  assumes "Suc k < 2 ^ 64"
  shows "add_to_section (sent_upto k) (word_of_nat k + 1) = sent_upto (Suc k)"
proof -
  have "\<not> (word_of_nat k + 1 :: uint64) \<le> word_of_nat k"
    using assms by (simp add: word_le_nat_alt unat_of_nat64 of_nat_Suc [symmetric] add.commute [of _ 1] del: of_nat_Suc)
  then show ?thesis
    by (simp add: add_to_section_def sent_upto_def add_loop.simps extend_high_def Let_def add.commute)
qed

lemma sent_upto_high [simp]: "last_continual_high_in_section (sent_upto k) = word_of_nat k"
  by (simp add: last_continual_high_in_section_def sent_upto_def)

subsection \<open>One iteration\<close>

definition count :: "uint64 \<Rightarrow> bytes \<Rightarrow> nat" where
  "count ss d = length (segments (unat ss) d)"

lemma servesE:
  assumes "serves ch ss d"
  obtains fh where "chan_handle ch = Some fh" "ready_on fh d" "maxSize ch = ss" "ss \<noteq> 0" "unat ss < 65536"
    "length d < 2 ^ 32" "count ss d < 2 ^ 32" "num_segments_in_file_handle fh ss = Inr (word_of_nat (count ss d))"
proof -
  obtain fh where fh: "chan_handle ch = Some fh" "ready_on fh d" "maxSize ch = ss" "ss \<noteq> 0" "unat ss < 65536" "length d < 2 ^ 32"
    using assms by (auto simp: serves_def)
  have c: "count ss d < 2 ^ 32"
    unfolding count_def by (rule segments_bound [OF fh(6)]) (simp add: unat_gt_0 fh(4))
  obtain n where n: "num_segments_in_file_handle fh ss = Inr n" "unat n = count ss d"
    using num_segments_eq [OF fh(2) _ fh(4)] fh(6) by (auto simp: count_def)
  then have "n = word_of_nat (count ss d)"
    by (simp add: n(2) [symmetric])
  then show ?thesis
    using that [OF fh c] n(1) by simp
qed

lemma step_send:
  assumes "serves ch ss d" "\<not> chan_data ch" "\<not> finished_ft th" "send_sec th = sent_upto k" "k \<le> count ss d"
  shows "thread_step g rnd th ch = Inr (th\<lparr>send_sec := sent_upto (Suc k)\<rparr>, ch, [segment_message rnd ch d k])"
proof -
  obtain fh where fh: "chan_handle ch = Some fh" "ready_on fh d" "maxSize ch = ss" "ss \<noteq> 0" "unat ss < 65536"
    "length d < 2 ^ 32" "count ss d < 2 ^ 32" "num_segments_in_file_handle fh ss = Inr (word_of_nat (count ss d))"
    using assms(1) by (rule servesE)
  have "segment_msg g rnd ch fh (word_of_nat k + 1) = Inr (segment_message rnd ch d k)"
    using segment_msg_eq [OF fh(1,2), of k g rnd] fh(3-6) assms(5) by (simp add: count_def add.commute)
  moreover have "(word_of_nat k :: uint64) < word_of_nat (count ss d) + 1"
    using assms(5) fh(7) by (simp add: word_less_nat_alt unat_of_nat64 of_nat_Suc [symmetric] add.commute [of _ 1] del: of_nat_Suc)
  ultimately show ?thesis
    using assms(2-5) fh(1,3,7,8) add_sent [of k] by (simp add: thread_step_def thread_work_def relay_def)
qed

lemma step_finish:
  assumes "serves ch ss d" "\<not> chan_data ch" "\<not> finished_ft th" "send_sec th = sent_upto (Suc (count ss d))"
  shows "thread_step g rnd th ch = Inr (th\<lparr>finished_ft := True\<rparr>, ch, [])"
  using assms(2-4) by (rule_tac servesE [OF assms(1)]) (simp add: thread_step_def thread_work_def relay_def add.commute)

lemma step_idle:
  assumes "serves ch ss d" "\<not> chan_data ch" "finished_ft th" "get_piece_in_section (retrans_sec th) 0 = None"
  shows "thread_step g rnd th ch = Inr (th, ch, [])"
  using assms(2-4) by (rule_tac servesE [OF assms(1)]) (simp add: thread_step_def thread_work_def relay_def)

subsection \<open>The loop\<close>

lemma loop_send:
  assumes "serves ch ss d" "\<not> chan_data ch" "\<not> chan_kill ch" "\<not> finished_ft th" "send_sec th = sent_upto k"
    "length out = k" "k + j = Suc (count ss d)"
  shows "thread_loop g rnds th ch (replicate j Quiet @ evs) out =
     thread_loop g rnds (th\<lparr>send_sec := sent_upto (Suc (count ss d))\<rparr>) ch evs
       (out @ map (\<lambda>i. segment_message (rnds i) ch d i) [k..<Suc (count ss d)])"
  using assms(4-7)
proof (induction j arbitrary: th k out)
  case 0
  then show ?case
    by (cases th) simp
next
  case (Suc j)
  have k: "k \<le> count ss d" using Suc.prems(4) by simp
  have cons: "[k..<Suc (count ss d)] = k # [Suc k..<Suc (count ss d)]"
    using k by (simp add: upt_rec)
  show ?case
    using Suc.IH [of "th\<lparr>send_sec := sent_upto (Suc k)\<rparr>" "Suc k" "out @ [segment_message (rnds k) ch d k]"] Suc.prems
    by (simp add: step_send [OF assms(1,2) Suc.prems(1,2) k] assms(3) cons del: upt_Suc)
qed

lemma loop_idle:
  assumes "serves ch ss d" "\<not> chan_data ch" "\<not> chan_kill ch" "finished_ft th" "get_piece_in_section (retrans_sec th) 0 = None"
  shows "thread_loop g rnds th ch (replicate j Quiet @ evs) out = thread_loop g rnds th ch evs out"
  by (induction j) (simp_all add: step_idle [OF assms(1,2,4,5)] assms(3))

definition all_sent :: "channel_t \<Rightarrow> bytes \<Rightarrow> thread_t" where
  "all_sent ch d = \<lparr>send_sec = sent_upto (Suc (count (maxSize ch) d)), retrans_sec = create_section, finished_ft = True\<rparr>"

lemma no_piece [simp]: "get_piece_in_section create_section 0 = None"
  by (simp add: get_piece_in_section_def create_section_def)

lemma thread_whole_file:
  assumes "serves ch ss d" "chan_ready ch" "\<not> chan_data ch" "\<not> chan_kill ch"
  shows "fork_server_channel g rnds ch (replicate (count ss d + 2 + j) Quiet @ evs) =
     thread_loop g rnds (all_sent ch d) ch evs (map (\<lambda>i. segment_message (rnds i) ch d i) [0..<Suc (count ss d)])"
proof -
  let ?out = "map (\<lambda>i. segment_message (rnds i) ch d i) [0..<Suc (count ss d)]"
  have r: "replicate (count ss d + 2 + j) Quiet @ evs = replicate (Suc (count ss d)) Quiet @ Quiet # (replicate j Quiet @ evs)"
    using replicate_add [of "Suc (count ss d)" "Suc j" Quiet] by simp
  have mx: "maxSize ch = ss" using assms(1) by (simp add: serves_def)
  have "wait_ready ch (ev # es) = (ch, ev # es)" for ev es using assms(2) by simp
  then have "fork_server_channel g rnds ch (replicate (count ss d + 2 + j) Quiet @ evs) =
      thread_loop g rnds thread_init ch (replicate (Suc (count ss d)) Quiet @ Quiet # (replicate j Quiet @ evs)) []"
    by (simp only: fork_server_channel_def r replicate_Suc append_Cons Let_def split_conv)
  also have "\<dots> = thread_loop g rnds (thread_init\<lparr>send_sec := sent_upto (Suc (count ss d))\<rparr>) ch (Quiet # (replicate j Quiet @ evs)) ?out"
    using loop_send [OF assms(1,3,4), of thread_init 0 "[]" "Suc (count ss d)" g rnds "Quiet # (replicate j Quiet @ evs)"]
    by (simp add: thread_init_sent)
  also have "\<dots> = thread_loop g rnds (all_sent ch d) ch (replicate j Quiet @ evs) ?out"
    using step_finish [OF assms(1,3), of "thread_init\<lparr>send_sec := sent_upto (Suc (count ss d))\<rparr>"] assms(4)
    by (simp add: thread_init_sent all_sent_def mx)
  also have "\<dots> = thread_loop g rnds (all_sent ch d) ch evs ?out"
    by (rule loop_idle [OF assms(1,3,4)]) (simp_all add: all_sent_def)
  finally show ?thesis .
qed

subsection \<open>The messages\<close>

lemma segment_message_facts:
  assumes "unat (maxSize ch) < 65536"
  shows "verify_msg (segment_message rnd ch d k) = Inr True"
    "segmentNum (head (segment_message rnd ch d k)) = word_of_nat (Suc k)"
    "content (body (segment_message rnd ch d k)) = nth_segment (maxSize ch) d k"
    "unat (contentLength (head (segment_message rnd ch d k))) = length (nth_segment (maxSize ch) d k)"
proof -
  have "length (nth_segment (maxSize ch) d k) < 65536"
    using nth_segment_length [of "maxSize ch" d k] assms by simp
  then have u: "unat (word_of_nat (length (nth_segment (maxSize ch) d k)) :: uint32) = length (nth_segment (maxSize ch) d k)"
    "length (nth_segment (maxSize ch) d k) < 65536"
    by (simp_all add: unat_of_nat32)
  show "verify_msg (segment_message rnd ch d k) = Inr True"
    unfolding segment_message_def by (rule formed_verifies) (simp_all add: u)
  show "unat (contentLength (head (segment_message rnd ch d k))) = length (nth_segment (maxSize ch) d k)"
    using u by (simp add: segment_message_def formed_msg_def form_head_def)
qed (simp_all add: segment_message_def formed_msg_def form_head_def)

lemma map_nth_segment: "map (nth_segment ss d) [0..<Suc (count ss d)] = segments (unat ss) d @ [[]]"
  by (rule nth_equalityI) (auto simp: count_def nth_segment_def nth_append simp del: upt_Suc segments_length)

lemma nth_segment_bytes:
  assumes "ss \<noteq> 0" "k \<le> count ss d"
  shows "nth_segment ss d k = take (unat ss) (drop (k * unat ss) d)" "nth_segment ss d k = [] \<longleftrightarrow> k = count ss d"
proof -
  have pos: "0 < unat ss" using assms(1) by (simp add: unat_gt_0)
  have "take (count ss d * unat ss) d = d"
    using segments_concat [OF pos, of d] by (simp add: segments_def chunks_take count_def)
  then have over: "length d \<le> count ss d * unat ss" by (metis length_take min.cobounded2)
  have "nth_segment ss d k = take (unat ss) (drop (k * unat ss) d) \<and> (nth_segment ss d k = [] \<longleftrightarrow> k = count ss d)"
  proof (cases "k = count ss d")
    case True
    then show ?thesis using over by (simp add: nth_segment_def count_def)
  next
    case False
    then have k: "k < (length d + (unat ss - 1)) div unat ss" using assms(2) by (simp add: count_def)
    from segment_start [OF this pos] k False pos show ?thesis by (simp add: nth_segment_def segments_def)
  qed
  then show "nth_segment ss d k = take (unat ss) (drop (k * unat ss) d)" "nth_segment ss d k = [] \<longleftrightarrow> k = count ss d"
    by blast+
qed

lemma below_max: "unat x < 2 ^ 33 \<Longrightarrow> x \<noteq> (- 1 :: uint64)"
  by (auto simp: unsigned_minus_1_eq_mask mask_eq_exp_minus_1)

lemma one_request:
  assumes "num \<noteq> - 1"
  shows "get_piece_in_section (add_to_section create_section num) 0 \<noteq> None"
    "first_low_in_section (add_to_section create_section num) = num"
    "get_piece_in_section (delete_from_section (add_to_section create_section num) num) 0 = None"
    "free_section (delete_from_section (add_to_section create_section num) num) = Inl Double_Free"
  by (simp_all add: add_to_section_def create_section_def add_loop.simps get_piece_in_section_def first_low_in_section_def
      delete_from_section_def delete_loop.simps delete_at_def free_section_def)

lemma step_retransmit:
  assumes "serves ch ss d" "\<not> chan_data ch" "k \<le> count ss d" "segmentNum (head m) = word_of_nat (Suc k)"
  shows "thread_step g rnd (all_sent ch d) (apply_event (Retransmit m) ch) =
     Inr ((all_sent ch d)\<lparr>retrans_sec := delete_from_section (add_to_section create_section (word_of_nat (Suc k))) (word_of_nat (Suc k))\<rparr>,
       ch\<lparr>chan_value := None\<rparr>, [segment_message rnd ch d k])"
proof -
  obtain fh where fh: "chan_handle ch = Some fh" "ready_on fh d" "maxSize ch = ss" "ss \<noteq> 0" "unat ss < 65536"
    "length d < 2 ^ 32" "count ss d < 2 ^ 32"
    using assms(1) by (rule servesE)
  let ?ch = "ch\<lparr>chan_value := None\<rparr>" and ?n = "word_of_nat (Suc k) :: uint64"
  have k: "unat ?n = Suc k" "Suc k < 2 ^ 33"
    using assms(3) fh(7) by (simp_all add: unat_of_nat64 del: of_nat_Suc)
  then have n: "?n \<noteq> - 1"
    by (intro below_max) simp
  have ch: "(apply_event (Retransmit m) ch)\<lparr>chan_value := None, chan_data := False\<rparr> = ?ch"
    using assms(2) by (cases ch) simp
  have "segment_message rnd ?ch d k = segment_message rnd ch d k"
    by (simp add: segment_message_def)
  then have "segment_msg g rnd ?ch fh ?n = Inr (segment_message rnd ch d k)"
    using segment_msg_eq [of ?ch fh d k g rnd] fh assms(3) by (simp add: count_def del: of_nat_Suc)
  then show ?thesis
    using one_request [OF n] fh(1) ch assms(4) by (simp add: thread_step_def thread_work_def relay_def all_sent_def del: of_nat_Suc)
qed

text \<open>The channel runs through the file and then serves one request.\<close>

lemma idle_all_sent: "finished_ft (all_sent ch d)" "get_piece_in_section (retrans_sec (all_sent ch d)) 0 = None"
  "free_section (send_sec (all_sent ch d)) = Inr ()" "free_section (retrans_sec (all_sent ch d)) = Inr ()"
  by (simp_all add: all_sent_def free_section_def sent_upto_def) (simp add: create_section_def)

lemma thread_killed:
  assumes "serves ch ss d" "chan_ready ch" "\<not> chan_data ch" "\<not> chan_kill ch"
  shows "fork_server_channel g rnds ch (replicate (count ss d + 2) Quiet @ [Kill]) =
     Inr (Ended, all_sent ch d, ch\<lparr>chan_kill := True\<rparr>, map (\<lambda>i. segment_message (rnds i) ch d i) [0..<Suc (count ss d)])"
  using thread_whole_file [OF assms, of g rnds 0 "[Kill]"] idle_all_sent step_idle [OF assms(1,3) idle_all_sent(1,2)] assms(3,4)
  by (simp add: thread_end_def free_sections_def del: upt_Suc)

lemma thread_resends:
  assumes "serves ch ss d" "chan_ready ch" "\<not> chan_data ch" "\<not> chan_kill ch" "k \<le> count ss d"
    "segmentNum (head m) = word_of_nat (Suc k)"
  shows "fork_server_channel g rnds ch (replicate (count ss d + 2) Quiet @ [Retransmit m, ev]) =
     thread_loop g rnds ((all_sent ch d)\<lparr>retrans_sec := delete_from_section (add_to_section create_section (word_of_nat (Suc k))) (word_of_nat (Suc k))\<rparr>)
       (apply_event ev (ch\<lparr>chan_value := None\<rparr>)) []
       (map (\<lambda>i. segment_message (rnds i) ch d i) [0..<Suc (count ss d)] @ [segment_message (rnds (Suc (count ss d))) ch d k])"
proof -
  have "\<not> chan_kill (apply_event (Retransmit m) ch)" using assms(4) by simp
  then show ?thesis
    using thread_whole_file [OF assms(1-4), of g rnds 0 "[Retransmit m, ev]"] step_idle [OF assms(1,3) idle_all_sent(1,2)]
      step_retransmit [OF assms(1,3,5,6)] assms(4)
    by (simp del: upt_Suc of_nat_Suc apply_event.simps)
qed

subsection \<open>Properties\<close>

text \<open>
  C8. A channel on a readable file below 4 GiB, left alone once it is ready, sends exactly the segments of the file in
  order and one more empty message: message \<open>k\<close> of \<open>n + 1\<close>, counted from 0, has the number \<open>k + 1\<close> and carries the bytes from
  \<open>k\<close> times the segment size on, at most one segment of them, and the last one is empty. Every message passes verification. After that
  the thread sends nothing, however long it runs. The number \<open>n\<close> of segments is the one announced in the answer to the request.
\<close>

theorem thread_sends_file:
  assumes "serves ch ss d" "chan_ready ch" "\<not> chan_data ch" "\<not> chan_kill ch"
  shows "\<exists>th out n. fork_server_channel g rnds ch (replicate (n + 2 + j) Quiet) = Inr (Running, th, ch, out) \<and> finished_ft th
     \<and> length out = n + 1
     \<and> (\<forall>k \<le> n. segmentNum (head (out ! k)) = word_of_nat (k + 1) \<and> content (body (out ! k)) = take (unat ss) (drop (k * unat ss) d)
          \<and> (content (body (out ! k)) = [] \<longleftrightarrow> k = n) \<and> verify_msg (out ! k) = Inr True)
     \<and> concat (map (\<lambda>m. content (body m)) out) = d
     \<and> (\<exists>fh. chan_handle ch = Some fh \<and> num_segments_in_file_handle fh ss = Inr (word_of_nat n))"
proof -
  obtain fh where fh: "chan_handle ch = Some fh" "num_segments_in_file_handle fh ss = Inr (word_of_nat (count ss d))"
    using assms(1) by (rule servesE)
  let ?out = "map (\<lambda>i. segment_message (rnds i) ch d i) [0..<Suc (count ss d)]"
  have mx: "maxSize ch = ss" "unat ss < 65536" "ss \<noteq> 0" using assms(1) by (auto simp: serves_def)
  have "map (\<lambda>m. content (body m)) ?out = segments (unat ss) d @ [[]]"
    unfolding map_nth_segment [symmetric] by (simp add: segment_message_facts mx del: upt_Suc)
  then have all: "concat (map (\<lambda>m. content (body m)) ?out) = d"
    using segments_concat [of "unat ss" d] mx(3) by (simp add: unat_gt_0 del: upt_Suc)
  have each: "segmentNum (head (?out ! k)) = word_of_nat (k + 1) \<and> content (body (?out ! k)) = take (unat ss) (drop (k * unat ss) d)
      \<and> (content (body (?out ! k)) = [] \<longleftrightarrow> k = count ss d) \<and> verify_msg (?out ! k) = Inr True" if "k \<le> count ss d" for k
    using that nth_segment_bytes [OF mx(3) that]
    by (simp add: segment_message_facts mx less_Suc_eq_le del: upt_Suc of_nat_Suc of_nat_add)
  have run: "fork_server_channel g rnds ch (replicate (count ss d + 2 + j) Quiet) = Inr (Running, all_sent ch d, ch, ?out)"
    using thread_whole_file [OF assms, of g rnds j "[]"] assms(4) by (simp del: upt_Suc)
  show ?thesis
    by (rule exI [of _ "all_sent ch d"], rule exI [of _ ?out], rule exI [of _ "count ss d"])
      (intro conjI allI impI run all each, simp_all add: all_sent_def fh)
qed

definition sample_chan :: channel_t where
  "sample_chan = blank_channel\<lparr>selfID := 300, otherID := 100, maxSize := 2, chan_ready := True, chan_handle :=
     Some \<lparr>pointer = Some [1, 2, 3], pointerStatus = True, path = [97], fileName = [97], fileSize = 3\<rparr>\<rparr>"

lemma sample_chan_serves: "serves sample_chan 2 [1, 2, 3]" "chan_ready sample_chan" "\<not> chan_data sample_chan" "\<not> chan_kill sample_chan"
  by (simp_all add: sample_chan_def serves_def blank_channel_def ready_on_def)

theorem thread_sends_file_witness:
  "\<exists>th out n. fork_server_channel (\<lambda>_. 0) (\<lambda>_. 7) sample_chan (replicate (n + 2 + 1) Quiet) = Inr (Running, th, sample_chan, out) \<and> finished_ft th
     \<and> length out = n + 1
     \<and> (\<forall>k \<le> n. segmentNum (head (out ! k)) = word_of_nat (k + 1)
          \<and> content (body (out ! k)) = take (unat (2 :: uint64)) (drop (k * unat (2 :: uint64)) [1, 2, 3])
          \<and> (content (body (out ! k)) = [] \<longleftrightarrow> k = n) \<and> verify_msg (out ! k) = Inr True)
     \<and> concat (map (\<lambda>m. content (body m)) out) = [1, 2, 3]
     \<and> (\<exists>fh. chan_handle sample_chan = Some fh \<and> num_segments_in_file_handle fh 2 = Inr (word_of_nat n))"
  by (rule thread_sends_file) (fact sample_chan_serves)+

text \<open>
  C24. A request to send a segment again, arriving after the file has been sent, is answered with exactly that segment.
  The channel can be closed cleanly before the request, but not after it: the emptied set of requests is
  released twice when the thread ends.
\<close>

theorem thread_retransmits:
  assumes "serves ch ss d" "chan_ready ch" "\<not> chan_data ch" "\<not> chan_kill ch"
    "k \<le> length (segments (unat ss) d)" "segmentNum (head m) = word_of_nat (Suc k)"
  shows "\<exists>th th' out ms. let evs = replicate (length (segments (unat ss) d) + 2) Quiet in
     fork_server_channel g rnds ch (evs @ [Kill]) = Inr (Ended, th, ch\<lparr>chan_kill := True\<rparr>, out)
     \<and> fork_server_channel g rnds ch (evs @ [Retransmit m, Quiet]) = Inr (Running, th', ch\<lparr>chan_value := None\<rparr>, out @ [ms])
     \<and> segmentNum (head ms) = segmentNum (head m) \<and> content (body ms) = (segments (unat ss) d @ [[]]) ! k
     \<and> verify_msg ms = Inr True
     \<and> fork_server_channel g rnds ch (evs @ [Retransmit m, Kill]) = Inl Double_Free"
proof -
  let ?evs = "replicate (length (segments (unat ss) d) + 2) Quiet"
  let ?out = "map (\<lambda>i. segment_message (rnds i) ch d i) [0..<Suc (count ss d)]"
  let ?th = "(all_sent ch d)\<lparr>retrans_sec := delete_from_section (add_to_section create_section (word_of_nat (Suc k))) (word_of_nat (Suc k))\<rparr>"
  let ?ms = "segment_message (rnds (Suc (count ss d))) ch d k"
  have k: "k \<le> count ss d" using assms(5) by (simp add: count_def)
  have mx: "maxSize ch = ss" "unat ss < 65536" using assms(1) by (auto simp: serves_def)
  have "count ss d < 2 ^ 32" using assms(1) by (rule servesE)
  then have "unat (word_of_nat (Suc k) :: uint64) < 2 ^ 33" using k by (simp add: unat_of_nat64 del: of_nat_Suc)
  then have n: "(word_of_nat (Suc k) :: uint64) \<noteq> - 1"
    by (intro below_max) simp
  note resend = thread_resends [OF assms(1-4) k assms(6), of g rnds]
  have "fork_server_channel g rnds ch (?evs @ [Kill]) = Inr (Ended, all_sent ch d, ch\<lparr>chan_kill := True\<rparr>, ?out)"
    using thread_killed [OF assms(1-4), of g rnds] by (simp add: count_def del: upt_Suc)
  moreover have "fork_server_channel g rnds ch (?evs @ [Retransmit m, Quiet]) = Inr (Running, ?th, ch\<lparr>chan_value := None\<rparr>, ?out @ [?ms])"
    using resend [of Quiet] assms(4) by (simp add: count_def del: upt_Suc of_nat_Suc)
  moreover have "fork_server_channel g rnds ch (?evs @ [Retransmit m, Kill]) = Inl Double_Free"
    using resend [of Kill] idle_all_sent one_request(4) [OF n] assms(3) by (simp add: count_def thread_end_def free_sections_def del: upt_Suc of_nat_Suc)
  moreover have "content (body ?ms) = (segments (unat ss) d @ [[]]) ! k"
    using k by (auto simp: segment_message_facts mx nth_segment_def nth_append count_def simp del: segments_length)
  ultimately show ?thesis
    unfolding Let_def
    by (intro exI [of _ "all_sent ch d"] exI [of _ ?th] exI [of _ ?out] exI [of _ ?ms])
      (simp add: segment_message_facts mx assms(6) del: upt_Suc of_nat_Suc)
qed

theorem thread_retransmits_witness:
  "\<exists>th th' out ms. let evs = replicate (length (segments (unat (2 :: uint64)) [1, 2, 3]) + 2) Quiet in
     fork_server_channel (\<lambda>_. 0) (\<lambda>_. 7) sample_chan (evs @ [Kill]) = Inr (Ended, th, sample_chan\<lparr>chan_kill := True\<rparr>, out)
     \<and> fork_server_channel (\<lambda>_. 0) (\<lambda>_. 7) sample_chan (evs @ [Retransmit (segment_message 9 sample_chan [1, 2, 3] 1), Quiet])
         = Inr (Running, th', sample_chan\<lparr>chan_value := None\<rparr>, out @ [ms])
     \<and> segmentNum (head ms) = segmentNum (head (segment_message 9 sample_chan [1, 2, 3] 1))
     \<and> content (body ms) = (segments (unat (2 :: uint64)) [1, 2, 3] @ [[]]) ! 1 \<and> verify_msg ms = Inr True
     \<and> fork_server_channel (\<lambda>_. 0) (\<lambda>_. 7) sample_chan (evs @ [Retransmit (segment_message 9 sample_chan [1, 2, 3] 1), Kill])
         = Inl Double_Free"
proof (rule thread_retransmits)
  show "segmentNum (head (segment_message 9 sample_chan [1, 2, 3] 1)) = word_of_nat (Suc 1)"
    by (simp add: segment_message_def formed_msg_def form_head_def)
qed (simp_all add: sample_chan_serves)

end
