(* ===== verification/Chan_Life.thy ===== *)
theory Chan_Life
  imports Server_Thread_Correct Codec
begin

text \<open>
  The life of a channel, access by access: the thread waits until its channel is ready or closed, runs its loop, takes requests,
  and leaves (\<^verbatim>\<open>server_help.c\<close> lines 48 to 87), while the main loop makes the channel ready, hands requests over, closes it,
  waits for the thread and releases the channel (\<^verbatim>\<open>drv/server.c\<close> lines 226, 238 and 239, \<^verbatim>\<open>end_channel\<close> of \<^verbatim>\<open>conn_chan.c\<close>). A schedule is any
  sequence of turns of the two; a turn is one access to the shared fields. The work of an iteration (lines 61 to 81)
  only reads fields that do not change any more and is one turn, \<open>thread_work\<close> of \<open>Server_Thread\<close>; so is the release of the sections at the end, which
  are the thread's own. The channel is \<open>None\<close> once it has been released, and a message is a block with an address.
\<close>

datatype life_pc =
    Wait_Ready | Wait_Kill | Loop_Head | Look_Data | Take_Number | Free_Request | Clear_Data | Do_Work
  | End_Data | End_Free | End_Sections | Thread_Done

datatype main_pc = Idle | Flagging | Joining | Freeing | Gone

datatype main_cmd = Set_Ready | Request msg_t | Close

datatype turn = Thread_Turn | Main_Turn main_cmd

record life =
  l_ch :: "channel_t option"
  l_addr :: "nat option"
  l_live :: "nat set"
  l_fresh :: nat
  l_thread :: thread_t
  l_sent :: "msg_t list"
  l_pc :: life_pc
  l_main :: main_pc

definition life_init :: "channel_t \<Rightarrow> life" where
  "life_init ch = \<lparr>l_ch = Some ch, l_addr = None, l_live = {}, l_fresh = 0, l_thread = thread_init, l_sent = [],
     l_pc = Wait_Ready, l_main = Idle\<rparr>"

subsection \<open>Turns\<close>

definition with_chan :: "life \<Rightarrow> (channel_t \<Rightarrow> life c_result) \<Rightarrow> life c_result" where
  "with_chan s f = (case l_ch s of None \<Rightarrow> Inl Use_After_Free | Some ch \<Rightarrow> f ch)"

definition with_request :: "life \<Rightarrow> (nat \<Rightarrow> life c_result) \<Rightarrow> life c_result" where
  "with_request s f =
     (case l_addr s of None \<Rightarrow> Inl Null_Deref | Some a \<Rightarrow> if a \<in> l_live s then f a else Inl Use_After_Free)"

definition free_request :: "life_pc \<Rightarrow> life \<Rightarrow> life c_result" where
  "free_request pc s = with_request s (\<lambda>a. Inr (s\<lparr>l_live := l_live s - {a}, l_pc := pc\<rparr>))"

definition thread_turn :: "garbage \<Rightarrow> (nat \<Rightarrow> uint64) \<Rightarrow> life \<Rightarrow> life c_result" where
  "thread_turn g rnds s =
     (if l_pc s = Thread_Done then Inr s
      else if l_pc s = End_Sections then c_bind (free_sections (l_thread s)) (\<lambda>_. Inr (s\<lparr>l_pc := Thread_Done\<rparr>))
      else with_chan s (\<lambda>ch.
        case l_pc s of
          Wait_Ready \<Rightarrow> Inr (s\<lparr>l_pc := if chan_ready ch then Loop_Head else Wait_Kill\<rparr>)
        | Wait_Kill \<Rightarrow> Inr (s\<lparr>l_pc := if chan_kill ch then Loop_Head else Wait_Ready\<rparr>)
        | Loop_Head \<Rightarrow> Inr (s\<lparr>l_pc := if chan_kill ch then End_Data else Look_Data\<rparr>)
        | Look_Data \<Rightarrow> Inr (s\<lparr>l_pc := if chan_data ch then Take_Number else Do_Work\<rparr>)
        | Take_Number \<Rightarrow>
            with_request s (\<lambda>a.
              case chan_value ch of
                None \<Rightarrow> Inl Null_Deref
              | Some m \<Rightarrow>
                  Inr (s\<lparr>l_thread := (l_thread s)\<lparr>retrans_sec := add_to_section (retrans_sec (l_thread s)) (segmentNum (head m))\<rparr>,
                         l_pc := Free_Request\<rparr>))
        | Free_Request \<Rightarrow> free_request Clear_Data s
        | Clear_Data \<Rightarrow> Inr (s\<lparr>l_ch := Some (ch\<lparr>chan_data := False\<rparr>), l_pc := Do_Work\<rparr>)
        | Do_Work \<Rightarrow>
            c_bind (thread_work g (rnds (length (l_sent s))) (l_thread s) ch) (\<lambda>(th, ms).
            Inr (s\<lparr>l_thread := th, l_sent := l_sent s @ ms, l_pc := Loop_Head\<rparr>))
        | End_Data \<Rightarrow> Inr (s\<lparr>l_pc := if chan_data ch then End_Free else End_Sections\<rparr>)
        | End_Free \<Rightarrow> free_request End_Sections s
        | _ \<Rightarrow> Inr s))"

text \<open>
  The main loop is sequential: a command is read only when the last one is complete. \<^verbatim>\<open>pthread_join\<close> leaves the main loop where it is
  until the thread has ended. After the release the channel is in no table any more.
\<close>

definition main_turn :: "main_cmd \<Rightarrow> life \<Rightarrow> life c_result" where
  "main_turn cmd s =
     (case l_main s of
        Idle \<Rightarrow>
          with_chan s (\<lambda>ch.
            case cmd of
              Set_Ready \<Rightarrow> Inr (s\<lparr>l_ch := Some (ch\<lparr>chan_ready := True\<rparr>)\<rparr>)
            | Request m \<Rightarrow>
                Inr (s\<lparr>l_ch := Some (ch\<lparr>chan_value := Some m\<rparr>), l_addr := Some (l_fresh s), l_live := insert (l_fresh s) (l_live s),
                       l_fresh := Suc (l_fresh s), l_main := Flagging\<rparr>)
            | Close \<Rightarrow> Inr (s\<lparr>l_ch := Some (ch\<lparr>chan_kill := True\<rparr>), l_main := Joining\<rparr>))
      | Flagging \<Rightarrow> with_chan s (\<lambda>ch. Inr (s\<lparr>l_ch := Some (ch\<lparr>chan_data := True\<rparr>), l_main := Idle\<rparr>))
      | Joining \<Rightarrow> Inr (if l_pc s = Thread_Done then s\<lparr>l_main := Freeing\<rparr> else s)
      | Freeing \<Rightarrow> (if l_ch s = None then Inl Double_Free else Inr (s\<lparr>l_ch := None, l_main := Gone\<rparr>))
      | Gone \<Rightarrow> Inr s)"

fun take_turn :: "garbage \<Rightarrow> (nat \<Rightarrow> uint64) \<Rightarrow> turn \<Rightarrow> life \<Rightarrow> life c_result" where
  "take_turn g rnds Thread_Turn s = thread_turn g rnds s"
| "take_turn g rnds (Main_Turn cmd) s = main_turn cmd s"

fun run_turns :: "garbage \<Rightarrow> (nat \<Rightarrow> uint64) \<Rightarrow> turn list \<Rightarrow> life \<Rightarrow> life c_result" where
  "run_turns g rnds [] s = Inr s"
| "run_turns g rnds (x # xs) s = c_bind (take_turn g rnds x s) (run_turns g rnds xs)"

lemma run_turns_append: "run_turns g rnds (xs @ ys) s = c_bind (run_turns g rnds xs s) (run_turns g rnds ys)"
  by (induction xs arbitrary: s) (auto simp: c_bind_def split: sum.splits)

lemmas turn_defs = thread_turn_def main_turn_def with_chan_def with_request_def free_request_def

lemma thread_turn_main: "thread_turn g rnds s = Inr s' \<Longrightarrow> l_main s' = l_main s"
  by (cases "l_pc s") (auto simp: turn_defs c_result_iff split: option.splits if_splits)

subsection \<open>Any schedule: the channel outlives its thread\<close>

text \<open>
  One turn as a relation, and what every turn keeps. The main loop waits only for a channel that it has closed, and releases it only
  after the thread has ended.
\<close>

definition turn_step :: "life \<Rightarrow> life \<Rightarrow> bool" where
  "turn_step s s' \<longleftrightarrow> (\<exists>g rnds x. take_turn g rnds x s = Inr s')"

definition owned :: "life \<Rightarrow> bool" where
  "owned s \<longleftrightarrow> (l_ch s = None \<longleftrightarrow> l_main s = Gone) \<and> (l_main s \<in> {Freeing, Gone} \<longrightarrow> l_pc s = Thread_Done)
     \<and> (\<forall>ch. l_ch s = Some ch \<longrightarrow> (chan_kill ch \<longleftrightarrow> l_main s \<in> {Joining, Freeing}))
     \<and> (l_pc s \<in> {End_Data, End_Free, End_Sections, Thread_Done} \<longrightarrow> l_main s \<in> {Joining, Freeing, Gone})"

lemma thread_turn_owned:
  assumes "owned s" "thread_turn g rnds s = Inr s'"
  shows "owned s'"
proof (cases "l_ch s")
  case None
  then show ?thesis using assms by (auto simp: turn_defs c_result_iff owned_def)
next
  case (Some ch)
  then show ?thesis
    using assms by (cases "l_pc s") (auto simp: turn_defs c_result_iff owned_def split: option.splits if_splits)
qed

lemma main_turn_owned:
  assumes "owned s" "main_turn cmd s = Inr s'"
  shows "owned s'"
proof (cases "l_ch s")
  case None
  then show ?thesis using assms by (auto simp: turn_defs c_result_iff owned_def split: main_pc.splits)
next
  case (Some ch)
  then show ?thesis
    using assms by (cases "l_main s"; cases cmd) (auto simp: turn_defs c_result_iff owned_def split: if_splits)
qed

interpretation life: preserved turn_step owned
proof
  fix s s' assume "owned s" "turn_step s s'"
  then obtain g rnds x where "take_turn g rnds x s = Inr s'" by (auto simp: turn_step_def)
  with \<open>owned s\<close> show "owned s'"
    by (cases x) (simp_all only: take_turn.simps thread_turn_owned [OF \<open>owned s\<close>] main_turn_owned [OF \<open>owned s\<close>])
qed

lemma run_turns_steps: "run_turns g rnds xs s = Inr s' \<Longrightarrow> turn_step\<^sup>*\<^sup>* s s'"
proof (induction xs arbitrary: s)
  case (Cons x xs)
  then obtain s1 where "take_turn g rnds x s = Inr s1" "run_turns g rnds xs s1 = Inr s'" by (auto simp: c_result_iff)
  then have "turn_step s s1" and "turn_step\<^sup>*\<^sup>* s1 s'" using Cons.IH unfolding turn_step_def by blast+
  then show ?case by (rule converse_rtranclp_into_rtranclp)
qed simp

lemma owned_init: "\<not> chan_kill ch \<Longrightarrow> owned (life_init ch)"
  by (simp add: owned_def life_init_def)

lemma run_owned: "run_turns g rnds xs s = Inr s' \<Longrightarrow> owned s \<Longrightarrow> owned s'"
  using life.run_inv [OF run_turns_steps] by blast

text \<open>The main loop starts to wait for the thread only on a command.\<close>

lemma opened:
  "run_turns g rnds xs s = Inr s' \<Longrightarrow> l_main s \<in> {Idle, Flagging} \<Longrightarrow> Main_Turn Close \<notin> set xs \<Longrightarrow> l_main s' \<in> {Idle, Flagging}"
proof (induction xs arbitrary: s)
  case (Cons x xs)
  then obtain s1 where s1: "take_turn g rnds x s = Inr s1" "run_turns g rnds xs s1 = Inr s'" by (auto simp: c_result_iff)
  have "l_main s1 \<in> {Idle, Flagging}"
  proof (cases x)
    case Thread_Turn
    then show ?thesis using s1(1) Cons.prems(2) thread_turn_main [of g rnds s s1] by simp
  next
    case (Main_Turn cmd)
    then show ?thesis
      using s1(1) Cons.prems(2,3) by (cases cmd; cases "l_ch s") (auto simp: main_turn_def with_chan_def)
  qed
  then show ?case using Cons.IH [OF s1(2)] Cons.prems(3) by simp
qed simp

text \<open>In an owned state no turn uses the channel after its release or releases it twice.\<close>

definition touches_chan :: "turn \<Rightarrow> life \<Rightarrow> bool" where
  "touches_chan x s \<longleftrightarrow> (case x of Thread_Turn \<Rightarrow> l_pc s \<noteq> Thread_Done | Main_Turn cmd \<Rightarrow> l_main s \<in> {Idle, Flagging, Freeing})"

lemma owned_touches: "owned s \<Longrightarrow> touches_chan x s \<Longrightarrow> \<exists>ch. l_ch s = Some ch"
  by (cases "l_ch s") (auto simp: owned_def touches_chan_def split: turn.splits)

subsection \<open>Closing\<close>

text \<open>How many more turns the thread of a closed channel needs at most.\<close>

fun turns_left :: "life_pc \<Rightarrow> nat" where
  "turns_left Thread_Done = 0"
| "turns_left End_Sections = 1"
| "turns_left End_Free = 2"
| "turns_left End_Data = 3"
| "turns_left Loop_Head = 4"
| "turns_left Wait_Kill = 5"
| "turns_left Do_Work = 5"
| "turns_left Wait_Ready = 6"
| "turns_left Clear_Data = 6"
| "turns_left Free_Request = 7"
| "turns_left Take_Number = 8"
| "turns_left Look_Data = 9"

lemma turns_left_le: "turns_left pc \<le> 9"
  by (cases pc) simp_all

definition closing :: "life \<Rightarrow> bool" where
  "closing s \<longleftrightarrow> l_main s \<in> {Joining, Freeing, Gone}"

fun main_left :: "main_pc \<Rightarrow> nat" where
  "main_left Joining = 2"
| "main_left Freeing = 1"
| "main_left _ = 0"

definition main_turns :: "turn list \<Rightarrow> nat" where
  "main_turns xs = length (filter (\<lambda>x. x \<noteq> Thread_Turn) xs)"

lemma thread_turn_closer:
  assumes "owned s" "closing s" "thread_turn g rnds s = Inr s'"
  shows "turns_left (l_pc s') \<le> turns_left (l_pc s) - 1"
proof (cases "l_ch s")
  case None
  then show ?thesis using assms by (auto simp: owned_def thread_turn_def)
next
  case (Some ch)
  then show ?thesis
    using assms by (cases "l_pc s") (auto simp: turn_defs owned_def closing_def c_result_iff split: option.splits if_splits)
qed

lemma main_turn_closing:
  "closing s \<Longrightarrow> main_turn cmd s = Inr s' \<Longrightarrow> l_pc s' = l_pc s \<and> closing s'
     \<and> (l_pc s = Thread_Done \<longrightarrow> main_left (l_main s') \<le> main_left (l_main s) - 1)"
  by (cases "l_main s") (auto simp: main_turn_def closing_def split: if_splits)

lemma turn_closing: "closing s \<Longrightarrow> take_turn g rnds x s = Inr s' \<Longrightarrow> closing s'"
  using main_turn_closing [of s] thread_turn_main [of g rnds s] by (cases x) (auto simp: closing_def)

lemma run_closing:
  "owned s \<Longrightarrow> closing s \<Longrightarrow> run_turns g rnds xs s = Inr s' \<Longrightarrow>
   closing s' \<and> turns_left (l_pc s') \<le> turns_left (l_pc s) - count_list xs Thread_Turn"
proof (induction xs arbitrary: s)
  case (Cons x xs)
  then obtain s1 where s1: "take_turn g rnds x s = Inr s1" "run_turns g rnds xs s1 = Inr s'" by (auto simp: c_result_iff)
  then have "owned s1" using Cons.prems(1) life.step_inv [of s s1] unfolding turn_step_def by blast
  then have IH: "closing s'" "turns_left (l_pc s') \<le> turns_left (l_pc s1) - count_list xs Thread_Turn"
    using Cons.IH [OF _ turn_closing [OF Cons.prems(2) s1(1)] s1(2)] by auto
  have "turns_left (l_pc s1) \<le> turns_left (l_pc s) - (if x = Thread_Turn then 1 else 0)"
    using s1(1) thread_turn_closer [OF Cons.prems(1,2)] main_turn_closing [OF Cons.prems(2)] by (cases x) auto
  with IH show ?case by auto
qed simp

lemma run_joined:
  "closing s \<Longrightarrow> l_pc s = Thread_Done \<Longrightarrow> run_turns g rnds xs s = Inr s' \<Longrightarrow>
   closing s' \<and> main_left (l_main s') \<le> main_left (l_main s) - main_turns xs"
proof (induction xs arbitrary: s)
  case (Cons x xs)
  then obtain s1 where s1: "take_turn g rnds x s = Inr s1" "run_turns g rnds xs s1 = Inr s'" by (auto simp: c_result_iff)
  then have "l_pc s1 = Thread_Done \<and> main_left (l_main s1) \<le> main_left (l_main s) - (if x = Thread_Turn then 0 else 1)"
    using main_turn_closing [OF Cons.prems(1)] Cons.prems(2) by (cases x) (auto simp: thread_turn_def)
  then show ?case
    using Cons.IH [OF turn_closing [OF Cons.prems(1) s1(1)] _ s1(2)] by (auto simp: main_turns_def)
qed (simp add: main_turns_def)

lemma run_closes:
  assumes "owned s" "closing s" "9 \<le> count_list xs Thread_Turn" "2 \<le> main_turns ys" "run_turns g rnds (xs @ ys) s = Inr s'"
  shows "l_main s' = Gone"
proof -
  obtain s1 where s1: "run_turns g rnds xs s = Inr s1" "run_turns g rnds ys s1 = Inr s'"
    using assms(5) by (auto simp: run_turns_append c_result_iff)
  have c: "closing s1" and "turns_left (l_pc s1) = 0"
    using run_closing [OF assms(1,2) s1(1)] turns_left_le [of "l_pc s"] assms(3) by auto
  then have "l_pc s1 = Thread_Done" by (cases "l_pc s1") auto
  moreover have "main_left (l_main s1) \<le> 2" by (cases "l_main s1") auto
  ultimately have "closing s'" "main_left (l_main s') = 0"
    using run_joined [OF c _ s1(2)] assms(4) by auto
  then show ?thesis by (cases "l_main s'") (auto simp: closing_def)
qed

subsection \<open>A channel without requests\<close>

text \<open>
  While no request is made, the thread of a channel on a readable file sends segments or has sent them all, and holds no message; then no turn fails.
\<close>

definition sending :: "uint64 \<Rightarrow> bytes \<Rightarrow> thread_t \<Rightarrow> bool" where
  "sending ss d th \<longleftrightarrow> (\<exists>k \<le> Suc (count ss d). send_sec th = sent_upto k) \<and> retrans_sec th = create_section"

lemma sending_work:
  assumes "serves ch ss d" "\<not> chan_data ch" "sending ss d th"
  shows "\<exists>th' ms. thread_work g rnd th ch = Inr (th', ms) \<and> sending ss d th'"
proof -
  obtain k where k: "k \<le> Suc (count ss d)" "send_sec th = sent_upto k" "retrans_sec th = create_section"
    using assms(3) by (auto simp: sending_def)
  consider "finished_ft th" | "\<not> finished_ft th" "k \<le> count ss d" | "\<not> finished_ft th" "k = Suc (count ss d)"
    using k(1) by linarith
  then have "\<exists>th' ms. thread_step g rnd th ch = Inr (th', ch, ms) \<and> sending ss d th'"
  proof cases
    case 1
    then show ?thesis using step_idle [OF assms(1,2), of th g rnd] assms(3) k(3) by simp
  next
    case 2
    then show ?thesis using step_send [OF assms(1,2) 2(1) k(2), of g rnd] k(3) by (force simp: sending_def)
  next
    case 3
    then show ?thesis using step_finish [OF assms(1,2), of th g rnd] assms(3) k by (simp add: sending_def)
  qed
  then show ?thesis using assms(2) by (auto simp: thread_step_def relay_def c_result_iff)
qed

lemma sending_free: "sending ss d th \<Longrightarrow> free_sections th = Inr ()"
  by (auto simp: sending_def free_sections_def free_section_def sent_upto_def create_section_def)

definition unasked :: "uint64 \<Rightarrow> bytes \<Rightarrow> life \<Rightarrow> bool" where
  "unasked ss d s \<longleftrightarrow> owned s \<and> (\<forall>ch. l_ch s = Some ch \<longrightarrow> serves ch ss d \<and> \<not> chan_data ch) \<and> sending ss d (l_thread s)
     \<and> l_pc s \<notin> {Take_Number, Free_Request, Clear_Data, End_Free} \<and> l_main s \<noteq> Flagging \<and> l_live s = {}"

lemma thread_unasked:
  assumes "unasked ss d s"
  shows "\<exists>s'. thread_turn g rnds s = Inr s' \<and> unasked ss d s'"
proof (cases "l_ch s")
  case None
  then show ?thesis using assms by (auto simp: unasked_def owned_def thread_turn_def)
next
  case (Some ch)
  then have "\<exists>th ms. thread_work g (rnds (length (l_sent s))) (l_thread s) ch = Inr (th, ms) \<and> sending ss d th"
    using assms by (intro sending_work) (simp_all add: unasked_def)
  then have "\<exists>s'. thread_turn g rnds s = Inr s'"
    using assms Some sending_free [of ss d "l_thread s"] by (cases "l_pc s") (auto simp: turn_defs unasked_def)
  then obtain s' where s': "thread_turn g rnds s = Inr s'" by blast
  moreover have "unasked ss d s'"
    using s' assms Some thread_turn_owned [OF _ s'] \<open>\<exists>th ms. _ th ms\<close>
    by (cases "l_pc s") (auto simp: turn_defs unasked_def c_result_iff split: if_splits)
  ultimately show ?thesis by blast
qed

lemma main_unasked:
  assumes "unasked ss d s" "\<not> closing s \<Longrightarrow> \<forall>m. cmd \<noteq> Request m"
  shows "\<exists>s'. main_turn cmd s = Inr s' \<and> unasked ss d s'"
proof -
  have "owned s" using assms(1) by (simp add: unasked_def)
  have "\<exists>s'. main_turn cmd s = Inr s' \<and> (owned s' \<longrightarrow> unasked ss d s')"
    using assms by (cases "l_main s"; cases cmd; cases "l_ch s") (auto simp: turn_defs unasked_def owned_def closing_def serves_def)
  then show ?thesis using main_turn_owned [OF \<open>owned s\<close>] by blast
qed

lemma run_unasked:
  "unasked ss d s \<Longrightarrow> closing s \<or> (\<forall>m. Main_Turn (Request m) \<notin> set xs) \<Longrightarrow> \<exists>s'. run_turns g rnds xs s = Inr s' \<and> unasked ss d s'"
proof (induction xs arbitrary: s)
  case (Cons x xs)
  have "\<exists>s1. take_turn g rnds x s = Inr s1 \<and> unasked ss d s1"
  proof (cases x)
    case (Main_Turn cmd)
    then have "\<not> closing s \<Longrightarrow> \<forall>m. cmd \<noteq> Request m" using Cons.prems(2) by auto
    from main_unasked [OF Cons.prems(1) this] Main_Turn show ?thesis by simp
  qed (simp add: thread_unasked [OF Cons.prems(1)])
  then obtain s1 where s1: "take_turn g rnds x s = Inr s1" "unasked ss d s1" by blast
  have "closing s1 \<or> (\<forall>m. Main_Turn (Request m) \<notin> set xs)"
    using Cons.prems(2) turn_closing [OF _ s1(1)] by auto
  from Cons.IH [OF s1(2) this] s1(1) show ?case by simp
qed simp

lemma unasked_init:
  assumes "serves ch ss d" "\<not> chan_data ch" "\<not> chan_kill ch"
  shows "unasked ss d (life_init ch)"
  using assms owned_init [OF assms(3)] by (auto simp: unasked_def life_init_def sending_def thread_init_sent)

subsection \<open>Properties\<close>

text \<open>
  C14. The channel outlives its thread: in every schedule of main loop and thread, with any commands, no turn uses the channel after it was
  released or releases it twice, and it is released only after it was closed and its thread has ended. No lock is needed for this,
  only that \<^verbatim>\<open>end_channel\<close> waits for the thread.
\<close>

theorem channel_outlives_thread:
  assumes "\<not> chan_kill ch" "run_turns g rnds xs (life_init ch) = Inr s"
  shows "(touches_chan x s \<longrightarrow> (\<exists>ch'. l_ch s = Some ch')) \<and> (l_ch s = None \<longrightarrow> l_pc s = Thread_Done \<and> Main_Turn Close \<in> set xs)"
proof -
  have o: "owned s" by (rule run_owned [OF assms(2) owned_init [OF assms(1)]])
  have "\<not> closing s" if "Main_Turn Close \<notin> set xs"
    using opened [OF assms(2) _ that] by (auto simp: life_init_def closing_def)
  then show ?thesis using o owned_touches [OF o, of x] by (auto simp: owned_def closing_def)
qed

text \<open>
  C15. Closing a channel does not hang: take any schedule, with any requests, up to a moment at which the main loop reads the command to close the
  channel. Within nine further turns of the thread, however interleaved, the thread has ended, and two turns later the main loop is past
  \<^verbatim>\<open>pthread_join\<close> and has released the channel, unless a turn stops the program with a memory error (a request that was handed over can
  do that: the hand-over is a race, and the set of answered requests is released twice). If no request was made and the
  channel is on a readable file, no turn fails, and no message stays allocated.
\<close>

theorem closing_completes:
  assumes "\<not> chan_kill ch" "run_turns g rnds pre (life_init ch) = Inr s" "l_main s = Idle"
    and "9 \<le> count_list xs Thread_Turn" "2 \<le> main_turns ys"
  shows "(\<forall>s'. run_turns g rnds (Main_Turn Close # xs @ ys) s = Inr s' \<longrightarrow> l_main s' = Gone \<and> l_ch s' = None \<and> l_pc s' = Thread_Done)
     \<and> (serves ch ss d \<and> \<not> chan_data ch \<and> list_all (\<lambda>x. case x of Main_Turn (Request m) \<Rightarrow> False | _ \<Rightarrow> True) pre
        \<longrightarrow> (\<exists>s'. run_turns g rnds (Main_Turn Close # xs @ ys) s = Inr s' \<and> l_live s' = {}))"
proof -
  have o: "owned s" by (rule run_owned [OF assms(2) owned_init [OF assms(1)]])
  then obtain s1 where s1: "main_turn Close s = Inr s1" "closing s1"
    using assms(3) by (cases "l_ch s") (auto simp: main_turn_def with_chan_def closing_def owned_def)
  have o1: "owned s1" by (rule main_turn_owned [OF o s1(1)])
  have "l_main s' = Gone \<and> l_ch s' = None \<and> l_pc s' = Thread_Done" if "run_turns g rnds (xs @ ys) s1 = Inr s'" for s'
    using run_closes [OF o1 s1(2) assms(4,5) that] run_owned [OF that o1] by (auto simp: owned_def)
  moreover have "\<exists>s'. run_turns g rnds (xs @ ys) s1 = Inr s' \<and> l_live s' = {}"
    if "serves ch ss d" "\<not> chan_data ch" "list_all (\<lambda>x. case x of Main_Turn (Request m) \<Rightarrow> False | _ \<Rightarrow> True) pre"
  proof -
    have "\<forall>m. Main_Turn (Request m) \<notin> set pre" using that(3) by (auto simp: list_all_iff)
    then have "unasked ss d s" using run_unasked [OF unasked_init [OF that(1,2) assms(1)], of pre g rnds] assms(2) by simp
    then have "unasked ss d s1" using main_unasked [of ss d s Close] s1(1) by auto
    from run_unasked [OF this, of "xs @ ys" g rnds] s1(2) show ?thesis by (auto simp: unasked_def)
  qed
  ultimately show ?thesis using s1(1) by auto
qed

text \<open>
  A schedule of a whole life: the channel becomes ready, a request is made and taken, a segment is sent, and another request is made just
  before the channel is closed.
\<close>

definition sample_turns :: "turn list" where
  "sample_turns = [Main_Turn Set_Ready, Thread_Turn, Main_Turn (Request sample_msg), Thread_Turn, Main_Turn Close] @ replicate 5 Thread_Turn
     @ [Main_Turn (Request sample_msg), Main_Turn Close]"

lemma sample_work:
  assumes "chan_handle ch = chan_handle sample_chan" "maxSize ch = 2" "\<not> chan_data ch"
  shows "thread_work g rnd \<lparr>send_sec = sent_upto 0, retrans_sec = r, finished_ft = False\<rparr> ch =
     Inr (\<lparr>send_sec = sent_upto 1, retrans_sec = r, finished_ft = False\<rparr>, [segment_message rnd ch [1, 2, 3] 0])"
proof -
  have "serves ch 2 [1, 2, 3]" using sample_chan_serves(1) assms(1,2) by (simp add: serves_def)
  from step_send [OF this assms(3), of "\<lparr>send_sec = sent_upto 0, retrans_sec = r, finished_ft = False\<rparr>" 0 g rnd] assms(3)
  show ?thesis by (auto simp: thread_step_def relay_def c_result_iff)
qed

lemma sample_free: "free_sections \<lparr>send_sec = sent_upto k, retrans_sec = add_to_section create_section n, finished_ft = b\<rparr> = Inr ()"
  by (simp add: free_sections_def free_section_def sent_upto_def add_to_section_def create_section_def add_loop.simps)

lemma sample_chan_size: "maxSize sample_chan = 2"
  by (simp add: sample_chan_def)

theorem channel_outlives_thread_witness:
  "\<exists>s. run_turns (\<lambda>_. 0) (\<lambda>_. 7) (sample_turns @ Main_Turn Close # replicate 4 Thread_Turn @ [Main_Turn Set_Ready, Main_Turn Set_Ready])
       (life_init sample_chan) = Inr s
     \<and> length (l_sent s) = 1 \<and> l_ch s = None \<and> l_pc s = Thread_Done \<and> \<not> touches_chan Thread_Turn s"
proof -
  let ?xs = "sample_turns @ Main_Turn Close # replicate 4 Thread_Turn @ [Main_Turn Set_Ready, Main_Turn Set_Ready]"
  obtain s where s: "run_turns (\<lambda>_. 0) (\<lambda>_. 7) ?xs (life_init sample_chan) = Inr s" "l_ch s = None" "length (l_sent s) = 1"
    by (simp add: sample_turns_def life_init_def thread_init_sent turn_defs numeral_eq_Suc sample_work
        sample_chan_serves sample_chan_size sample_free)
  from channel_outlives_thread [OF _ s(1), of Thread_Turn] s sample_chan_serves(4) show ?thesis by auto
qed

text \<open>A channel that is closed after two rounds of its loop.\<close>

theorem closing_completes_witness:
  "\<exists>s s'. run_turns (\<lambda>_. 0) (\<lambda>_. 7) (replicate 7 Thread_Turn) (life_init sample_chan) = Inr s
     \<and> run_turns (\<lambda>_. 0) (\<lambda>_. 7) (Main_Turn Close # replicate 9 Thread_Turn @ [Main_Turn Set_Ready, Main_Turn Set_Ready]) s = Inr s'
     \<and> l_main s' = Gone \<and> l_ch s' = None \<and> l_pc s' = Thread_Done \<and> l_live s' = {}"
proof -
  let ?run = "run_turns (\<lambda>_. 0) (\<lambda>_. 7)"
  obtain s where s: "?run (replicate 7 Thread_Turn) (life_init sample_chan) = Inr s"
    using run_unasked [OF unasked_init [OF sample_chan_serves(1,3,4)], of "replicate 7 Thread_Turn"] by auto
  then have "l_main s = Idle" by (auto simp: life_init_def numeral_eq_Suc c_result_iff dest!: thread_turn_main)
  from closing_completes [OF sample_chan_serves(4) s this, of "replicate 9 Thread_Turn" "[Main_Turn Set_Ready, Main_Turn Set_Ready]" 2 "[1, 2, 3]"]
    sample_chan_serves(1,3)
  obtain s' where "?run (Main_Turn Close # replicate 9 Thread_Turn @ [Main_Turn Set_Ready, Main_Turn Set_Ready]) s = Inr s'"
    "l_main s' = Gone \<and> l_ch s' = None \<and> l_pc s' = Thread_Done \<and> l_live s' = {}"
    by (auto simp: main_turns_def numeral_eq_Suc)
  with s show ?thesis by blast
qed

end
