(* ===== verification/Client_Driver.thy ===== *)
theory Client_Driver
  imports Message Section_Pieces
begin

text \<open>
  The client of \<^verbatim>\<open>src/justin-snapshot/drv/client.c\<close>. What \<^verbatim>\<open>recv_msg\<close> returns, call after call, is an argument
  (\<open>None\<close> is \<^verbatim>\<open>NULL\<close>); an operation that calls it again when the list is used up is blocked. The messages
  given to \<^verbatim>\<open>send_msg\<close> are part of the result. \<open>rnds\<close> are the draws of \<^verbatim>\<open>form_msg\<close>, by number of messages sent.
\<close>

definition MAX_SIZE :: uint32 where
  "MAX_SIZE = 8000"

type_synonym inbox = "msg_t option list"

datatype 'a outcome = Blocked | Returned 'a

definition send_control ::
    "(nat \<Rightarrow> uint64) \<Rightarrow> msg_t list \<Rightarrow> uint64 \<Rightarrow> uint64 \<Rightarrow> DATA_TYPE \<Rightarrow> uint64 \<Rightarrow> bytes \<Rightarrow> uint32 \<Rightarrow> msg_t list c_result" where
  "send_control rnds sent selfID otherID dt num c clen =
     c_bind (form_msg (rnds (length sent)) selfID otherID (chan_code CONTROL) (data_code dt) num c clen) (\<lambda>m.
     Inr (sent @ [m]))"

subsection \<open>Opening a channel\<close>

text \<open>
  The loop of \<^verbatim>\<open>establish_channel\<close> and what follows it. Verifying a null message dereferences it. After the
  loop the number of segments is read from the request, which has been freed: that is undefined, and \<open>stale\<close> is what the
  read does (\<open>None\<close> stops the program, \<open>Some v\<close> finds the value \<open>v\<close>). The result is the number of segments, the new
  number of the other side and the messages not yet received.
\<close>

fun establish_loop ::
    "uint64 option \<Rightarrow> (nat \<Rightarrow> uint64) \<Rightarrow> uint64 \<Rightarrow> uint64 \<Rightarrow> uint32 \<Rightarrow> bytes \<Rightarrow> uint32 \<Rightarrow> inbox \<Rightarrow> msg_t list
     \<Rightarrow> (msg_t list \<times> (uint64 \<times> uint64 \<times> inbox) outcome) c_result" where
  "establish_loop stale rnds selfID otherID maxSize file fileLength [] sent = Inr (sent, Blocked)"
| "establish_loop stale rnds selfID otherID maxSize file fileLength (r # rs) sent =
     (case r of
        None \<Rightarrow> Inl Null_Deref
      | Some recv \<Rightarrow>
          c_bind (verify_msg recv) (\<lambda>ok.
          if ok then
            (case stale of
               None \<Rightarrow> Inl Use_After_Free
             | Some v \<Rightarrow> Inr (sent, Returned (if sendID (head recv) = 0 then 0 else v, sendID (head recv), rs)))
          else c_bind (send_control rnds sent selfID otherID RTS (ucast maxSize) file fileLength) (\<lambda>sent.
               establish_loop stale rnds selfID otherID maxSize file fileLength rs sent)))"

definition establish_channel ::
    "uint64 option \<Rightarrow> (nat \<Rightarrow> uint64) \<Rightarrow> uint64 \<Rightarrow> uint64 \<Rightarrow> uint32 \<Rightarrow> bytes \<Rightarrow> uint32 \<Rightarrow> inbox \<Rightarrow> msg_t list
     \<Rightarrow> (msg_t list \<times> (uint64 \<times> uint64 \<times> inbox) outcome) c_result" where
  "establish_channel stale rnds selfID otherID maxSize file fileLength rs sent =
     c_bind (send_control rnds sent selfID otherID SYN (ucast maxSize) file fileLength) (\<lambda>sent.
     establish_loop stale rnds selfID otherID maxSize file fileLength rs sent)"

definition ready_channel ::
    "(nat \<Rightarrow> uint64) \<Rightarrow> uint64 \<Rightarrow> uint64 \<Rightarrow> uint32 \<Rightarrow> bytes \<Rightarrow> uint32 \<Rightarrow> msg_t list \<Rightarrow> msg_t list c_result" where
  "ready_channel rnds selfID otherID maxSize file fileLength sent =
     send_control rnds sent selfID otherID SYN (ucast maxSize) file fileLength"

subsection \<open>The output file\<close>

text \<open>
  The bytes of the file and the position. Writing behind the end fills the gap with zeros. \<^verbatim>\<open>fseek\<close> refuses a negative
  offset and leaves the position.
\<close>

record out_file =
  fbytes :: bytes
  fpos :: nat

definition fopen_wb :: "bool \<Rightarrow> out_file option" where
  "fopen_wb opens = (if opens then Some \<lparr>fbytes = [], fpos = 0\<rparr> else None)"

definition fwrite_at :: "bytes \<Rightarrow> out_file \<Rightarrow> out_file" where
  "fwrite_at d f =
     (if d = [] then f
      else (let b = fbytes f @ replicate (fpos f - length (fbytes f)) 0 in
        \<lparr>fbytes = take (fpos f) b @ d @ drop (fpos f + length d) b, fpos = fpos f + length d\<rparr>))"

definition fseek_set :: "uint32 \<Rightarrow> out_file \<Rightarrow> out_file" where
  "fseek_set off f = (if off <s 0 then f else f\<lparr>fpos := unat off\<rparr>)"

definition fwrite_msg :: "msg_t \<Rightarrow> out_file option \<Rightarrow> out_file option c_result" where
  "fwrite_msg pck fhandle =
     (case fhandle of
        None \<Rightarrow> Inl Null_Deref
      | Some f \<Rightarrow>
          c_bind (mem_read 0 (unat (contentLength (head pck))) (content (body pck))) (\<lambda>d.
          Inr (Some (fwrite_at d f))))"

definition written :: "out_file option \<Rightarrow> bytes" where
  "written fhandle = (case fhandle of None \<Rightarrow> [] | Some f \<Rightarrow> fbytes f)"

subsection \<open>Receiving a file\<close>

text \<open>The first loop of \<^verbatim>\<open>gather_file\<close>. The packet counter wraps; the flag is false when a null packet ended it.\<close>

fun gather_packets ::
    "uint64 \<Rightarrow> uint64 \<Rightarrow> inbox \<Rightarrow> out_file option \<Rightarrow> section_t
     \<Rightarrow> (bool \<times> out_file option \<times> section_t \<times> inbox) outcome c_result" where
  "gather_packets numfilepcks numpcks [] fhandle retrans_sec =
     Inr (if numpcks \<le> numfilepcks then Blocked else Returned (True, fhandle, retrans_sec, []))"
| "gather_packets numfilepcks numpcks (r # rs) fhandle retrans_sec =
     (if numpcks \<le> numfilepcks then
        (case r of
           None \<Rightarrow> Inr (Returned (False, fhandle, retrans_sec, rs))
         | Some pck \<Rightarrow>
             c_bind (verify_msg pck) (\<lambda>ok.
             if \<not> ok then gather_packets numfilepcks (numpcks + 1) rs fhandle (add_to_section retrans_sec (numpcks + 1))
             else c_bind (fwrite_msg pck fhandle) (\<lambda>fhandle.
                  gather_packets numfilepcks (numpcks + 1) rs fhandle retrans_sec)))
      else Inr (Returned (True, fhandle, retrans_sec, r # rs)))"

text \<open>Putting a packet that was sent again into its place (lines 88 to 95).\<close>

definition place_packet :: "uint64 \<Rightarrow> uint64 \<Rightarrow> msg_t \<Rightarrow> out_file option \<Rightarrow> section_t \<Rightarrow> (out_file option \<times> section_t) c_result" where
  "place_packet maxSize numfilepcks pck fhandle retrans_sec =
     (let low = first_low_in_section retrans_sec in
      c_bind (if low < numfilepcks
              then (case fhandle of
                      None \<Rightarrow> Inl Null_Deref
                    | Some f \<Rightarrow> fwrite_msg pck (Some (fseek_set (ucast ((low - 1) * maxSize)) f)))
              else Inr fhandle) (\<lambda>fhandle.
      Inr (fhandle, delete_from_section retrans_sec low)))"

text \<open>The second loop: asking for the damaged packets again. The result is the returned value, the closed file and the messages not yet received.\<close>

fun gather_again ::
    "(nat \<Rightarrow> uint64) \<Rightarrow> uint64 \<Rightarrow> uint64 \<Rightarrow> uint64 \<Rightarrow> uint64 \<Rightarrow> inbox \<Rightarrow> out_file option \<Rightarrow> section_t \<Rightarrow> msg_t list
     \<Rightarrow> (msg_t list \<times> (bool \<times> bytes \<times> inbox) outcome) c_result" where
  "gather_again rnds selfID otherID maxSize numfilepcks [] fhandle retrans_sec sent =
     (if get_piece_in_section retrans_sec 0 \<noteq> None then
        c_bind (send_control rnds sent selfID otherID RTS (first_low_in_section retrans_sec) [] 0) (\<lambda>sent. Inr (sent, Blocked))
      else (case fhandle of None \<Rightarrow> Inl Null_Deref | Some f \<Rightarrow> Inr (sent, Returned (True, fbytes f, []))))"
| "gather_again rnds selfID otherID maxSize numfilepcks (r # rs) fhandle retrans_sec sent =
     (if get_piece_in_section retrans_sec 0 \<noteq> None then
        c_bind (send_control rnds sent selfID otherID RTS (first_low_in_section retrans_sec) [] 0) (\<lambda>sent.
        (case r of
           None \<Rightarrow> Inr (sent, Returned (False, written fhandle, rs))
         | Some pck \<Rightarrow>
             c_bind (verify_msg pck) (\<lambda>ok.
             if ok
             then c_bind (place_packet maxSize numfilepcks pck fhandle retrans_sec) (\<lambda>(fhandle, retrans_sec).
                  gather_again rnds selfID otherID maxSize numfilepcks rs fhandle retrans_sec sent)
             else gather_again rnds selfID otherID maxSize numfilepcks rs fhandle retrans_sec sent)))
      else (case fhandle of None \<Rightarrow> Inl Null_Deref | Some f \<Rightarrow> Inr (sent, Returned (True, fbytes f, r # rs))))"

definition gather_file ::
    "bool \<Rightarrow> (nat \<Rightarrow> uint64) \<Rightarrow> uint64 \<Rightarrow> uint64 \<Rightarrow> uint64 \<Rightarrow> uint64 \<Rightarrow> inbox \<Rightarrow> msg_t list
     \<Rightarrow> (msg_t list \<times> (bool \<times> bytes \<times> inbox) outcome) c_result" where
  "gather_file opens rnds selfID otherID maxSize numfilepcks rs sent =
     (if numfilepcks = 0 then Inr (sent, Returned (False, [], rs))
      else c_bind (gather_packets numfilepcks 0 rs (fopen_wb opens) create_section) (\<lambda>res.
        case res of
          Blocked \<Rightarrow> Inr (sent, Blocked)
        | Returned (ok, fhandle, retrans_sec, rs) \<Rightarrow>
            if ok then gather_again rnds selfID otherID maxSize numfilepcks rs fhandle retrans_sec sent
            else Inr (sent, Returned (False, written fhandle, rs))))"

subsection \<open>Closing\<close>

text \<open>\<^verbatim>\<open>cease_channel\<close> waits for one message and ignores the verdict on it.\<close>

definition cease_channel ::
    "(nat \<Rightarrow> uint64) \<Rightarrow> uint64 \<Rightarrow> uint64 \<Rightarrow> inbox \<Rightarrow> msg_t list \<Rightarrow> (msg_t list \<times> inbox outcome) c_result" where
  "cease_channel rnds selfID otherID rs sent =
     c_bind (send_control rnds sent selfID otherID FIN 0 [] 0) (\<lambda>sent.
     case rs of
       [] \<Rightarrow> Inr (sent, Blocked)
     | None # _ \<Rightarrow> Inl Null_Deref
     | Some recv # rs \<Rightarrow> c_bind (verify_msg recv) (\<lambda>_. Inr (sent, Returned rs)))"

definition cease_connection :: "(nat \<Rightarrow> uint64) \<Rightarrow> msg_t list \<Rightarrow> msg_t list c_result" where
  "cease_connection rnds sent = send_control rnds sent 0 0 FIN 0 [] 0"

end
