(* ===== verification/Client_Correct.thy ===== *)
theory Client_Correct
  imports Client_Driver Server_Thread_Correct
begin

text \<open>
  Theorems on the client: what the file holds after all packets have arrived intact, and after one of them was
  damaged and sent again.
\<close>

definition at_end :: "bytes \<Rightarrow> out_file" where
  "at_end b = \<lparr>fbytes = b, fpos = length b\<rparr>"

definition intact :: "msg_t \<Rightarrow> bool" where
  "intact m \<longleftrightarrow> verify_msg m = Inr True \<and> unat (contentLength (head m)) = length (content (body m))"

lemma fopen_wb_True [simp]: "fopen_wb True = Some (at_end [])"
  by (simp add: fopen_wb_def at_end_def)

lemma fbytes_at_end [simp]: "fbytes (at_end b) = b"
  by (simp add: at_end_def)

lemma fwrite_at_end [simp]: "fwrite_at d (at_end b) = at_end (b @ d)"
  by (simp add: fwrite_at_def at_end_def)

lemma fwrite_msg_intact: "intact m \<Longrightarrow> fwrite_msg m (Some f) = Inr (Some (fwrite_at (content (body m)) f))"
  by (simp add: fwrite_msg_def intact_def mem_read_def)

lemma send_control_Inr:
  assumes "length nm < 65536"
  shows "\<exists>m. send_control rnds sent sid oid dt num nm (word_of_nat (length nm)) = Inr (sent @ [m]) \<and> dataType (head m) = data_code dt"
  using form_msg_eq [of "word_of_nat (length nm)" nm] assms by (simp add: send_control_def unat_of_nat32 formed_msg_def form_head_def)

lemma word_le_upto: "k \<le> n \<Longrightarrow> n < 2 ^ 64 \<Longrightarrow> (word_of_nat k :: uint64) \<le> word_of_nat n"
  by (simp add: word_le_nat_alt unat_of_nat64)

lemma gather_intact:
  assumes "n < 2 ^ 64" "\<forall>m \<in> set ms. intact m" "k + length ms \<le> Suc n"
  shows "gather_packets (word_of_nat n) (word_of_nat k) (map Some ms @ rs) (Some (at_end b)) sec =
     gather_packets (word_of_nat n) (word_of_nat (k + length ms)) rs
       (Some (at_end (b @ concat (map (\<lambda>m. content (body m)) ms)))) sec"
  using assms(2,3)
proof (induction ms arbitrary: k b)
  case (Cons m ms)
  have le: "(word_of_nat k :: uint64) \<le> word_of_nat n"
    using Cons.prems(2) assms(1) by (intro word_le_upto) simp_all
  have "gather_packets (word_of_nat n) (word_of_nat k) (map Some (m # ms) @ rs) (Some (at_end b)) sec =
      gather_packets (word_of_nat n) (word_of_nat (Suc k)) (map Some ms @ rs) (Some (at_end (b @ content (body m)))) sec"
    using le Cons.prems(1) fwrite_msg_intact [of m "at_end b"] by (simp add: intact_def add.commute)
  also have "\<dots> = gather_packets (word_of_nat n) (word_of_nat (Suc k + length ms)) rs
      (Some (at_end ((b @ content (body m)) @ concat (map (\<lambda>m. content (body m)) ms)))) sec"
    using Cons.prems by (intro Cons.IH) simp_all
  finally show ?case by simp
qed simp

lemma gather_stop:
  assumes "Suc n < 2 ^ 64"
  shows "gather_packets (word_of_nat n) (word_of_nat (Suc n)) rs f sec = Inr (Returned (True, f, sec, rs))"
proof -
  have "\<not> (word_of_nat (Suc n) :: uint64) \<le> word_of_nat n"
    using assms by (simp add: word_le_nat_alt unat_of_nat64 del: of_nat_Suc)
  then show ?thesis
    by (cases rs) (simp_all del: of_nat_Suc)
qed

lemma gather_damaged:
  assumes "Suc n < 2 ^ 64" "k \<le> n" "verify_msg bad = Inr False"
  shows "gather_packets (word_of_nat n) (word_of_nat k) (Some bad # rs) f sec =
     gather_packets (word_of_nat n) (word_of_nat (Suc k)) rs f (add_to_section sec (word_of_nat (Suc k)))"
  using word_le_upto [OF assms(2) Suc_lessD [OF assms(1)]] assms(3) by (simp add: add.commute)

lemma gather_file_intact:
  assumes "0 < n" "Suc n < 2 ^ 64" "\<forall>m \<in> set ms. intact m" "length ms = Suc n"
  shows "gather_file True rnds sid oid ss (word_of_nat n) (map Some ms @ rs) sent =
     Inr (sent, Returned (True, concat (map (\<lambda>m. content (body m)) ms), rs))"
proof -
  have "(word_of_nat n :: uint64) \<noteq> 0"
    using assms(1,2) unat_of_nat64 [of n] by auto
  moreover have "gather_packets (word_of_nat n) 0 (map Some ms @ rs) (Some (at_end [])) create_section =
      Inr (Returned (True, Some (at_end (concat (map (\<lambda>m. content (body m)) ms))), create_section, rs))"
    using gather_intact [OF Suc_lessD [OF assms(2)] assms(3), of 0 rs "[]" create_section] gather_stop [OF assms(2)] assms(4)
    by (simp del: of_nat_Suc gather_packets.simps)
  moreover have "get_piece_in_section create_section 0 = None"
    by (simp add: get_piece_in_section_def create_section_def)
  ultimately show ?thesis
    by (cases rs) (simp_all add: gather_file_def)
qed

text \<open>One damaged packet: the packets behind it follow directly, then the packet is asked for and put into place.\<close>

lemma gather_file_damaged:
  assumes "0 < n" "n < 2 ^ 32" "\<forall>m \<in> set as. intact m" "\<forall>m \<in> set bs. intact m" "length as = k" "k + Suc (length bs) = Suc n"
    "verify_msg bad = Inr False" "intact again"
  shows "\<exists>rts f sec. gather_file True rnds sid oid ss (word_of_nat n) (map Some (as @ bad # bs) @ [Some again]) [] =
       Inr ([rts], Returned (True, fbytes f, [])) \<and> segmentNum (head rts) = word_of_nat (Suc k) \<and> dataType (head rts) = data_code RTS
     \<and> place_packet ss (word_of_nat n) again (Some (at_end (concat (map (\<lambda>m. content (body m)) (as @ bs)))))
          (add_to_section create_section (word_of_nat (Suc k))) = Inr (Some f, sec)"
proof -
  let ?sec = "add_to_section create_section (word_of_nat (Suc k) :: uint64)"
  let ?b = "concat (map (\<lambda>m. content (body m)) (as @ bs))"
  have n: "Suc n < 2 ^ 64" "k \<le> n" using assms(2,6) by simp_all
  have "unat (word_of_nat (Suc k) :: uint64) < 2 ^ 33"
    using n(2) assms(2) by (simp add: unat_of_nat64 del: of_nat_Suc)
  note one = one_request [OF below_max [OF this]]
  have "gather_packets (word_of_nat n) 0 (map Some (as @ bad # bs) @ [Some again]) (Some (at_end [])) create_section =
      gather_packets (word_of_nat n) (word_of_nat (Suc n)) [Some again] (Some (at_end ?b)) ?sec"
    using gather_intact [OF Suc_lessD [OF n(1)] assms(3), of 0 "map Some (bad # bs) @ [Some again]" "[]" create_section]
      gather_damaged [OF n assms(7), of "map Some bs @ [Some again]" "Some (at_end (concat (map (\<lambda>m. content (body m)) as)))" create_section]
      gather_intact [OF Suc_lessD [OF n(1)] assms(4), of "Suc k" "[Some again]" "concat (map (\<lambda>m. content (body m)) as)" ?sec] assms(5,6)
    by (simp del: of_nat_Suc gather_packets.simps)
  then have first: "gather_packets (word_of_nat n) 0 (map Some (as @ bad # bs) @ [Some again]) (Some (at_end [])) create_section =
      Inr (Returned (True, Some (at_end ?b), ?sec, [Some again]))"
    by (simp only: gather_stop [OF n(1)])
  obtain f where f: "place_packet ss (word_of_nat n) again (Some (at_end ?b)) ?sec = Inr (Some f, delete_from_section ?sec (word_of_nat (Suc k)))"
    using assms(8) by (cases "word_of_nat (Suc k) < (word_of_nat n :: uint64)")
      (simp_all add: place_packet_def one(2) Let_def fwrite_msg_intact del: of_nat_Suc)
  define rts where "rts = formed_msg (form_head (rnds 0) sid oid (chan_code CONTROL) (data_code RTS) (word_of_nat (Suc k)) 0) []"
  have "send_control rnds [] sid oid RTS (word_of_nat (Suc k)) [] 0 = Inr [rts]"
    using form_msg_eq [of 0 "[]"] by (simp add: send_control_def rts_def)
  moreover have "verify_msg again = Inr True" using assms(8) by (simp add: intact_def)
  ultimately have "gather_again rnds sid oid ss (word_of_nat n) [Some again] (Some (at_end ?b)) ?sec [] =
      Inr ([rts], Returned (True, fbytes f, []))"
    using one f by (simp del: of_nat_Suc)
  moreover have "(word_of_nat n :: uint64) \<noteq> 0"
    using assms(1) n unat_of_nat64 [of n] by auto
  ultimately have "gather_file True rnds sid oid ss (word_of_nat n) (map Some (as @ bad # bs) @ [Some again]) [] =
      Inr ([rts], Returned (True, fbytes f, []))"
    by (simp only: gather_file_def first fopen_wb_True if_False c_bind_simps outcome.case prod.case if_True)
  then show ?thesis
    using f by (intro exI [of _ rts] exI [of _ f] exI) (simp add: rts_def formed_msg_def form_head_def)
qed

subsection \<open>Where the packets go\<close>

lemma segment_intact: "unat (maxSize ch) < 65536 \<Longrightarrow> intact (segment_message rnd ch d k)"
  by (simp add: intact_def segment_message_facts)

lemma segments_take:
  assumes "k \<le> length (segments s d)"
  shows "concat (take k (segments s d)) = take (k * s) d"
  using assms chunks_take [of s d k] by (simp add: segments_def take_map del: segments_length)

lemma segments_drop:
  assumes "k \<le> length (segments s d)" "0 < s"
  shows "concat (drop k (segments s d)) = drop (k * s) d"
proof -
  have "take (k * s) d @ concat (drop k (segments s d)) = take (k * s) d @ drop (k * s) d"
    using segments_take [OF assms(1)] segments_concat [OF assms(2), of d]
    by (metis append_take_drop_id concat_append)
  then show ?thesis by (simp only: same_append_eq)
qed

lemma seek_offset:
  assumes "k * unat ss < 2 ^ 31"
  shows "fseek_set (ucast ((word_of_nat (Suc k) - 1) * ss :: uint64)) f = f\<lparr>fpos := k * unat ss\<rparr>"
proof -
  have w: "(word_of_nat (Suc k) - 1) * ss = word_of_nat (k * unat ss)"
    by simp
  have u: "unat (ucast (word_of_nat (k * unat ss) :: uint64) :: uint32) = k * unat ss"
    using assms by (subst unat_ucast_64_32) (simp_all add: unat_of_nat64 del: of_nat_mult)
  then show ?thesis
    unfolding w fseek_set_def using assms by (simp only: sless_zero_32 u) simp
qed

lemma place_shortens:
  assumes "0 < unat ss" "length d < 2 ^ 31" "k < length (segments (unat ss) d)" "intact again"
    "content (body again) = segments (unat ss) d ! k" "n = length (segments (unat ss) d)" "n < 2 ^ 32"
    and f: "place_packet ss (word_of_nat n) again (Some (at_end (take (k * unat ss) d @ drop (Suc k * unat ss) d)))
      (add_to_section create_section (word_of_nat (Suc k))) = Inr (Some f, sec)"
  shows "length (fbytes f) < length d"
proof -
  let ?s = "unat ss" and ?b = "take (k * unat ss) d @ drop (Suc k * unat ss) d"
  have start: "k * ?s < length d"
    using segment_start [of k "length d" ?s] assms(1,3) by simp
  have "unat (word_of_nat (Suc k) :: uint64) < 2 ^ 33"
    using assms(3,6,7) by (simp add: unat_of_nat64 del: of_nat_Suc segments_length)
  note one = one_request [OF below_max [OF this]]
  have less: "(word_of_nat (Suc k) :: uint64) < word_of_nat n \<longleftrightarrow> Suc k < n"
    using assms(3,6,7) by (simp add: word_less_nat_alt unat_of_nat64 del: of_nat_Suc segments_length)
  show ?thesis
  proof (cases "Suc k < n")
    case True
    have next_start: "Suc k * ?s < length d"
      using segment_start [of "Suc k" "length d" ?s] assms(1,6) True by simp
    have c: "length (content (body again)) = ?s"
      using next_start assms(3,5) by (simp add: segments_def)
    have "f = fwrite_at (content (body again)) ((at_end ?b)\<lparr>fpos := k * ?s\<rparr>)"
      using f True less start assms(2,4)
      by (simp add: place_packet_def one(2) Let_def seek_offset fwrite_msg_intact del: of_nat_Suc)
    then have "length (fbytes f) = max (length ?b) (k * ?s + ?s)"
      using c assms(1) start by (auto simp: fwrite_at_def Let_def at_end_def)
    then show ?thesis
      using next_start assms(1) start by simp
  next
    case False
    then have "f = at_end ?b"
      using f less by (simp add: place_packet_def one(2) Let_def del: of_nat_Suc)
    moreover have "length d \<le> Suc k * ?s"
    proof -
      have "drop (Suc k) (segments ?s d) = []"
        using False assms(6) by simp
      then have "drop (Suc k * ?s) d = []"
        using segments_drop [OF Suc_leI [OF assms(3)] assms(1)] by simp
      then show ?thesis by simp
    qed
    ultimately show ?thesis
      using start by simp
  qed
qed

text \<open>The packets of a file that is not empty, and what sending and receiving them does.\<close>

definition packets :: "(nat \<Rightarrow> uint64) \<Rightarrow> channel_t \<Rightarrow> bytes \<Rightarrow> msg_t list" where
  "packets rnds ch d = map (\<lambda>i. segment_message (rnds i) ch d i) [0..<Suc (count (maxSize ch) d)]"

lemma packets_length: "serves ch ss d \<Longrightarrow> length (packets rnds ch d) = Suc (count ss d)"
  by (auto simp: packets_def serves_def)

lemma packets_intact: "serves ch ss d \<Longrightarrow> m \<in> set (packets rnds ch d) \<Longrightarrow> intact m"
  by (auto simp: packets_def serves_def segment_intact simp del: upt_Suc)

text \<open>The contents of the first packets.\<close>

lemma packets_contents:
  assumes "serves ch ss d" "v \<le> count ss d"
  shows "concat (map (\<lambda>m. content (body m)) (take (Suc v) (packets rnds ch d))) = take (Suc v * unat ss) d"
    "concat (map (\<lambda>m. content (body m)) (packets rnds ch d)) = d"
proof -
  have ss: "maxSize ch = ss" "unat (maxSize ch) < 65536" "ss \<noteq> 0" using assms(1) by (auto simp: serves_def)
  have "take (Suc v) [0..<Suc (count ss d)] = [0..<Suc v]" using assms(2) by (simp add: take_upt del: upt_Suc)
  then have "map (\<lambda>m. content (body m)) (take (Suc v) (packets rnds ch d)) = map (nth_segment ss d) [0..<Suc v]"
    using ss by (simp add: packets_def take_map segment_message_facts o_def del: upt_Suc)
  also have "\<dots> = map (\<lambda>i. take (unat ss) (drop (i * unat ss) d)) [0..<Suc v]"
    using assms(2) by (intro map_cong refl nth_segment_bytes(1) [OF ss(3)]) auto
  finally show "concat (map (\<lambda>m. content (body m)) (take (Suc v) (packets rnds ch d))) = take (Suc v * unat ss) d"
    by (simp add: chunks_take del: upt_Suc)
  have "map (\<lambda>m. content (body m)) (packets rnds ch d) = segments (unat ss) d @ [[]]"
    using map_nth_segment [of ss d] by (simp add: packets_def segment_message_facts(3) [OF ss(2)] ss(1) o_def del: upt_Suc)
  then show "concat (map (\<lambda>m. content (body m)) (packets rnds ch d)) = d"
    using segments_concat [of "unat ss" d] ss(3) by (simp add: unat_gt_0)
qed

lemma download_packets:
  assumes "serves ch ss d" "chan_ready ch" "\<not> chan_data ch" "\<not> chan_kill ch" "d \<noteq> []"
  shows "\<exists>th fh n. chan_handle ch = Some fh \<and> num_segments_in_file_handle fh ss = Inr n
     \<and> fork_server_channel g rnds ch (replicate (unat n + 2) Quiet) = Inr (Running, th, ch, packets rnds ch d)
     \<and> gather_file True rnds' sid oid ss n (map Some (packets rnds ch d)) sent = Inr (sent, Returned (True, d, []))"
proof -
  let ?n = "count ss d" and ?out = "packets rnds ch d"
  obtain fh where fh: "chan_handle ch = Some fh" "maxSize ch = ss" "ss \<noteq> 0" "unat ss < 65536"
    "count ss d < 2 ^ 32" "num_segments_in_file_handle fh ss = Inr (word_of_nat ?n)"
    using assms(1) by (rule servesE)
  have s: "0 < unat ss" using fh(3) by (simp add: unat_gt_0)
  have "0 < ?n"
    using segments_concat [OF s, of d] assms(5) unfolding count_def by (metis concat.simps(1) length_greater_0_conv)
  moreover have "concat (map (\<lambda>m. content (body m)) ?out) = d"
    using map_nth_segment [of ss d] segments_concat [OF s, of d]
    by (simp add: packets_def segment_message_facts fh o_def del: upt_Suc)
  ultimately have "gather_file True rnds' sid oid ss (word_of_nat ?n) (map Some ?out) sent = Inr (sent, Returned (True, d, []))"
    using gather_file_intact [of ?n ?out rnds' sid oid ss "[]" sent] fh(2,4,5) by (simp add: packets_def segment_intact del: upt_Suc)
  moreover have "unat (word_of_nat ?n :: uint64) = ?n"
    using fh(5) by (simp add: unat_of_nat64)
  ultimately show ?thesis
    using thread_whole_file [OF assms(1-4), of g rnds 0 "[]"] fh(1,2,6) assms(4)
    by (intro exI [of _ "all_sent ch d"] exI [of _ fh] exI [of _ "word_of_nat ?n"]) (simp add: packets_def del: upt_Suc)
qed

lemma download_file:
  assumes "serves ch ss d" "chan_ready ch" "\<not> chan_data ch" "\<not> chan_kill ch" "d \<noteq> []"
  shows "\<exists>th out fh n. chan_handle ch = Some fh \<and> num_segments_in_file_handle fh ss = Inr n
     \<and> fork_server_channel g rnds ch (replicate (unat n + 2) Quiet) = Inr (Running, th, ch, out)
     \<and> gather_file True rnds' sid oid ss n (map Some out) sent = Inr (sent, Returned (True, d, []))"
  using download_packets [OF assms] by blast

subsection \<open>Properties\<close>

text \<open>
  Download, end to end: the packets that the server's channel sends for a file that is not empty, received intact,
  make the client write exactly that file; the number of packets it waits for is the one the server announces.
\<close>

theorem download_intact:
  assumes "serves ch ss d" "chan_ready ch" "\<not> chan_data ch" "\<not> chan_kill ch" "d \<noteq> []"
  shows "\<exists>th out fh n. chan_handle ch = Some fh \<and> num_segments_in_file_handle fh ss = Inr n
     \<and> fork_server_channel g rnds ch (replicate (unat n + 2) Quiet) = Inr (Running, th, ch, out)
     \<and> gather_file True rnds' sid oid ss n (map Some out) sent = Inr (sent, Returned (True, d, []))"
  using assms by (rule download_file)

theorem download_intact_witness:
  "\<exists>th out fh n. chan_handle sample_chan = Some fh \<and> num_segments_in_file_handle fh 2 = Inr n
     \<and> fork_server_channel (\<lambda>_. 0) (\<lambda>_. 7) sample_chan (replicate (unat n + 2) Quiet) = Inr (Running, th, sample_chan, out)
     \<and> gather_file True (\<lambda>_. 8) 100 300 2 n (map Some out) [] = Inr ([], Returned (True, [1, 2, 3], []))"
  by (rule download_intact [OF sample_chan_serves]) simp

text \<open>
  C16. Recovery does not work: when one data packet of a download is damaged, the client asks for it again and the
  server sends it again, but the file that the client writes is shorter than the original, although it reports
  success. The packets behind the damaged one were written without leaving a gap, so the repeated packet
  overwrites its successor, and the last packet is never put into place.
\<close>

theorem download_damaged:
  assumes "serves ch ss d" "chan_ready ch" "\<not> chan_data ch" "\<not> chan_kill ch" "length d < 2 ^ 31"
    "k < length (segments (unat ss) d)" "verify_msg bad = Inr False"
  shows "\<exists>th th' out rts again f. let evs = replicate (length (segments (unat ss) d) + 2) Quiet in
     fork_server_channel g rnds ch evs = Inr (Running, th, ch, out)
     \<and> fork_server_channel g rnds ch (evs @ [Retransmit rts, Quiet]) = Inr (Running, th', ch\<lparr>chan_value := None\<rparr>, out @ [again])
     \<and> gather_file True rnds' sid oid ss (word_of_nat (length (segments (unat ss) d))) (map Some (out[k := bad]) @ [Some again]) [] =
         Inr ([rts], Returned (True, f, []))
     \<and> length f < length d"
proof -
  let ?n = "count ss d" and ?seg = "\<lambda>i. segment_message (rnds i) ch d i"
  let ?out = "map ?seg [0..<Suc ?n]" and ?as = "map ?seg [0..<k]" and ?bs = "map ?seg [Suc k..<Suc ?n]"
  let ?again = "segment_message (rnds (Suc ?n)) ch d k"
  obtain fh where fh: "maxSize ch = ss" "ss \<noteq> 0" "unat ss < 65536" "?n < 2 ^ 32"
    using assms(1) by (rule servesE)
  have s: "0 < unat ss" using fh(2) by (simp add: unat_gt_0)
  have k: "k < ?n" using assms(6) by (simp add: count_def)
  have int: "\<forall>m \<in> set ?as. intact m" "\<forall>m \<in> set ?bs. intact m" "intact ?again"
    by (simp_all add: segment_intact fh del: upt_Suc)
  have out: "?out[k := bad] = ?as @ bad # ?bs"
    using k by (intro nth_equalityI) (auto simp: nth_append nth_list_update nth_Cons' simp del: upt_Suc)
  have "map (\<lambda>m. content (body m)) ?as = take k (segments (unat ss) d)"
    using k by (intro nth_equalityI) (simp_all add: segment_message_facts fh nth_segment_def count_def del: segments_length)
  moreover have "map (\<lambda>m. content (body m)) ?bs = drop (Suc k) (segments (unat ss) d) @ [[]]"
    using k by (intro nth_equalityI)
      (auto simp: segment_message_facts fh nth_segment_def count_def nth_append simp del: segments_length upt_Suc)
  ultimately have b: "concat (map (\<lambda>m. content (body m)) (?as @ ?bs)) = take (k * unat ss) d @ drop (Suc k * unat ss) d"
    using segments_take [of k "unat ss" d] segments_drop [OF Suc_leI [OF assms(6)] s] assms(6) by (simp del: upt_Suc)
  obtain rts f sec where *: "gather_file True rnds' sid oid ss (word_of_nat ?n) (map Some (?as @ bad # ?bs) @ [Some ?again]) [] =
       Inr ([rts], Returned (True, fbytes f, []))" "segmentNum (head rts) = word_of_nat (Suc k)"
     "place_packet ss (word_of_nat ?n) ?again (Some (at_end (take (k * unat ss) d @ drop (Suc k * unat ss) d)))
        (add_to_section create_section (word_of_nat (Suc k))) = Inr (Some f, sec)"
    using gather_file_damaged [OF _ fh(4) int(1,2) _ _ assms(7) int(3), of k rnds' sid oid ss] k unfolding b
    by (auto simp del: upt_Suc of_nat_Suc)
  have "length (fbytes f) < length d"
    using fh(4) k assms(6) by (intro place_shortens [OF s assms(5,6) int(3) _ _ _ *(3)])
      (simp_all add: segment_message_facts fh nth_segment_def count_def del: segments_length)
  moreover have "fork_server_channel g rnds ch (replicate (?n + 2) Quiet @ [Retransmit rts, Quiet]) =
      Inr (Running, (all_sent ch d)\<lparr>retrans_sec := delete_from_section (add_to_section create_section (word_of_nat (Suc k))) (word_of_nat (Suc k))\<rparr>,
        ch\<lparr>chan_value := None\<rparr>, ?out @ [?again])"
    using thread_resends [OF assms(1-4) less_imp_le [OF k] *(2), of g rnds Quiet] assms(4) by (simp del: upt_Suc of_nat_Suc)
  moreover have "fork_server_channel g rnds ch (replicate (?n + 2) Quiet) = Inr (Running, all_sent ch d, ch, ?out)"
    using thread_whole_file [OF assms(1-4), of g rnds 0 "[]"] assms(4) by (simp del: upt_Suc)
  ultimately show ?thesis
    using *(1) unfolding Let_def out [symmetric] count_def [symmetric] by blast
qed

definition sample_damaged :: msg_t where
  "sample_damaged = (segment_message 7 sample_chan [1, 2, 3] 0)\<lparr>head := (head (segment_message 7 sample_chan [1, 2, 3] 0))\<lparr>sendID := 1\<rparr>\<rparr>"

lemma sample_damaged_fails: "verify_msg sample_damaged = Inr False"
  by (simp add: sample_damaged_def segment_message_def formed_msg_def form_head_def verify_msg_def verify_msg_alert_def header_alert_def
      sample_chan_def)

theorem download_damaged_witness:
  "\<exists>th th' out rts again f. let evs = replicate (length (segments (unat (2 :: uint64)) [1, 2, 3]) + 2) Quiet in
     fork_server_channel (\<lambda>_. 0) (\<lambda>_. 7) sample_chan evs = Inr (Running, th, sample_chan, out)
     \<and> fork_server_channel (\<lambda>_. 0) (\<lambda>_. 7) sample_chan (evs @ [Retransmit rts, Quiet]) =
         Inr (Running, th', sample_chan\<lparr>chan_value := None\<rparr>, out @ [again])
     \<and> gather_file True (\<lambda>_. 8) 100 300 2 (word_of_nat (length (segments (unat (2 :: uint64)) [1, 2, 3])))
         (map Some (out[0 := sample_damaged]) @ [Some again]) [] = Inr ([rts], Returned (True, f, []))
     \<and> length f < length [1 :: uint8, 2, 3]"
  by (rule download_damaged [OF sample_chan_serves _ _ sample_damaged_fails]) simp_all

text \<open>
  Opening a channel: the client sends one request and repeats it for every damaged answer; on the first intact
  answer it reads the freed request.
\<close>

theorem establish_reads_freed:
  assumes "length nm < 65536" "list_all (\<lambda>m. verify_msg m = Inr False) bads" "verify_msg answer = Inr True"
  shows "establish_channel None rnds sid oid msize nm (word_of_nat (length nm)) (map Some bads @ Some answer # rs) [] = Inl Use_After_Free
     \<and> (\<exists>sent. establish_channel None rnds sid oid msize nm (word_of_nat (length nm)) (map Some bads) [] = Inr (sent, Blocked)
          \<and> map (\<lambda>m. dataType (head m)) sent = data_code SYN # replicate (length bads) (data_code RTS))"
proof -
  have loop: "establish_loop None rnds sid oid msize nm (word_of_nat (length nm)) (map Some bads @ Some answer # rs) sent = Inl Use_After_Free
      \<and> (\<exists>sent'. establish_loop None rnds sid oid msize nm (word_of_nat (length nm)) (map Some bads) sent = Inr (sent @ sent', Blocked)
          \<and> map (\<lambda>m. dataType (head m)) sent' = replicate (length bads) (data_code RTS))" for sent
    using assms(2)
  proof (induction bads arbitrary: sent)
    case Nil
    then show ?case by (simp add: assms(3))
  next
    case (Cons b bads)
    obtain m where m: "send_control rnds sent sid oid RTS (ucast msize) nm (word_of_nat (length nm)) = Inr (sent @ [m])"
      "dataType (head m) = data_code RTS"
      using send_control_Inr [OF assms(1)] by blast
    then show ?case
      using Cons.IH [of "sent @ [m]"] Cons.prems by auto
  qed
  obtain m where "send_control rnds [] sid oid SYN (ucast msize) nm (word_of_nat (length nm)) = Inr [m]" "dataType (head m) = data_code SYN"
    using send_control_Inr [OF assms(1), of rnds "[]"] by fastforce
  then show ?thesis
    using loop [of "[m]"] by (auto simp: establish_channel_def)
qed

theorem establish_reads_freed_witness:
  "establish_channel None (\<lambda>_. 7) 100 0 8000 [97] (word_of_nat (length [97 :: uint8]))
       (map Some [sample_damaged] @ Some (segment_message 7 sample_chan [1, 2, 3] 0) # []) [] = Inl Use_After_Free
     \<and> (\<exists>sent. establish_channel None (\<lambda>_. 7) 100 0 8000 [97] (word_of_nat (length [97 :: uint8])) (map Some [sample_damaged]) [] = Inr (sent, Blocked)
          \<and> map (\<lambda>m. dataType (head m)) sent = data_code SYN # replicate (length [sample_damaged]) (data_code RTS))"
  by (rule establish_reads_freed) (simp_all add: sample_damaged_fails segment_message_facts sample_chan_def)

end
