(* ===== verification/Wire_Transfer.thy ===== *)
theory Wire_Transfer
  imports Frame_Codec Client_Correct
begin

text \<open>
  A file on the wire: \<^verbatim>\<open>send_msg\<close> as a transport of messages (the locale \<open>transport\<close>), used by the thread of a channel for the packets of
  its file. \<^verbatim>\<open>recv_msg\<close> is a stub in this revision, so what arrives is stated of the bytes on the wire: \<open>carries\<close> says which messages the
  verifier, the decoder and the parser of the message library find in them.
\<close>

text \<open>One call of \<^verbatim>\<open>send_msg\<close> after another: the state of the sending side is the mutexes and what the socket will accept.\<close>

definition socket_send :: "host \<Rightarrow> garbage \<Rightarrow> msg_t \<Rightarrow> io_state \<times> write_event list \<Rightarrow> (bytes \<times> io_state \<times> write_event list) option" where
  "socket_send h g m = (\<lambda>(io, evs).
     case send_msg h g io m evs of Inl e \<Rightarrow> None | Inr (io, w, evs) \<Rightarrow> Some (w, io, evs))"

definition socket_credit :: "io_state \<times> write_event list \<Rightarrow> nat" where
  "socket_credit = (\<lambda>(io, evs). if send_mutex io then 0 else grants evs)"

interpretation socket: transport "\<lambda>m. cobs_encode g (msg_wire m)" "read_frame h2" good_msg SPECIAL_CHAR "socket_send h1 g" socket_credit
  for g h1 h2
proof unfold_locales
  fix m and e :: "io_state \<times> write_event list"
  assume m: "good_msg m" "length (cobs_encode g (msg_wire m)) \<le> socket_credit e"
  obtain io evs where e: "e = (io, evs)" by force
  have "0 < length (cobs_encode g (msg_wire m))" by (simp add: cobs_encode_blocks)
  then have free: "\<not> send_mutex io" using m(2) by (auto simp: e socket_credit_def)
  then obtain evs' where "send_msg h1 g io m evs = Inr (io, cobs_encode g (msg_wire m), evs')"
    "grants evs \<le> grants evs' + length (cobs_encode g (msg_wire m))"
    using send_msg_wire [of m io g evs h1] m by (auto simp: good_msg_def socket_credit_def e)
  then show "\<exists>e'. socket_send h1 g m e = Some (cobs_encode g (msg_wire m), e')
      \<and> socket_credit e \<le> socket_credit e' + length (cobs_encode g (msg_wire m))"
    using free by (intro exI [of _ "(io, evs')"]) (simp add: socket_send_def socket_credit_def e)
qed

subsection \<open>The packets of a file\<close>

lemma segment_good:
  assumes "unat (maxSize ch) < 65536"
  shows "good_msg (segment_message rnd ch d k)" "length (cobs_encode g (msg_wire (segment_message rnd ch d k))) \<le> 80000"
proof -
  let ?m = "segment_message rnd ch d k"
  have l: "length (nth_segment (maxSize ch) d k) < 65536"
    using nth_segment_length [of "maxSize ch" d k] assms by simp
  show "good_msg ?m"
    unfolding segment_message_def by (rule formed_good) (use l in \<open>simp_all add: unat_of_nat32\<close>)
  then have "length (msg_wire ?m) \<le> 144 + 65536 + 2048"
    using l segment_message_facts(4) [OF assms, of rnd d k] by (simp add: good_msg_def length_msg_wire)
  then show "length (cobs_encode g (msg_wire ?m)) \<le> 80000"
    using cobs_encode_length_bounds(2) [of g "msg_wire ?m"] by linarith
qed

lemma packets_good:
  assumes "unat (maxSize ch) < 65536"
  shows "list_all good_msg (packets rnds ch d)"
    "length (concat (map (\<lambda>m. cobs_encode g (msg_wire m)) (packets rnds ch d))) \<le> 80000 * Suc (count (maxSize ch) d)"
proof -
  show "list_all good_msg (packets rnds ch d)"
    using segment_good(1) [OF assms] by (simp add: packets_def list_all_iff)
  have "length (concat (map (\<lambda>i. cobs_encode g (msg_wire (segment_message (rnds i) ch d i))) is)) \<le> 80000 * length is" for "is"
    using segment_good(2) [OF assms, of g] by (induction "is") (auto intro: add_mono)
  from this [of "[0..<Suc (count (maxSize ch) d)]"]
  show "length (concat (map (\<lambda>m. cobs_encode g (msg_wire m)) (packets rnds ch d))) \<le> 80000 * Suc (count (maxSize ch) d)"
    by (simp add: packets_def o_def del: upt_Suc)
qed

subsection \<open>Property\<close>

text \<open>
  C3. A file over the wire: the thread of a ready channel hands its packets to \<^verbatim>\<open>send_msg\<close>; however the socket cuts and interrupts the
  writes, the bytes on the wire are one frame per packet that verifies, decodes and parses, on a host of any byte order, to exactly the packet
  that was formed: the headers are those of the thread, packet \<open>k\<close> has the number \<open>k + 1\<close> and carries the bytes of segment \<open>k\<close>, the last one
  is empty, and the contents together are the file.
\<close>

theorem wire_download:
  assumes "serves ch ss d" "chan_ready ch" "\<not> chan_data ch" "\<not> chan_kill ch"
    and "\<not> send_mutex io" "80000 * Suc (length (segments (unat ss) d)) \<le> grants evs"
  shows "\<exists>th out n w e. n = length (segments (unat ss) d)
     \<and> fork_server_channel g rnds ch (replicate (n + 2) Quiet) = Inr (Running, th, ch, out)
     \<and> send_all (socket_send h1 g') out (io, evs) = Some (w, e) \<and> carries h2 w out \<and> length out = n + 1
     \<and> (\<forall>k \<le> n. sendID (head (out ! k)) = selfID ch \<and> recvID (head (out ! k)) = otherID ch
          \<and> segmentNum (head (out ! k)) = word_of_nat (k + 1) \<and> content (body (out ! k)) = take (unat ss) (drop (k * unat ss) d))
     \<and> concat (map (\<lambda>m. content (body m)) out) = d"
proof -
  let ?n = "length (segments (unat ss) d)" and ?out = "packets rnds ch d"
  have ss: "maxSize ch = ss" "unat (maxSize ch) < 65536" "ss \<noteq> 0" using assms(1) by (auto simp: serves_def)
  have "length (concat (map (\<lambda>m. cobs_encode g' (msg_wire m)) ?out)) \<le> socket_credit (io, evs)"
    using packets_good(2) [OF ss(2), of g' rnds d] assms(5,6) ss(1) by (simp add: socket_credit_def count_def)
  then obtain e where "send_all (socket_send h1 g') ?out (io, evs) = Some (concat (map (\<lambda>m. cobs_encode g' (msg_wire m)) ?out), e)"
    using socket.send_all_enc [OF packets_good(1) [OF ss(2)], where g = g'] by blast
  moreover have "carries h2 (concat (map (\<lambda>m. cobs_encode g' (msg_wire m)) ?out)) ?out"
    using packets_good(1) [OF ss(2), of rnds d] by (intro carries_wire) (simp add: good_msg_def [abs_def])
  moreover have "fork_server_channel g rnds ch (replicate (?n + 2) Quiet) = Inr (Running, all_sent ch d, ch, ?out)"
    using thread_whole_file [OF assms(1-4), of g rnds 0 "[]"] assms(4) ss(1)
    by (simp add: packets_def count_def del: upt_Suc segments_length)
  moreover have "\<forall>k \<le> ?n. sendID (head (?out ! k)) = selfID ch \<and> recvID (head (?out ! k)) = otherID ch
      \<and> segmentNum (head (?out ! k)) = word_of_nat (k + 1) \<and> content (body (?out ! k)) = take (unat ss) (drop (k * unat ss) d)"
    using nth_segment_bytes(1) [OF ss(3), of _ d] ss(1,2)
    by (simp add: packets_def segment_message_facts count_def less_Suc_eq_le del: upt_Suc of_nat_Suc of_nat_add segments_length)
      (simp add: segment_message_def formed_msg_def form_head_def)
  ultimately show ?thesis
    using packets_contents(2) [OF assms(1) le_refl, of rnds] packets_length [OF assms(1), of rnds]
    by (intro exI [of _ "all_sent ch d"] exI [of _ ?out] exI [of _ ?n] exI [of _ e] exI) (simp add: count_def del: segments_length)
qed

theorem wire_download_witness:
  "\<exists>th out n w e. n = length (segments (unat (2 :: uint64)) [1, 2, 3])
     \<and> fork_server_channel (\<lambda>_. 0) (\<lambda>_. 7) sample_chan (replicate (n + 2) Quiet) = Inr (Running, th, sample_chan, out)
     \<and> send_all (socket_send Little_Host (\<lambda>_. 9)) out (io_init, replicate 240000 (Accept 100)) = Some (w, e)
     \<and> carries Big_Host w out \<and> length out = n + 1
     \<and> (\<forall>k \<le> n. sendID (head (out ! k)) = selfID sample_chan \<and> recvID (head (out ! k)) = otherID sample_chan
          \<and> segmentNum (head (out ! k)) = word_of_nat (k + 1)
          \<and> content (body (out ! k)) = take (unat (2 :: uint64)) (drop (k * unat (2 :: uint64)) [1, 2, 3]))
     \<and> concat (map (\<lambda>m. content (body m)) out) = [1, 2, 3]"
proof (rule wire_download [OF sample_chan_serves])
  show "80000 * Suc (length (segments (unat (2 :: uint64)) [1, 2, 3])) \<le> grants (replicate 240000 (Accept 100))"
    by (simp add: grants_replicate)
qed (simp_all add: io_init_def)

end
