(* ===== verification/Server_Driver.thy ===== *)
theory Server_Driver
  imports Conn_Chan
begin

text \<open>
  The main loop of \<^verbatim>\<open>src/justin-snapshot/drv/server.c\<close>: accepting connections and answering the messages that arrive on
  them. What \<^verbatim>\<open>recv_msg\<close> returns for a message, the sockets that are ready and the random numbers are
  arguments; an answer is the socket and the message formed for it. A message that is refused is
  answered on the same connection. The channel's thread is started when the channel is set up; its own
  steps are in \<open>Server_Thread\<close>. After a disconnect the loop prints an address through a pointer into the
  connection it has just released; whether that read stops the program is \<open>freed_read\<close> of the machine.
\<close>

definition MAX_CHANNELS :: uint64 where
  "MAX_CHANNELS = 4 - 1"

type_synonym answers = "(int \<times> msg_t) list"

definition reply ::
    "conn_table \<Rightarrow> nat \<Rightarrow> uint64 \<Rightarrow> uint64 \<Rightarrow> uint64 \<Rightarrow> DATA_TYPE \<Rightarrow> uint64 \<Rightarrow> bytes \<Rightarrow> uint32
     \<Rightarrow> (conn_table \<times> answers) c_result" where
  "reply t i rnd sID rID dt snum cont clen =
     c_bind (form_msg rnd sID rID (chan_code CONTROL) (data_code dt) snum cont clen) (\<lambda>m.
     Inr (t, [(conn_sock (conns t ! i), m)]))"

definition set_channel :: "conn_table \<Rightarrow> nat \<Rightarrow> nat \<Rightarrow> channel_t \<Rightarrow> conn_table" where
  "set_channel t i j ch =
     t\<lparr>conns := (conns t)[i := (conns t ! i)\<lparr>chans := (chans (conns t ! i))[j := ch]\<rparr>]\<rparr>"

definition ack_channel ::
    "conn_table \<Rightarrow> nat \<Rightarrow> nat \<Rightarrow> uint64 \<Rightarrow> uint64 \<Rightarrow> (conn_table \<times> answers) c_result" where
  "ack_channel t i j rnd sID =
     (let ch = chans (conns t ! i) ! j in
      case chan_handle ch of
        None \<Rightarrow> Inl Null_Deref
      | Some fh \<Rightarrow>
          c_bind (num_segments_in_file_handle fh (maxSize ch)) (\<lambda>n.
          reply t i rnd (selfID ch) sID ACK n [] 0))"

text \<open>A request to open a channel on a file, or to repeat the answer to such a request (lines 182 to 205).\<close>

definition channel_request ::
    "machine \<Rightarrow> dir_handle_t \<Rightarrow> uint64 \<Rightarrow> uint64 \<Rightarrow> conn_table \<Rightarrow> nat \<Rightarrow> msg_t
     \<Rightarrow> (conn_table \<times> answers) c_result" where
  "channel_request mc dh rnd self_id t i m =
     (let hdr = head m in
      c_bind (mem_read 0 (unat (contentLength hdr)) (content (body m))) (\<lambda>file.
      c_bind (file_handle_for_file dh file) (\<lambda>fhandle.
      case fhandle of
        None \<Rightarrow> reply t i rnd 0 (sendID hdr) FIN 0 [] 0
      | Some fh \<Rightarrow>
          if totalChannels t \<ge> MAX_CHANNELS
          then reply t i rnd 0 (sendID hdr) FIN 0 (content (body m)) (contentLength hdr)
          else (case find_existing_channel (conns t ! i) (sendID hdr) 0 of
             Some j \<Rightarrow> ack_channel t i j rnd (sendID hdr)
           | None \<Rightarrow>
               c_bind (new_channel (slots mc) t i) (\<lambda>t.
               (let j = length (chans (conns t ! i)) - 1;
                    ch = (chans (conns t ! i) ! j)
                          \<lparr>chan_sock := conn_sock (conns t ! i), otherID := sendID hdr, selfID := self_id,
                           maxSize := segmentNum hdr, chan_handle := Some fh\<rparr>;
                    t = set_channel t i j (ch\<lparr>chan_thread := thread_for mc ch\<rparr>)
                in ack_channel t i j rnd (sendID hdr)))))))"

definition close_request ::
    "machine \<Rightarrow> conn_table \<Rightarrow> nat \<Rightarrow> uint64 \<Rightarrow> msg_header_t \<Rightarrow> (conn_table \<times> answers) c_result" where
  "close_request mc t i rnd hdr =
     c_bind (case find_existing_channel (conns t ! i) (sendID hdr) (recvID hdr) of
               None \<Rightarrow> Inr t
             | Some j \<Rightarrow> end_channel mc t i j) (\<lambda>t.
     reply t i rnd 0 (sendID hdr) FIN 0 [] 0)"

text \<open>A disconnect (lines 155 to 156 and 170 to 171): the connection is closed and released, then its address is printed.\<close>

definition disconnect :: "machine \<Rightarrow> conn_table \<Rightarrow> nat \<Rightarrow> (conn_table \<times> answers) c_result" where
  "disconnect mc t i = c_bind (end_connection mc t i) (\<lambda>t. c_bind (freed_read mc) (\<lambda>_. Inr (t, [])))"

definition refuse :: "conn_table \<Rightarrow> nat \<Rightarrow> uint64 \<Rightarrow> msg_header_t \<Rightarrow> (conn_table \<times> answers) c_result" where
  "refuse t i rnd hdr = reply t i rnd (recvID hdr) (sendID hdr) NACK 0 [] 0"

text \<open>What the loop does with the message received on connection \<open>i\<close> (lines 151 to 263).\<close>

definition handle_message ::
    "machine \<Rightarrow> dir_handle_t \<Rightarrow> uint64 \<Rightarrow> uint64 \<Rightarrow> conn_table \<Rightarrow> nat \<Rightarrow> msg_t option
     \<Rightarrow> (conn_table \<times> answers) c_result" where
  "handle_message mc dh rnd self_id t i recvmsg =
     (case recvmsg of
        None \<Rightarrow> disconnect mc t i
      | Some m \<Rightarrow>
          (let hdr = head m; control = (chanType hdr = chan_code CONTROL); dt = dataType hdr in
           c_bind (verify_msg m) (\<lambda>ok.
           if \<not> ok then reply t i rnd (recvID hdr) (sendID hdr) RTS 0 [] 0
           else if sendID hdr = 0 \<and> recvID hdr = 0 then
             (if control \<and> dt = data_code FIN then disconnect mc t i
              else refuse t i rnd hdr)
           else if sendID hdr > 0 \<and> recvID hdr = 0 then
             (if control \<and> (dt = data_code SYN \<or> dt = data_code RTS)
              then channel_request mc dh rnd self_id t i m
              else if control \<and> dt = data_code FIN then close_request mc t i rnd hdr
              else refuse t i rnd hdr)
           else
             (if control \<and> dt = data_code SYN then
                (case find_existing_channel (conns t ! i) (sendID hdr) (recvID hdr) of
                   Some j \<Rightarrow> Inr (set_channel t i j ((chans (conns t ! i) ! j)\<lparr>chan_ready := True\<rparr>), [])
                 | None \<Rightarrow> refuse t i rnd hdr)
              else if control \<and> dt = data_code RTS then
                (case find_existing_channel (conns t ! i) (sendID hdr) (recvID hdr) of
                   Some j \<Rightarrow> Inr (set_channel t i j ((chans (conns t ! i) ! j)
                               \<lparr>chan_value := Some m, chan_data := True\<rparr>), [])
                 | None \<Rightarrow> refuse t i rnd hdr)
              else if control \<and> dt = data_code FIN then close_request mc t i rnd hdr
              else refuse t i rnd hdr))))"

subsection \<open>One round of the loop\<close>

definition accept_connection :: "(nat \<Rightarrow> nat) \<Rightarrow> conn_table \<Rightarrow> int option \<Rightarrow> conn_table c_result" where
  "accept_connection usable t new_socket =
     (case new_socket of
        None \<Rightarrow> Inr t
      | Some s \<Rightarrow>
          c_bind (new_connection usable t) (\<lambda>t.
          (let k = length (conns t) - 1 in
           Inr (t\<lparr>conns := (conns t)[k := \<lparr>conn_sock = s, chans = []\<rparr>]\<rparr>))))"

text \<open>
  The scan over the connections from index \<open>i\<close>. After a disconnect the next connection moves to index \<open>i\<close> and is
  skipped in this round. \<open>rnds k\<close> and \<open>ids k\<close> are the random numbers drawn for index \<open>k\<close>.
\<close>

fun poll ::
    "machine \<Rightarrow> dir_handle_t \<Rightarrow> (nat \<Rightarrow> uint64) \<Rightarrow> (nat \<Rightarrow> uint64) \<Rightarrow> (int \<Rightarrow> bool) \<Rightarrow> (int \<Rightarrow> msg_t option)
     \<Rightarrow> nat \<Rightarrow> nat \<Rightarrow> conn_table \<Rightarrow> answers \<Rightarrow> (conn_table \<times> answers) c_result" where
  "poll mc dh rnds ids ready recv 0 i t out =
     (if i < length (conns t) then Inl Diverges else Inr (t, out))"
| "poll mc dh rnds ids ready recv (Suc fuel) i t out =
     (if i < length (conns t) then
        (let s = conn_sock (conns t ! i) in
         if ready s
         then c_bind (handle_message mc dh (rnds i) (ids i) t i (recv s)) (\<lambda>(t, ans).
              poll mc dh rnds ids ready recv fuel (i + 1) t (out @ ans))
         else poll mc dh rnds ids ready recv fuel (i + 1) t out)
      else Inr (t, out))"

definition server_round ::
    "machine \<Rightarrow> dir_handle_t \<Rightarrow> (nat \<Rightarrow> uint64) \<Rightarrow> (nat \<Rightarrow> uint64) \<Rightarrow> (int \<Rightarrow> bool) \<Rightarrow> (int \<Rightarrow> msg_t option)
     \<Rightarrow> int option \<Rightarrow> conn_table \<Rightarrow> (conn_table \<times> answers) c_result" where
  "server_round mc dh rnds ids ready recv new_socket t =
     c_bind (accept_connection (slots mc) t new_socket) (\<lambda>t.
     poll mc dh rnds ids ready recv (length (conns t)) 0 t [])"

inductive reachable :: "machine \<Rightarrow> dir_handle_t \<Rightarrow> conn_table \<Rightarrow> bool" for mc dh where
  start: "reachable mc dh conn_init"
| round: "reachable mc dh t \<Longrightarrow>
    server_round mc dh rnds ids ready recv new_socket t = Inr (t', out) \<Longrightarrow> reachable mc dh t'"

inductive_cases reachableE: "reachable mc dh t"

end
