(* ===== verification/Server_Correct.thy ===== *)
theory Server_Correct
  imports Server_Driver Message_Correct File_Handle_Correct Codec
begin

text \<open>
  Theorems on the server's main loop: an invariant of all states it can reach, and how it answers requests for
  channels.
\<close>

definition server_ok :: "conn_table \<Rightarrow> bool" where
  "server_ok t \<longleftrightarrow> counted t \<and> channel_count t \<le> 3
     \<and> (\<forall>c \<in> set (conns t). \<forall>ch \<in> set (chans c). chan_handle ch \<noteq> None)"

definition new_chan :: "machine \<Rightarrow> connection_t \<Rightarrow> msg_header_t \<Rightarrow> uint64 \<Rightarrow> file_handle_t \<Rightarrow> channel_t" where
  "new_chan mc c hdr self_id fh =
     (let ch = blank_channel
        \<lparr>chan_sock := conn_sock c, otherID := sendID hdr, selfID := self_id, maxSize := segmentNum hdr, chan_handle := Some fh\<rparr>
      in ch\<lparr>chan_thread := thread_for mc ch\<rparr>)"

subsection \<open>Each operation keeps the invariant\<close>

lemma reply_table: "reply t i rnd s d dt n c l = Inr (t', out) \<Longrightarrow> t' = t"
  by (auto simp: reply_def c_result_iff)

lemma ack_table: "ack_channel t i j rnd s = Inr (t', out) \<Longrightarrow> t' = t"
  by (auto simp: ack_channel_def Let_def c_result_iff split: option.splits dest: reply_table)

lemma refuse_table: "refuse t i rnd hdr = Inr (t', out) \<Longrightarrow> t' = t"
  by (simp add: refuse_def reply_table)

lemma server_ok_count: "server_ok t \<Longrightarrow> unat (totalChannels t) = channel_count t"
  by (simp add: server_ok_def counted_def unat_of_nat64)

lemma server_ok_update:
  assumes "server_ok t" "i < length (conns t)" "length (chans c) = length (chans (conns t ! i))"
    "\<forall>ch \<in> set (chans c). chan_handle ch \<noteq> None"
  shows "server_ok (t\<lparr>conns := (conns t)[i := c]\<rparr>)"
  using assms channel_count_update [OF assms(2), of c] set_update_subset_insert [of "conns t" i c]
  by (fastforce simp: server_ok_def counted_def)

lemma channel_handles:
  "server_ok t \<Longrightarrow> i < length (conns t) \<Longrightarrow> ch \<in> set (chans (conns t ! i)) \<Longrightarrow> chan_handle ch \<noteq> None"
  unfolding server_ok_def by (meson nth_mem)

lemma server_ok_set_channel:
  assumes "server_ok t" "i < length (conns t)" "chan_handle ch \<noteq> None"
  shows "server_ok (set_channel t i j ch)" "length (conns (set_channel t i j ch)) = length (conns t)"
proof -
  have "\<forall>x \<in> set ((chans (conns t ! i))[j := ch]). chan_handle x \<noteq> None"
    using channel_handles [OF assms(1,2)] assms(3) set_update_subset_insert [of "chans (conns t ! i)" j ch] by blast
  then show "server_ok (set_channel t i j ch)"
    unfolding set_channel_def by (intro server_ok_update assms) simp_all
qed (simp add: set_channel_def)

lemma set_array_remove: "j < length xs \<Longrightarrow> set (array_remove j xs) \<subseteq> set xs"
  by (auto simp: array_remove_eq dest: in_set_takeD in_set_dropD)

lemma end_channel_ok:
  assumes "server_ok t" "i < length (conns t)" "end_channel mc t i j = Inr t'"
  shows "server_ok t' \<and> length (conns t') = length (conns t)"
proof -
  note j = end_channel_Inr(2) [OF assms(3)] and c = end_channel_Inr(3-5) [OF assms(3)]
  have "counted t'"
    using assms(1) c(2) by (simp add: server_ok_def counted_def c(3) [symmetric])
  moreover have "set (array_remove j (chans (conns t ! i))) \<subseteq> set (chans (conns t ! i))"
    by (rule set_array_remove [OF j])
  then have "\<forall>c \<in> set (conns t'). \<forall>ch \<in> set (chans c). chan_handle ch \<noteq> None"
  proof (intro ballI)
    fix c' ch assume "c' \<in> set (conns t')" "ch \<in> set (chans c')"
    then consider "c' \<in> set (conns t)" | "ch \<in> set (chans (conns t ! i))"
      using set_update_subset_insert [of "conns t" i] \<open>set (array_remove j _) \<subseteq> _\<close> unfolding c(1) by fastforce
    then show "chan_handle ch \<noteq> None"
      using assms(1) channel_handles [OF assms(1,2)] \<open>ch \<in> set (chans c')\<close> by cases (auto simp: server_ok_def)
  qed
  ultimately show ?thesis
    using assms(1) c by (simp add: server_ok_def)
qed

lemma end_connection_ok:
  assumes "server_ok t" "i < length (conns t)" "end_connection mc t i = Inr t'"
  shows "server_ok t' \<and> length (conns t') \<le> length (conns t)"
proof -
  have "conns t' = take i (conns t) @ drop (Suc i) (conns t)"
    by (rule end_connection_Inr(1) [OF assms(2,3)])
  moreover have "counted t'" "channel_count t' \<le> channel_count t"
    using counted_end_connection [OF assms(2) _ assms(3)] assms(1) by (simp_all add: server_ok_def)
  ultimately show ?thesis
    using assms(1) by (auto simp: server_ok_def dest: in_set_takeD in_set_dropD)
qed

text \<open>The entry of a new channel, and the table after it was filled in.\<close>

abbreviation filled :: "machine \<Rightarrow> conn_table \<Rightarrow> nat \<Rightarrow> msg_header_t \<Rightarrow> uint64 \<Rightarrow> file_handle_t \<Rightarrow> channel_t" where
  "filled mc t i hdr self_id fh \<equiv>
     (let ch = (chans (conns t ! i) ! (length (chans (conns t ! i)) - 1))
        \<lparr>chan_sock := conn_sock (conns t ! i), otherID := sendID hdr, selfID := self_id, maxSize := segmentNum hdr, chan_handle := Some fh\<rparr>
      in ch\<lparr>chan_thread := thread_for mc ch\<rparr>)"

lemma new_channel_set:
  assumes "new_channel (slots mc) t i = Inr t1"
  defines "j \<equiv> length (chans (conns t1 ! i)) - 1"
  shows "set_channel t1 i j (filled mc t1 i hdr self_id fh)
    = \<lparr>conns = (conns t)[i := (conns t ! i)\<lparr>chans := chans (conns t ! i) @ [new_chan mc (conns t ! i) hdr self_id fh]\<rparr>],
       totalChannels = totalChannels t + 1\<rparr>" "j = length (chans (conns t ! i))"
proof -
  note n = new_channel_Inr [OF assms(1)]
  show j: "j = length (chans (conns t ! i))"
    using n(1) by (simp add: j_def n(2))
  have "filled mc t1 i hdr self_id fh = new_chan mc (conns t ! i) hdr self_id fh"
    using n(1) by (simp add: n(2) new_chan_def)
  then show "set_channel t1 i j (filled mc t1 i hdr self_id fh)
    = \<lparr>conns = (conns t)[i := (conns t ! i)\<lparr>chans := chans (conns t ! i) @ [new_chan mc (conns t ! i) hdr self_id fh]\<rparr>],
       totalChannels = totalChannels t + 1\<rparr>"
    unfolding j by (intro conn_table.equality) (use n(1,3) in \<open>simp_all add: set_channel_def n(2) list_update_append\<close>)
qed

lemma server_ok_new_chan:
  assumes "server_ok t" "i < length (conns t)" "\<not> MAX_CHANNELS \<le> totalChannels t"
  shows "server_ok \<lparr>conns = (conns t)[i := (conns t ! i)\<lparr>chans := chans (conns t ! i) @ [new_chan mc c hdr self_id fh]\<rparr>],
       totalChannels = totalChannels t + 1\<rparr>" (is "server_ok ?t")
proof -
  let ?c = "(conns t ! i)\<lparr>chans := chans (conns t ! i) @ [new_chan mc c hdr self_id fh]\<rparr>"
  have n: "channel_count ?t = Suc (channel_count t)"
    using channel_count_update [OF assms(2), of ?c] by (simp add: channel_count_def)
  have "channel_count t < 3"
    using assms(3) server_ok_count [OF assms(1)] by (simp add: MAX_CHANNELS_def word_le_nat_alt)
  moreover have "counted ?t"
    using assms(1) unfolding counted_def n by (simp add: server_ok_def counted_def)
  moreover have "chan_handle ch \<noteq> None" if "c' \<in> set (conns ?t)" "ch \<in> set (chans c')" for c' ch
  proof -
    from that consider "c' \<in> set (conns t)" | "ch \<in> set (chans ?c)"
      using set_update_subset_insert [of "conns t" i ?c] by fastforce
    then show ?thesis
      using assms(1) channel_handles [OF assms(1,2)] that(2) by cases (auto simp: server_ok_def new_chan_def Let_def)
  qed
  ultimately show ?thesis
    using n by (simp add: server_ok_def)
qed

lemma channel_request_ok:
  assumes "server_ok t" "i < length (conns t)" "channel_request mc dh rnd self_id t i m = Inr (t', out)"
  shows "server_ok t' \<and> length (conns t') = length (conns t)"
proof -
  let ?new = "\<lambda>t1 fh. set_channel t1 i (length (chans (conns t1 ! i)) - 1) (filled mc t1 i (head m) self_id fh)"
  obtain nm fhandle where *: "file_handle_for_file dh nm = Inr fhandle"
    "(case fhandle of
        None \<Rightarrow> reply t i rnd 0 (sendID (head m)) FIN 0 [] 0
      | Some fh \<Rightarrow>
          if totalChannels t \<ge> MAX_CHANNELS
          then reply t i rnd 0 (sendID (head m)) FIN 0 (content (body m)) (contentLength (head m))
          else (case find_existing_channel (conns t ! i) (sendID (head m)) 0 of
             Some j \<Rightarrow> ack_channel t i j rnd (sendID (head m))
           | None \<Rightarrow> c_bind (new_channel (slots mc) t i) (\<lambda>t1.
               ack_channel (?new t1 fh) i (length (chans (conns t1 ! i)) - 1) rnd (sendID (head m))))) = Inr (t', out)"
    using assms(3) unfolding channel_request_def Let_def c_bind_Inr_iff by blast
  show ?thesis
  proof (cases fhandle)
    case None
    then show ?thesis
      using * assms(1) by (auto dest: reply_table)
  next
    case (Some fh)
    show ?thesis
    proof (cases "MAX_CHANNELS \<le> totalChannels t \<or> find_existing_channel (conns t ! i) (sendID (head m)) 0 \<noteq> None")
      case True
      then have "t' = t"
        using *(2) by (auto simp: Some split: if_splits dest: reply_table ack_table)
      then show ?thesis
        using assms(1) by simp
    next
      case False
      then obtain t1 where t1: "new_channel (slots mc) t i = Inr t1" "t' = ?new t1 fh"
        using *(2) by (auto simp: Some c_bind_Inr_iff dest: ack_table)
      then show ?thesis
        using server_ok_new_chan [OF assms(1,2)] False by (simp only: new_channel_set(1) [OF t1(1)]) simp
    qed
  qed
qed

lemma close_request_ok:
  assumes "server_ok t" "i < length (conns t)" "close_request mc t i rnd hdr = Inr (t', out)"
  shows "server_ok t' \<and> length (conns t') = length (conns t)"
  using assms end_channel_ok [OF assms(1,2)]
  by (auto simp: close_request_def c_result_iff split: option.splits dest!: reply_table)

text \<open>What a message can do to the table.\<close>

lemma handle_message_cases:
  assumes "handle_message mc dh rnd self_id t i (Some m) = Inr (t', out)"
  obtains (same) "t' = t"
  | (closed) "end_connection mc t i = Inr t'"
  | (request) "channel_request mc dh rnd self_id t i m = Inr (t', out)"
  | (close) "close_request mc t i rnd (head m) = Inr (t', out)"
  | (ready) j s r where "find_existing_channel (conns t ! i) s r = Some j"
      "t' = set_channel t i j ((chans (conns t ! i) ! j)\<lparr>chan_ready := True\<rparr>)"
  | (resend) j s r where "find_existing_channel (conns t ! i) s r = Some j"
      "t' = set_channel t i j ((chans (conns t ! i) ! j)\<lparr>chan_value := Some m, chan_data := True\<rparr>)"
proof -
  obtain ok where ok: "verify_msg m = Inr ok"
    using assms by (auto simp: handle_message_def Let_def c_bind_Inr_iff)
  have h: "handle_message mc dh rnd self_id t i (Some m) = Inr (t', out)" by (fact assms)
  consider "\<not> ok" | "ok" "sendID (head m) = 0" "recvID (head m) = 0" | "ok" "sendID (head m) > 0" "recvID (head m) = 0"
    | "ok" "\<not> (sendID (head m) = 0 \<and> recvID (head m) = 0)" "\<not> (sendID (head m) > 0 \<and> recvID (head m) = 0)"
    by blast
  then show ?thesis
  proof cases
    case 1
    then show ?thesis
      using h same by (simp add: handle_message_def Let_def ok reply_table)
  next
    case 2
    then have "(if chanType (head m) = chan_code CONTROL \<and> dataType (head m) = data_code FIN
        then disconnect mc t i else refuse t i rnd (head m)) = Inr (t', out)"
      using h by (simp add: handle_message_def Let_def ok)
    then show ?thesis
      using same closed by (auto simp: disconnect_def c_bind_Inr_iff split: if_splits dest: refuse_table)
  next
    case 3
    then show ?thesis
      using h same request close by (simp add: handle_message_def Let_def ok refuse_table split: if_splits)
  next
    case 4
    then show ?thesis
      using h same close ready resend
      by (simp add: handle_message_def Let_def ok refuse_table split: if_splits option.splits)
  qed
qed

lemma handle_message_ok:
  assumes "server_ok t" "i < length (conns t)" "handle_message mc dh rnd self_id t i m = Inr (t', out)"
  shows "server_ok t' \<and> length (conns t') \<le> length (conns t)"
proof (cases m)
  case None
  then show ?thesis
    using assms(3) end_connection_ok [OF assms(1,2)] by (auto simp: handle_message_def disconnect_def c_result_iff)
next
  case (Some msg)
  note set_ok = server_ok_set_channel [OF assms(1,2)] and handles = channel_handles [OF assms(1,2)]
  show ?thesis
    using assms(3) [unfolded Some]
  proof (cases rule: handle_message_cases)
    case same
    then show ?thesis using assms(1) by simp
  next
    case closed
    then show ?thesis using end_connection_ok [OF assms(1,2)] by blast
  next
    case request
    then show ?thesis using channel_request_ok [OF assms(1,2)] by fastforce
  next
    case close
    then show ?thesis using close_request_ok [OF assms(1,2)] by fastforce
  next
    case (ready j s r)
    then show ?thesis
      using set_ok handles [of "chans (conns t ! i) ! j"] find_existing_channel_Some [OF ready(1)] by simp
  next
    case (resend j s r)
    then show ?thesis
      using set_ok handles [of "chans (conns t ! i) ! j"] find_existing_channel_Some [OF resend(1)] by simp
  qed
qed

lemma poll_ok:
  "server_ok t \<Longrightarrow> poll mc dh rnds ids ready recv fuel i t out = Inr (t', out') \<Longrightarrow> server_ok t'"
proof (induction fuel arbitrary: i t out)
  case 0
  then show ?case by (simp split: if_splits)
next
  case (Suc fuel)
  show ?case
  proof (cases "i < length (conns t) \<and> ready (conn_sock (conns t ! i))")
    case True
    then obtain t1 ans where "handle_message mc dh (rnds i) (ids i) t i (recv (conn_sock (conns t ! i))) = Inr (t1, ans)"
      "poll mc dh rnds ids ready recv fuel (i + 1) t1 (out @ ans) = Inr (t', out')"
      using Suc.prems(2) by (auto simp: Let_def c_bind_Inr_iff)
    then show ?thesis
      using Suc.IH handle_message_ok [OF Suc.prems(1)] True by blast
  next
    case False
    then show ?thesis
      using Suc by (auto simp: Let_def split: if_splits)
  qed
qed

text \<open>
  The scan visits at most as many indices as there were connections, so its fuel is enough: it ends when the threads it waits for do.
\<close>

definition threads_end :: "machine \<Rightarrow> bool" where
  "threads_end mc \<longleftrightarrow> freed_read mc \<noteq> Inl Diverges \<and> (\<forall>ch. joins mc ch \<noteq> Inl Diverges)"

lemma mem_read_ends [simp]: "mem_read a n b \<noteq> Inl Diverges"
  by (simp add: mem_read_def)

lemmas ends_simps = c_bind_Inl_iff c_guard_Inl_iff

lemma reply_ends: "reply t i rnd s d dt n c l \<noteq> Inl Diverges"
  by (auto simp: reply_def form_msg_def copy_void_def Let_def ends_simps)

lemma ack_ends: "ack_channel t i j rnd s \<noteq> Inl Diverges"
  by (auto simp: ack_channel_def num_segments_in_file_handle_def Let_def reply_ends ends_simps split: option.splits if_splits)

lemma handle_loop_ends: "handle_loop fhs nm \<noteq> Inl Diverges"
  by (induction fhs) (auto simp: compare_bytes_def ends_simps)

lemma channel_request_ends: "channel_request mc dh rnd self_id t i m \<noteq> Inl Diverges"
  by (auto simp: channel_request_def Let_def file_handle_for_file_def handle_loop_ends reply_ends ack_ends
      new_channel_def grow_array_def ends_simps split: option.splits if_splits)

lemma pthread_join_ends: "threads_end mc \<Longrightarrow> pthread_join mc ch \<noteq> Inl Diverges"
  by (simp add: threads_end_def pthread_join_def)

lemma close_request_ends: "threads_end mc \<Longrightarrow> close_request mc t i rnd hdr \<noteq> Inl Diverges"
  by (auto simp: close_request_def end_channel_def reply_ends pthread_join_ends ends_simps split: option.splits if_splits)

lemma disconnect_ends:
  assumes "threads_end mc" "i < length (conns t)"
  shows "disconnect mc t i \<noteq> Inl Diverges"
proof -
  have "end_connection mc t i \<noteq> Inl Diverges"
    using end_connection_result [OF assms(2), of mc] pthread_join_ends [OF assms(1)] by (auto split: if_splits)
  then show ?thesis
    using assms(1) by (auto simp: disconnect_def threads_end_def ends_simps)
qed

lemma verify_msg_ends: "verify_msg m \<noteq> Inl Diverges"
  by (auto simp: verify_msg_def verify_msg_alert_def parity_alert_def check_hparity_def ends_simps split: option.splits if_splits)

lemma handle_message_ends:
  assumes "threads_end mc" "i < length (conns t)"
  shows "handle_message mc dh rnd self_id t i m \<noteq> Inl Diverges"
  using disconnect_ends [OF assms] close_request_ends [OF assms(1)]
  by (auto simp: handle_message_def Let_def verify_msg_ends reply_ends refuse_def channel_request_ends ends_simps
      split: option.splits if_splits)

lemma poll_ends:
  "server_ok t \<Longrightarrow> threads_end mc \<Longrightarrow> length (conns t) \<le> i + fuel \<Longrightarrow>
   poll mc dh rnds ids ready recv fuel i t out \<noteq> Inl Diverges"
proof (induction fuel arbitrary: i t out)
  case (Suc fuel)
  have step: "poll mc dh rnds ids ready recv fuel (i + 1) t1 (out @ ans) \<noteq> Inl Diverges"
    if "i < length (conns t)" "handle_message mc dh (rnds i) (ids i) t i (recv (conn_sock (conns t ! i))) = Inr (t1, ans)" for t1 ans
    using handle_message_ok [OF Suc.prems(1) that] Suc.prems(2,3) by (intro Suc.IH) auto
  show ?case
    using step Suc.IH [of t "i + 1" out] Suc.prems handle_message_ends [OF Suc.prems(2)]
    by (auto simp: Let_def ends_simps)
qed simp

lemma accept_ok:
  assumes "server_ok t" "accept_connection usable t s = Inr t'"
  shows "server_ok t'"
proof (cases s)
  case None
  then show ?thesis
    using assms by (simp add: accept_connection_def)
next
  case (Some sock)
  then have "conns t' = conns t @ [\<lparr>conn_sock = sock, chans = []\<rparr>]" "totalChannels t' = totalChannels t"
    using assms(2) by (auto simp: accept_connection_def new_connection_def c_bind_Inr_iff Let_def list_update_append
        dest!: grow_array_Inr)
  then show ?thesis
    using assms(1) by (auto simp: server_ok_def counted_def channel_count_def)
qed

text \<open>One round of the loop, with any messages, disconnects and new connections, as a step relation.\<close>

definition server_step :: "machine \<Rightarrow> dir_handle_t \<Rightarrow> conn_table \<Rightarrow> conn_table \<Rightarrow> bool" where
  "server_step mc dh t t' \<longleftrightarrow>
     (\<exists>rnds ids ready recv new_socket out. server_round mc dh rnds ids ready recv new_socket t = Inr (t', out))"

interpretation srv: preserved "server_step mc dh" server_ok for mc dh
  by unfold_locales (auto simp: server_step_def server_round_def c_bind_Inr_iff dest: accept_ok poll_ok)

lemma reachable_steps: "reachable mc dh t \<Longrightarrow> (server_step mc dh)\<^sup>*\<^sup>* conn_init t"
proof (induction rule: reachable.induct)
  case (round t rnds ids ready recv new_socket t' out)
  then have "server_step mc dh t t'" unfolding server_step_def by (intro exI)
  with round.IH show ?case by (rule rtranclp.rtrancl_into_rtrancl)
qed simp

lemma reachable_ok: "reachable mc dh t \<Longrightarrow> server_ok t"
  using srv.run_inv [OF reachable_steps] by (simp add: server_ok_def counted_def channel_count_def conn_init_def)

subsection \<open>Answers to requests\<close>

definition control_msg :: "uint64 \<Rightarrow> uint64 \<Rightarrow> uint64 \<Rightarrow> DATA_TYPE \<Rightarrow> uint64 \<Rightarrow> bytes \<Rightarrow> msg_t" where
  "control_msg rnd sID rID dt n c =
     formed_msg (form_head rnd sID rID (chan_code CONTROL) (data_code dt) n (word_of_nat (length c))) c"

lemma reply_eq:
  assumes "length c < 65536" "clen = word_of_nat (length c)"
  shows "reply t i rnd sID rID dt n c clen = Inr (t, [(conn_sock (conns t ! i), control_msg rnd sID rID dt n c)])"
proof -
  have "unat clen = length c" using assms by (simp add: unat_of_nat32)
  then show ?thesis
    using assms form_msg_eq [of clen c rnd sID rID "chan_code CONTROL" "data_code dt" n]
    by (simp add: reply_def control_msg_def)
qed

text \<open>A request whose message carries the name of a file of the server.\<close>

definition asks_for :: "dir_handle_t \<Rightarrow> msg_t \<Rightarrow> file_handle_t \<Rightarrow> bool" where
  "asks_for dh m fh \<longleftrightarrow> unat (contentLength (head m)) = length (content (body m)) \<and> length (content (body m)) < 65536
     \<and> file_handle_for_file dh (content (body m)) = Inr (Some fh)"

lemma channel_request_found:
  assumes "asks_for dh m fh"
  shows "channel_request mc dh rnd self_id t i m =
     (if totalChannels t \<ge> MAX_CHANNELS
      then Inr (t, [(conn_sock (conns t ! i), control_msg rnd 0 (sendID (head m)) FIN 0 (content (body m)))])
      else (case find_existing_channel (conns t ! i) (sendID (head m)) 0 of
         Some j \<Rightarrow> ack_channel t i j rnd (sendID (head m))
       | None \<Rightarrow>
           c_bind (new_channel (slots mc) t i) (\<lambda>t.
           (let j = length (chans (conns t ! i)) - 1
            in ack_channel (set_channel t i j (filled mc t i (head m) self_id fh)) i j rnd (sendID (head m))))))"
proof -
  have "contentLength (head m) = word_of_nat (length (content (body m)))"
    using assms by (simp add: asks_for_def eq_commute [of _ "length _"])
  then have "reply t i rnd 0 (sendID (head m)) FIN 0 (content (body m)) (contentLength (head m)) =
      Inr (t, [(conn_sock (conns t ! i), control_msg rnd 0 (sendID (head m)) FIN 0 (content (body m)))])"
    using assms by (intro reply_eq) (simp_all add: asks_for_def)
  then show ?thesis
    using assms unfolding channel_request_def Let_def by (simp add: asks_for_def mem_read_def)
qed

lemma ack_channel_eq:
  assumes "chan_handle (chans (conns t ! i) ! j) = Some fh"
  shows "ack_channel t i j rnd d =
     c_bind (num_segments_in_file_handle fh (maxSize (chans (conns t ! i) ! j))) (\<lambda>n.
     Inr (t, [(conn_sock (conns t ! i), control_msg rnd (selfID (chans (conns t ! i) ! j)) d ACK n [])]))"
  using assms reply_eq [of "[]" 0] by (simp add: ack_channel_def Let_def)

lemma channel_request_new:
  assumes "asks_for dh m fh" "i < length (conns t)" "totalChannels t < MAX_CHANNELS"
    "find_existing_channel (conns t ! i) (sendID (head m)) 0 = None"
    "chans (conns t ! i) = [] \<or> length (chans (conns t ! i)) < slots mc (length (chans (conns t ! i)))"
  shows "channel_request mc dh rnd self_id t i m =
     c_bind (num_segments_in_file_handle fh (segmentNum (head m))) (\<lambda>n.
     Inr (\<lparr>conns = (conns t)[i := (conns t ! i)\<lparr>chans := chans (conns t ! i) @ [new_chan mc (conns t ! i) (head m) self_id fh]\<rparr>],
           totalChannels = totalChannels t + 1\<rparr>,
          [(conn_sock (conns t ! i), control_msg rnd self_id (sendID (head m)) ACK n [])]))"
proof -
  obtain t1 where t1: "new_channel (slots mc) t i = Inr t1"
    using assms(2,5) by (simp add: new_channel_def grow_array_ok)
  note n = new_channel_set [OF t1]
  let ?t = "\<lparr>conns = (conns t)[i := (conns t ! i)\<lparr>chans := chans (conns t ! i) @ [new_chan mc (conns t ! i) (head m) self_id fh]\<rparr>],
           totalChannels = totalChannels t + 1\<rparr>"
  have "channel_request mc dh rnd self_id t i m = ack_channel ?t i (length (chans (conns t ! i))) rnd (sendID (head m))"
    using assms(3,4) n(1) [unfolded n(2)]
    by (simp only: channel_request_found [OF assms(1)] t1 Let_def option.case c_bind_simps n(2) not_le [symmetric] if_False)
  also have "\<dots> = c_bind (num_segments_in_file_handle fh (segmentNum (head m))) (\<lambda>n.
     Inr (?t, [(conn_sock (conns t ! i), control_msg rnd self_id (sendID (head m)) ACK n [])]))"
    using assms(2) by (subst ack_channel_eq [of _ _ _ fh]) (simp_all add: new_chan_def Let_def)
  finally show ?thesis .
qed

subsection \<open>Properties\<close>

text \<open>
  In every state the server can reach, from any messages, disconnects and new connections, the channel counter is
  the number of channels in the table, there are at most \<^verbatim>\<open>MAX_CHANNELS\<close> of them in all, and every channel
  has a file.
\<close>

theorem server_channel_limit:
  assumes "reachable mc dh t"
  shows "unat (totalChannels t) = sum_list (map (\<lambda>c. length (chans c)) (conns t))
     \<and> totalChannels t \<le> MAX_CHANNELS
     \<and> list_all (\<lambda>c. list_all (\<lambda>ch. chan_handle ch \<noteq> None) (chans c)) (conns t)"
  using reachable_ok [OF assms] server_ok_count [OF reachable_ok [OF assms]]
  by (simp add: server_ok_def channel_count_def MAX_CHANNELS_def word_le_nat_alt list_all_iff)

theorem server_channel_limit_witness:
  "unat (totalChannels \<lparr>conns = [\<lparr>conn_sock = 5, chans = []\<rparr>], totalChannels = 0\<rparr>) =
     sum_list (map (\<lambda>c. length (chans c)) (conns \<lparr>conns = [\<lparr>conn_sock = 5, chans = []\<rparr>], totalChannels = 0\<rparr>))
   \<and> totalChannels \<lparr>conns = [\<lparr>conn_sock = 5, chans = []\<rparr>], totalChannels = 0\<rparr> \<le> MAX_CHANNELS
   \<and> list_all (\<lambda>c. list_all (\<lambda>ch. chan_handle ch \<noteq> None) (chans c)) (conns \<lparr>conns = [\<lparr>conn_sock = 5, chans = []\<rparr>], totalChannels = 0\<rparr>)"
proof (rule server_channel_limit)
  have "server_round sample_machine \<lparr>handles = [], dir = []\<rparr> (\<lambda>_. 0) (\<lambda>_. 300) (\<lambda>_. False) (\<lambda>_. None) (Some 5) conn_init =
      Inr (\<lparr>conns = [\<lparr>conn_sock = 5, chans = []\<rparr>], totalChannels = 0\<rparr>, [])"
    by (simp add: server_round_def accept_connection_def new_connection_def conn_init_def grow_array_def)
  then show "reachable sample_machine \<lparr>handles = [], dir = []\<rparr> \<lparr>conns = [\<lparr>conn_sock = 5, chans = []\<rparr>], totalChannels = 0\<rparr>"
    by (rule reachable.round [OF reachable.start])
qed

text \<open>
  C22. A first request for a file opens one channel: it is added to the requesting connection with the file, the
  requested segment size, the requester's number and the number of its new thread, and the answer announces the channel's own number and the
  number of segments of the file. When the connection already has channels and the allocator provides no spare slot,
  adding the channel writes past the end of the array; otherwise a request with segment size 0 divides by zero.
\<close>

theorem channel_created:
  fixes self_id :: uint64
  assumes "asks_for dh m fh" "i < length (conns t)" "totalChannels t < MAX_CHANNELS"
    "find_existing_channel (conns t ! i) (sendID (head m)) 0 = None"
  defines "chs \<equiv> chans (conns t ! i)"
    and "ch \<equiv> blank_channel\<lparr>chan_sock := conn_sock (conns t ! i), otherID := sendID (head m), selfID := self_id,
                 maxSize := segmentNum (head m), chan_handle := Some fh\<rparr>"
  shows "channel_request mc dh rnd self_id t i m =
     (if chs \<noteq> [] \<and> slots mc (length chs) \<le> length chs then Inl OOB_Write
      else if segmentNum (head m) = 0 then Inl Div_By_Zero
      else Inr (\<lparr>conns = (conns t)[i := (conns t ! i)\<lparr>chans := chs @ [ch\<lparr>chan_thread := thread_for mc ch\<rparr>]\<rparr>],
           totalChannels = totalChannels t + 1\<rparr>,
          [(conn_sock (conns t ! i), control_msg rnd self_id (sendID (head m)) ACK
              (if fileSize fh mod segmentNum (head m) = 0 then fileSize fh div segmentNum (head m)
               else fileSize fh div segmentNum (head m) + 1) [])]))"
proof (cases "chs \<noteq> [] \<and> slots mc (length chs) \<le> length chs")
  case True
  then show ?thesis
    using assms(2-4) by (simp add: channel_request_found [OF assms(1)] new_channel_def grow_array_def chs_def not_le [symmetric])
next
  case False
  then have "chans (conns t ! i) = [] \<or> length (chans (conns t ! i)) < slots mc (length (chans (conns t ! i)))"
    by (auto simp: chs_def)
  from channel_request_new [OF assms(1-4) this] False show ?thesis
    by (auto simp: num_segments_in_file_handle_def new_chan_def chs_def ch_def Let_def)
qed

definition sample_handle :: file_handle_t where
  "sample_handle = \<lparr>pointer = Some [1, 2, 3], pointerStatus = True, path = [97], fileName = [97], fileSize = 3\<rparr>"

definition sample_dir :: dir_handle_t where
  "sample_dir = \<lparr>handles = [sample_handle], dir = [46]\<rparr>"

definition sample_request :: msg_t where
  "sample_request = formed_msg (form_head 7 100 0 (chan_code CONTROL) (data_code SYN) 2 1) [97]"

lemma sample_asks: "asks_for sample_dir sample_request sample_handle"
  by (simp add: asks_for_def sample_request_def formed_msg_def sample_dir_def sample_handle_def file_handle_for_file_def
      compare_bytes_eq)

text \<open>Three bytes in segments of two are two segments; the second channel of the connection overruns the array.\<close>

definition one_channel :: conn_table where
  "one_channel = \<lparr>conns = [\<lparr>conn_sock = 5, chans =
     [new_chan sample_machine \<lparr>conn_sock = 5, chans = []\<rparr> (head sample_request) 300 sample_handle]\<rparr>], totalChannels = 1\<rparr>"

lemmas sample_simps = sample_machine_def sample_handle_def sample_request_def one_channel_def new_chan_def formed_msg_def form_head_def

theorem channel_created_witness:
  "channel_request sample_machine sample_dir 9 300 \<lparr>conns = [\<lparr>conn_sock = 5, chans = []\<rparr>], totalChannels = 0\<rparr> 0 sample_request =
     Inr (one_channel, [(5, control_msg 9 300 100 ACK 2 [])])
   \<and> channel_request sample_machine sample_dir 9 301 one_channel 0 (sample_request\<lparr>head := (head sample_request)\<lparr>sendID := 101\<rparr>\<rparr>) =
     Inl OOB_Write"
proof -
  have "asks_for sample_dir (sample_request\<lparr>head := (head sample_request)\<lparr>sendID := 101\<rparr>\<rparr>) sample_handle"
    using sample_asks by (simp add: asks_for_def)
  from channel_created [OF this, of 0 one_channel sample_machine] show ?thesis
    using channel_created [OF sample_asks, of 0 "\<lparr>conns = [\<lparr>conn_sock = 5, chans = []\<rparr>], totalChannels = 0\<rparr>" sample_machine]
    by (simp add: sample_simps MAX_CHANNELS_def find_existing_channel_def Let_def)
qed

text \<open>
  C23. A repeated request (the client asks again when the answer was damaged) does not open a second channel and is
  answered with the same numbers as the first one, except when all channels are in use: then the request
  for a channel that exists is refused, since the limit is tested before the lookup.
\<close>

theorem channel_request_repeated:
  assumes "asks_for dh m fh" "find_existing_channel (conns t ! i) (sendID (head m)) 0 = Some j"
    "chans (conns t ! i) ! j = ch" "chan_handle ch = Some fh'" "num_segments_in_file_handle fh' (maxSize ch) = Inr n"
  shows "channel_request mc dh rnd self_id t i m = Inr (t, [(conn_sock (conns t ! i),
     if MAX_CHANNELS \<le> totalChannels t then control_msg rnd 0 (sendID (head m)) FIN 0 (content (body m))
     else control_msg rnd (selfID ch) (sendID (head m)) ACK n [])])"
  using assms ack_channel_eq [of t i j fh'] by (simp add: channel_request_found)

theorem channel_request_repeated_witness:
  "channel_request sample_machine sample_dir 9 301 one_channel 0 sample_request =
   Inr (one_channel, [(5, control_msg 9 300 100 ACK 2 [])])"
  using channel_request_repeated [OF sample_asks, of one_channel 0 0 "chans (conns one_channel ! 0) ! 0" sample_handle 2]
  by (simp add: find_existing_channel_def num_segments_in_file_handle_def sample_simps MAX_CHANNELS_def word_le_nat_alt Let_def)

end
