(* ===== verification/Msg_Types.thy ===== *)
theory Msg_Types
  imports Server_Correct Client_Correct Frame_Codec
begin

text \<open>
  What kind of messages the programs exchange. A message is well typed when its lengths agree with its arrays, its kinds are
  members of the two enumerations, header and trailer agree, and it verifies; such a message has a frame that every
  receiver decodes to it. Every message that the server, the thread of a channel or the client forms is well
  typed, provided that what they received is not larger than the parser admits.
\<close>

definition well_typed :: "msg_t \<Rightarrow> bool" where
  "well_typed m \<longleftrightarrow> good_msg m \<and> mbz (head m) = 0 \<and> head m = trail m \<and> verify_msg m = Inr True
     \<and> chanType (head m) \<in> {chan_code DATA, chan_code CONTROL}
     \<and> dataType (head m) \<in> {data_code SYN, data_code ACK, data_code RTS, data_code NACK, data_code FIN}"

lemma formed_well_typed:
  assumes "unat clen < 65536" "length c = unat clen"
  shows "well_typed (formed_msg (form_head r s d (chan_code ct) (data_code dt) n clen) c)"
proof -
  have "chan_code ct \<in> {chan_code DATA, chan_code CONTROL}" by (cases ct) simp_all
  moreover have "data_code dt \<in> {data_code SYN, data_code ACK, data_code RTS, data_code NACK, data_code FIN}" by (cases dt) simp_all
  ultimately show ?thesis
    using formed_good [OF assms] formed_verifies [OF assms] by (simp add: well_typed_def) (simp add: formed_msg_def form_head_def)
qed

lemma form_msg_well_typed:
  assumes "unat clen \<le> length src" "unat clen < 65536"
  shows "\<exists>m. form_msg r s d (chan_code ct) (data_code dt) n src clen = Inr m \<and> well_typed m"
  using form_msg_eq [OF assms] formed_well_typed [OF assms(2), of "take (unat clen) src"] assms by simp

subsection \<open>The server\<close>

definition typed_to :: "conn_table \<Rightarrow> nat \<Rightarrow> answers \<Rightarrow> bool" where
  "typed_to t i out \<longleftrightarrow> list_all (\<lambda>(s, m). s = conn_sock (conns t ! i) \<and> well_typed m) out"

lemma reply_typed:
  assumes "unat clen \<le> length c" "unat clen < 65536" "reply t i rnd sID rID dt n c clen = Inr (t', out)"
  shows "typed_to t i out"
  using form_msg_well_typed [OF assms(1,2), of rnd sID rID CONTROL dt n] assms(3)
  by (auto simp: reply_def c_result_iff typed_to_def)

lemma reply_empty_typed: "reply t i rnd sID rID dt n [] 0 = Inr (t', out) \<Longrightarrow> typed_to t i out"
  by (rule reply_typed) simp_all

lemma refuse_typed: "refuse t i rnd hdr = Inr (t', out) \<Longrightarrow> typed_to t i out"
  unfolding refuse_def by (rule reply_empty_typed)

lemma ack_typed: "ack_channel t i j rnd s = Inr (t', out) \<Longrightarrow> typed_to t i out"
  by (auto simp: ack_channel_def Let_def c_result_iff split: option.splits dest: reply_empty_typed)

lemma typed_Nil [simp]: "typed_to t i []"
  by (simp add: typed_to_def)

text \<open>The sockets of the table; only accepting and disconnecting change them.\<close>

abbreviation socks :: "conn_table \<Rightarrow> int list" where
  "socks t \<equiv> map conn_sock (conns t)"

lemma socks_update: "i < length cs \<Longrightarrow> map conn_sock (cs[i := (cs ! i)\<lparr>chans := x\<rparr>]) = map conn_sock cs"
  by (intro nth_equalityI) (auto simp: nth_list_update)

lemma same_sock:
  assumes "typed_to t' i out" "socks t' = socks t" "i < length (conns t)"
  shows "typed_to t i out"
proof -
  have "socks t' ! i = socks t ! i" "length (conns t') = length (conns t)"
    using assms(2) by (simp, metis length_map)
  then show ?thesis using assms(1,3) by (simp add: typed_to_def)
qed

lemma socks_set_channel: "i < length (conns t) \<Longrightarrow> socks (set_channel t i j ch) = socks t"
  by (simp add: set_channel_def socks_update)

lemma socks_new_channel: "new_channel usable t i = Inr t' \<Longrightarrow> i < length (conns t) \<and> socks t' = socks t"
  by (auto simp: new_channel_def c_result_iff socks_update)

lemma socks_end_channel: "end_channel mc t i j = Inr t' \<Longrightarrow> socks t' = socks t"
  by (auto simp: end_channel_def c_result_iff socks_update)

lemma socks_end_connection: "i < length (conns t) \<Longrightarrow> end_connection mc t i = Inr t' \<Longrightarrow> set (socks t') \<subseteq> set (socks t)"
  using end_connection_Inr(1) [of i t mc t'] by (auto dest: in_set_takeD in_set_dropD)

lemma close_request_typed:
  assumes "i < length (conns t)" "close_request mc t i rnd hdr = Inr (t', out)"
  shows "typed_to t i out \<and> socks t' = socks t"
proof -
  obtain t1 where t1: "reply t1 i rnd 0 (sendID hdr) FIN 0 [] 0 = Inr (t', out)" "socks t1 = socks t"
    using assms(2) by (auto simp: close_request_def c_result_iff split: option.splits dest: socks_end_channel)
  then show ?thesis
    using same_sock [OF reply_empty_typed [OF t1(1)] t1(2) assms(1)] reply_table [OF t1(1)] by simp
qed

lemma channel_request_typed:
  assumes "i < length (conns t)" "layout_ok m" "channel_request mc dh rnd self_id t i m = Inr (t', out)"
  shows "typed_to t i out \<and> socks t' = socks t"
proof -
  let ?sid = "sendID (head m)"
  have full: "reply t i rnd 0 ?sid FIN 0 (content (body m)) (contentLength (head m)) = Inr (t', out) \<Longrightarrow> typed_to t i out"
    using assms(2) by (intro reply_typed) (simp_all add: layout_ok_def)
  consider (none) "reply t i rnd 0 ?sid FIN 0 [] 0 = Inr (t', out)"
    | (limit) "reply t i rnd 0 ?sid FIN 0 (content (body m)) (contentLength (head m)) = Inr (t', out)"
    | (old) j where "ack_channel t i j rnd ?sid = Inr (t', out)"
    | (new) t1 j ch where "new_channel (slots mc) t i = Inr t1" "ack_channel (set_channel t1 i j ch) i j rnd ?sid = Inr (t', out)"
    using assms(3) unfolding channel_request_def Let_def c_bind_Inr_iff
    by (fastforce split: option.splits if_splits simp: c_bind_Inr_iff)
  then show ?thesis
  proof cases
    case none
    then show ?thesis using reply_empty_typed reply_table by blast
  next
    case limit
    then show ?thesis using full reply_table by blast
  next
    case old
    then show ?thesis using ack_typed ack_table by blast
  next
    case new
    have s: "socks (set_channel t1 i j ch) = socks t"
      using socks_new_channel [OF new(1)] socks_set_channel [of i t1] by (metis length_map)
    show ?thesis
      using same_sock [OF ack_typed [OF new(2)] s assms(1)] ack_table [OF new(2)] s by simp
  qed
qed

definition keeps_types :: "conn_table \<Rightarrow> nat \<Rightarrow> conn_table \<times> answers \<Rightarrow> bool" where
  "keeps_types t i res \<longleftrightarrow> typed_to t i (snd res) \<and> set (socks (fst res)) \<subseteq> set (socks t)"

lemma keeps_types:
  assumes "i < length (conns t)"
  shows "layout_ok m \<Longrightarrow> channel_request mc dh rnd self_id t i m = Inr res \<Longrightarrow> keeps_types t i res"
    "close_request mc t i rnd hdr = Inr res \<Longrightarrow> keeps_types t i res"
    "reply t i rnd sID rID dt n [] 0 = Inr res \<Longrightarrow> keeps_types t i res"
    "refuse t i rnd hdr = Inr res \<Longrightarrow> keeps_types t i res"
    "end_connection mc t i = Inr t' \<Longrightarrow> keeps_types t i (t', [])"
    "keeps_types t i (set_channel t i j ch, [])"
  using channel_request_typed [OF assms, of m mc dh rnd self_id] close_request_typed [OF assms, of mc rnd hdr]
    reply_empty_typed [of t i rnd sID rID dt n] reply_table [of t i rnd sID rID dt n "[]" 0]
    refuse_typed [of t i rnd hdr] refuse_table [of t i rnd hdr] socks_end_connection [OF assms, of mc] socks_set_channel [OF assms]
  by (cases res; simp add: keeps_types_def; fastforce)+

lemma handle_message_typed:
  assumes "i < length (conns t)" "pred_option layout_ok r" "handle_message mc dh rnd self_id t i r = Inr res"
  shows "keeps_types t i res"
proof (cases r)
  case None
  then show ?thesis
    using assms(3) keeps_types(5) [OF assms(1)] by (auto simp: handle_message_def disconnect_def c_result_iff)
next
  case (Some m)
  have m: "layout_ok m" using assms(2) Some by simp
  obtain ok where ok: "verify_msg m = Inr ok"
    using assms(3) Some by (auto simp: handle_message_def Let_def c_bind_Inr_iff)
  note h = assms(3) [unfolded Some handle_message_def option.case Let_def ok c_bind_simps]
  note k = keeps_types [OF assms(1)]
  show ?thesis
    using h k(1) [OF m] k(2-6) by (auto simp: disconnect_def c_bind_Inr_iff split: if_splits option.splits)
qed

definition typed_answers :: "int set \<Rightarrow> answers \<Rightarrow> bool" where
  "typed_answers ss out \<longleftrightarrow> list_all (\<lambda>(s, m). s \<in> ss \<and> well_typed m) out"

lemma poll_typed:
  assumes "\<forall>s. pred_option layout_ok (recv s)" "typed_answers ss out" "set (socks t) \<subseteq> ss"
    "poll mc dh rnds ids ready recv fuel i t out = Inr (t', out')"
  shows "typed_answers ss out' \<and> set (socks t') \<subseteq> ss"
  using assms(2-4)
proof (induction fuel arbitrary: i t out)
  case 0
  then show ?case by (simp split: if_splits)
next
  case (Suc fuel)
  show ?case
  proof (cases "i < length (conns t) \<and> ready (conn_sock (conns t ! i))")
    case True
    then obtain t1 ans where h: "handle_message mc dh (rnds i) (ids i) t i (recv (conn_sock (conns t ! i))) = Inr (t1, ans)"
      "poll mc dh rnds ids ready recv fuel (i + 1) t1 (out @ ans) = Inr (t', out')"
      using Suc.prems(3) by (auto simp: Let_def c_result_iff)
    have ty: "typed_to t i ans" "set (socks t1) \<subseteq> set (socks t)"
      using handle_message_typed [OF _ _ h(1)] True assms(1) by (auto simp: keeps_types_def)
    have "conn_sock (conns t ! i) \<in> ss" using True Suc.prems(2) by auto
    then have "typed_answers ss (out @ ans)"
      using ty(1) Suc.prems(1) by (auto simp: typed_answers_def typed_to_def list_all_iff)
    then show ?thesis using Suc.IH [OF _ _ h(2)] ty(2) Suc.prems(2) by blast
  next
    case False
    then show ?thesis using Suc.prems Suc.IH [OF Suc.prems(1,2)] by (auto simp: Let_def split: if_splits)
  qed
qed

lemma accept_socks:
  "accept_connection usable t new_socket = Inr t' \<Longrightarrow> set (socks t') \<subseteq> set (socks t) \<union> set_option new_socket"
  by (auto simp: accept_connection_def new_connection_def c_result_iff Let_def split: option.splits
      dest!: grow_array_Inr set_mp [OF set_update_subset_insert])

lemma server_round_typed:
  assumes "\<forall>s. pred_option layout_ok (recv s)" "server_round mc dh rnds ids ready recv new_socket t = Inr (t', out)"
  shows "typed_answers (set (socks t) \<union> set_option new_socket) out
     \<and> set (socks t') \<subseteq> set (socks t) \<union> set_option new_socket"
proof -
  obtain t1 where t1: "accept_connection (slots mc) t new_socket = Inr t1"
    "poll mc dh rnds ids ready recv (length (conns t1)) 0 t1 [] = Inr (t', out)"
    using assms(2) by (auto simp: server_round_def c_result_iff)
  show ?thesis
    using poll_typed [OF assms(1) _ accept_socks [OF t1(1)] t1(2)] by (simp add: typed_answers_def)
qed

subsection \<open>The thread of a channel\<close>

text \<open>A segment is never longer than the segment size, whatever the file, its recorded size and the number asked for.\<close>

lemma segment_length:
  assumes "segment_in_file_handle g fh k ss = Inr (Some b)"
  shows "length b \<le> unat ss"
proof -
  obtain n where n: "num_segments_in_file_handle fh ss = Inr n" "k \<le> n" "k \<noteq> 0"
    using assms by (auto simp: segment_in_file_handle_def c_result_iff split: if_splits)
  let ?start = "(k - 1) * ss"
  let ?len = "if ?start + ss > fileSize fh then fileSize fh - ?start else ss"
  have d: "length b = unat ?len"
    using assms n(1,3) leD [OF n(2)] by (auto simp: segment_in_file_handle_def Let_def split: option.splits)
  have k: "unat (k - 1) = unat k - 1" using n(3) by (simp add: unat_minus_one)
  have "unat k - 1 < unat n" using n(2,3) by (simp add: word_le_nat_alt) (metis Suc_le_lessD Suc_pred unat_gt_0)
  then have lt: "(unat k - 1) * unat ss < unat (fileSize fh)"
    using segment_start num_segments_unat [OF n(1)] by metis
  then have start: "unat ?start = (unat k - 1) * unat ss"
    using unat64_bound [of "fileSize fh"] by (simp add: unat_word_ariths k)
  have "unat ?len \<le> unat ss"
  proof (cases "?start + ss > fileSize fh")
    case True
    have "unat (?start + ss) \<le> unat ?start + unat ss"
      unfolding unat_word_ariths(1) by (rule mod_less_eq_dividend)
    then have "unat (fileSize fh) < unat ?start + unat ss"
      using True by (simp add: word_less_nat_alt)
    moreover have "unat (fileSize fh - ?start) = unat (fileSize fh) - unat ?start"
      using lt start by (intro unat_sub) (simp add: word_le_nat_alt)
    ultimately show ?thesis using True by simp
  qed simp
  then show ?thesis unfolding d .
qed

lemma segment_msg_typed:
  assumes "unat (maxSize ch) < 65536" "segment_msg g rnd ch fh k = Inr m"
  shows "well_typed m"
proof -
  obtain r where r: "segment_in_file_handle g fh k (maxSize ch) = Inr r"
    using assms(2) by (auto simp: segment_msg_def c_result_iff)
  define b where "b = (case r of None \<Rightarrow> [] | Some b \<Rightarrow> b)"
  have b: "length b \<le> unat (maxSize ch)"
    "form_msg rnd (selfID ch) (otherID ch) (chan_code DATA) (data_code SYN) k b (word_of_nat (length b)) = Inr m"
    using assms(2) segment_length [of g fh k "maxSize ch"] r by (auto simp: segment_msg_def Let_def b_def split: option.splits)
  then have "unat (word_of_nat (length b) :: uint32) = length b" using assms(1) by (intro unat_of_nat32) simp
  then show ?thesis
    using form_msg_well_typed [of "word_of_nat (length b)" b rnd "selfID ch" "otherID ch" DATA SYN k] b assms(1) by simp
qed

lemma thread_step_typed:
  assumes "unat (maxSize ch) < 65536" "thread_step g rnd th ch = Inr (th', ch', ms)"
  shows "list_all well_typed ms \<and> maxSize ch' = maxSize ch"
proof -
  obtain th1 ch1 where r: "relay th ch = Inr (th1, ch1)" "maxSize ch1 = maxSize ch"
    using assms(2) by (auto simp: thread_step_def thread_work_def c_result_iff relay_def split: option.splits if_splits)
  then show ?thesis
    using assms(2) segment_msg_typed [of ch1] assms(1)
    by (auto simp: thread_step_def thread_work_def c_result_iff Let_def split: option.splits if_splits)
qed

lemma thread_loop_typed:
  "unat (maxSize ch) < 65536 \<Longrightarrow> list_all well_typed out \<Longrightarrow> thread_loop g rnds th ch evs out = Inr (st, th', ch', out')
   \<Longrightarrow> list_all well_typed out'"
proof (induction evs arbitrary: th ch out)
  case Nil
  then show ?case by (auto simp: c_result_iff split: if_splits)
next
  case (Cons ev evs)
  have e: "maxSize (apply_event ev c) = maxSize c" for c by (cases ev) simp_all
  show ?case
  proof (cases "chan_kill ch")
    case False
    then obtain th1 ch1 ms where s: "thread_step g (rnds (length out)) th ch = Inr (th1, ch1, ms)"
      "thread_loop g rnds th1 (apply_event ev ch1) evs (out @ ms) = Inr (st, th', ch', out')"
      using Cons.prems(3) by (auto simp: c_result_iff)
    then show ?thesis
      using Cons.IH [OF _ _ s(2)] thread_step_typed [OF Cons.prems(1) s(1)] Cons.prems(1,2) by (simp add: e)
  qed (use Cons.prems in \<open>auto simp: c_result_iff\<close>)
qed

lemma thread_typed:
  assumes "unat (maxSize ch) < 65536" "fork_server_channel g rnds ch evs = Inr (st, th, ch', sent)"
  shows "list_all well_typed sent"
proof -
  have e: "maxSize (apply_event ev c) = maxSize c" for ev c by (cases ev) simp_all
  have "maxSize (fst (wait_ready ch evs)) = maxSize ch"
    by (induction ch evs rule: wait_ready.induct) (auto simp: e)
  then show ?thesis
    using thread_loop_typed [of "fst (wait_ready ch evs)" "[]" g rnds thread_init] assms
    by (auto simp: fork_server_channel_def Let_def split: prod.splits)
qed

subsection \<open>The client\<close>

lemma send_control_typed:
  assumes "send_control rnds sent sid oid dt n c clen = Inr sent'" "unat clen \<le> length c" "unat clen < 65536" "list_all well_typed sent"
  shows "list_all well_typed sent'"
  using form_msg_well_typed [OF assms(2,3), of "rnds (length sent)" sid oid CONTROL dt n] assms(1,4)
  by (auto simp: send_control_def c_result_iff)

lemma send_empty_typed: "send_control rnds sent sid oid dt n [] 0 = Inr sent' \<Longrightarrow> list_all well_typed sent \<Longrightarrow> list_all well_typed sent'"
  using send_control_typed [of rnds sent sid oid dt n "[]" 0] by simp

lemma establish_typed:
  assumes "unat fl \<le> length file" "unat fl < 65536"
  shows "establish_loop stale rnds sid oid ms file fl rs sent = Inr (sent', r) \<Longrightarrow> list_all well_typed sent \<Longrightarrow> list_all well_typed sent'"
  by (induction rs arbitrary: sent)
    (auto simp: c_result_iff split: option.splits if_splits dest: send_control_typed [OF _ assms])

lemma gather_again_typed:
  "gather_again rnds sid oid ms n rs f sec sent = Inr (sent', r) \<Longrightarrow> list_all well_typed sent \<Longrightarrow> list_all well_typed sent'"
proof (induction rs arbitrary: f sec sent)
  case Nil
  then show ?case by (auto simp: c_result_iff split: option.splits if_splits dest: send_empty_typed)
next
  case (Cons x rs)
  then show ?case
    by (auto simp: c_result_iff split: option.splits if_splits) (blast dest: send_empty_typed Cons.IH)+
qed

lemma gather_file_typed:
  assumes "gather_file opens rnds sid oid ms n rs sent = Inr (sent', r)" "list_all well_typed sent"
  shows "list_all well_typed sent'"
proof (cases "n = 0")
  case False
  then obtain res where res: "gather_packets n 0 rs (fopen_wb opens) create_section = Inr res"
    using assms by (auto simp: gather_file_def c_result_iff)
  then show ?thesis
    using assms False by (cases res) (auto simp: gather_file_def split: if_splits dest: gather_again_typed)
qed (use assms in \<open>simp add: gather_file_def\<close>)

lemma cease_channel_typed:
  "cease_channel rnds sid oid rs sent = Inr (sent', r) \<Longrightarrow> list_all well_typed sent \<Longrightarrow> list_all well_typed sent'"
  by (cases rs) (auto simp: cease_channel_def c_result_iff split: option.splits dest: send_empty_typed)

end
