(* ===== verification/Log_Format_Correct.thy ===== *)
theory Log_Format_Correct
  imports Log_Format
begin

text \<open>
  Theorems on the log lines: their fields can be read back, and what they hold.
\<close>

fun read_dec :: "string \<Rightarrow> nat \<Rightarrow> nat" where
  "read_dec [] acc = acc"
| "read_dec (c # s) acc = read_dec s (10 * acc + (of_char c - 48))"

definition read_int :: "string \<Rightarrow> int" where
  "read_int s = (case s of c # s' \<Rightarrow> if c = CHR ''-'' then - int (read_dec s' 0) else int (read_dec s 0) | [] \<Rightarrow> 0)"

subsection \<open>Numbers\<close>

lemma of_char_digit: "n < 10 \<Longrightarrow> (of_char (digit n) :: nat) = 48 + n"
  by (simp add: digit_def)

lemma digit_not: "n < 10 \<Longrightarrow> (of_char c :: nat) < 48 \<Longrightarrow> digit n \<noteq> c"
  using of_char_digit [of n] by auto

lemma dec_chars: "c \<in> set (dec n) \<Longrightarrow> \<exists>k<10. c = digit k"
proof (induction n arbitrary: c rule: dec.induct)
  case (1 n)
  show ?case
  proof (cases "n < 10")
    case True
    then show ?thesis
      using 1(2) by (subst (asm) dec.simps) auto
  next
    case False
    then show ?thesis
      using 1 by (subst (asm) (2) dec.simps) (auto intro: exI [of _ "n mod 10"])
  qed
qed

lemma dec_not_Nil [simp]: "dec n \<noteq> []"
  by (subst dec.simps) simp

lemma read_dec_append: "read_dec (xs @ [c]) acc = 10 * read_dec xs acc + (of_char c - 48)"
  by (induction xs arbitrary: acc) simp_all

lemma read_dec_dec: "read_dec (dec n) 0 = n"
proof (induction n rule: dec.induct)
  case (1 n)
  show ?case
    using 1 by (subst dec.simps) (auto simp: read_dec_append of_char_digit)
qed

lemma dec_no_sign: "(of_char c :: nat) < 48 \<Longrightarrow> c \<notin> set (dec n)"
  using dec_chars [of c n] digit_not by blast

lemma read_int_c_int: "read_int (c_int i) = i"
proof (cases "i < 0")
  case True
  then show ?thesis
    by (simp add: read_int_def c_int_def read_dec_dec)
next
  case False
  obtain c s where d: "dec (nat i) = c # s"
    by (cases "dec (nat i)") simp_all
  then have "c \<noteq> CHR ''-''"
    using dec_no_sign [of "CHR ''-''" "nat i"] by auto
  then show ?thesis
    using False read_dec_dec [of "nat i"] by (simp add: read_int_def c_int_def d)
qed

subsection \<open>Fields\<close>

lemma no_comma:
  "CHR '','' \<notin> set (dec n)" "CHR '','' \<notin> set (c_int i)" "CHR '','' \<notin> set (c_int_02 i)"
  "CHR '','' \<notin> set (inet_ntoa a)" "CHR '','' \<notin> set (log_time t)"
proof -
  show dec: "CHR '','' \<notin> set (dec n)" for n
    by (rule dec_no_sign) simp
  show int: "CHR '','' \<notin> set (c_int i)" for i
    using dec by (simp add: c_int_def)
  show int2: "CHR '','' \<notin> set (c_int_02 i)" for i
    using int by (simp add: c_int_02_def Let_def)
  show "CHR '','' \<notin> set (inet_ntoa a)" "CHR '','' \<notin> set (log_time t)"
    using dec int int2 by (simp_all add: inet_ntoa_def log_time_def split: prod.split)
qed

lemma nibbles: "unat (b :: uchar8) div 16 < 16" "unat b mod 16 < 16"
proof -
  have "unat b < 256" using unsigned_less [of b, where 'a = nat] by simp
  then show "unat b div 16 < 16" "unat b mod 16 < 16" by simp_all
qed

lemma no_comma_hex: "CHR '','' \<notin> set (hex_dump pkt)"
proof -
  have h: "CHR '','' \<noteq> hex_digit n" if "n < 16" for n
  proof
    assume "CHR '','' = hex_digit n"
    then have "(of_char (CHR '','') :: nat) = of_char (hex_digit n)"
      by (rule arg_cong)
    then show False
      using that by (simp add: hex_digit_def split: if_splits)
  qed
  show ?thesis
    by (auto simp: hex_dump_def c_hex_2_def h [OF nibbles(1)] h [OF nibbles(2)])
qed

lemma split_fields_cons: "CHR '','' \<notin> set f \<Longrightarrow> split_fields (f @ '','' @ s) = f # split_fields s"
  by (induction f) auto

lemma split_fields_last: "CHR '','' \<notin> set f \<Longrightarrow> split_fields f = [f]"
  by (induction f) auto

lemma undump_hex: "undump (hex_dump pkt) = pkt"
proof (induction pkt)
  case (Cons b pkt)
  have "hex_value (hex_digit n) = n" if "n < 16" for n
    using that by (simp add: hex_value_def hex_digit_def Let_def)
  then have "(word_of_nat (16 * hex_value (hex_digit (unat b div 16)) + hex_value (hex_digit (unat b mod 16))) :: uchar8) = b"
    using nibbles [of b] by (simp del: of_nat_add of_nat_mult)
  then show ?case
    using Cons by (simp add: hex_dump_def c_hex_2_def)
qed (simp add: hex_dump_def)

lemmas split_line = split_fields_cons split_fields_last no_comma no_comma_hex

subsection \<open>The time stamp and the demonstration of the common logger\<close>

lemma length_dec: "n < 10 ^ k \<Longrightarrow> 0 < k \<Longrightarrow> length (dec n) \<le> k"
proof (induction k arbitrary: n)
  case (Suc k)
  show ?case
  proof (cases "n < 10")
    case False
    then have "0 < k" using Suc.prems(1) by (cases k) auto
    moreover have "n div 10 < 10 ^ k" using Suc.prems(1) by (simp add: less_mult_imp_div_less mult.commute)
    ultimately show ?thesis using Suc.IH [of "n div 10"] by (subst dec.simps) simp
  qed (simp add: dec.simps [of n])
qed simp

lemma length_dec_ge: "10 ^ k \<le> n \<Longrightarrow> k < length (dec n)"
proof (induction k arbitrary: n)
  case (Suc k)
  then have "10 ^ k \<le> n div 10" by (simp add: less_eq_div_iff_mult_less_eq mult.commute)
  moreover have "\<not> n < 10"
    using Suc.prems order_trans [of "10 ^ 1" "10 ^ Suc k" n] by simp
  ultimately show ?case
    using Suc.IH [of "n div 10"] by (subst dec.simps) simp
qed simp

lemma length_c_int_02: "0 \<le> i \<Longrightarrow> i < 100 \<Longrightarrow> length (c_int_02 i) = 2"
  using length_dec [of "nat i" 2] by (auto simp: c_int_02_def c_int_def Let_def nat_less_iff)

lemma length_year: "1000 \<le> i \<Longrightarrow> i < 10000 \<Longrightarrow> length (c_int i) = 4"
  using length_dec [of "nat i" 4] length_dec_ge [of 3 "nat i"] by (auto simp: c_int_def nat_less_iff le_nat_iff)

text \<open>For every calendar date up to the year 9999 the time stamp has 19 characters and fits into its buffer.\<close>

lemma time_stamp_fits:
  assumes "1000 \<le> 1900 + tm_year t" "1900 + tm_year t < 10000" "0 \<le> tm_mon t" "tm_mon t < 12" "0 \<le> tm_mday t" "tm_mday t \<le> 31"
    and "0 \<le> tm_hour t" "tm_hour t < 24" "0 \<le> tm_min t" "tm_min t < 60" "0 \<le> tm_sec t" "tm_sec t \<le> 60"
  shows "get_current_time t = Some (strftime_stamp t) \<and> length (strftime_stamp t) = 19"
  using assms by (simp add: get_current_time_def strftime_stamp_def length_year length_c_int_02)

text \<open>
  The demonstration prints a comma for its free message, whose text goes to standard error, and a network error whose time stamp
  goes there too; the server record is complete, with the port as it was set on every host.
\<close>

lemma logger_main_prints:
  "\<exists>p. logger_main h src_last now place =
     ('','' @ [CHR 0x0A] @ ''129.82.45.22,0,cobs,null packet,,,'' @ [CHR 0x0A]
        @ log_prefix now 4 (place ''log_server_errors'' 125) @ ''129.82.45.22:9999,129.82.45.22:9999,0,0,0'' @ [CHR 0x0A],
      log_prefix now 1 (place ''log_trace_msg'' 110) @ ''This is a freeformed debug message'' @ p)"
proof -
  have e: "enabled log_flags BASIC_DEBUG" "enabled log_flags NETWORK_DEBUG" "enabled log_flags SERVER_DEBUG" by code_simp+
  have t: "inet_ntoa (129, 82, 45, 22) = ''129.82.45.22''" "c_int 0 = ''0''" "c_int 9999 = ''9999''"
    by (simp_all add: inet_ntoa_def c_int_def digit_def dec.simps char_of_def bit_0)
  have p: "ntohs h (c_hton h 9999) = 9999" by (simp add: ntohs_def c_ntoh_def c_hton_def object_bytes_word)
  have u: "ucast BASIC_DEBUG = (1 :: uint32)" "ucast SERVER_DEBUG = (4 :: uint32)" by code_simp+
  show ?thesis
    by (simp add: logger_main_def log_trace_msg_def log_network_errors_def log_server_errors_def printed_addr_def e t p u)
qed

subsection \<open>Properties\<close>

text \<open>
  A line of the server's log has the eight fields that its comment announces, in that order; the counts are read
  back exactly. The two address fields always hold the same address, the one of the source or the one of the
  destination, because both are printed from the static buffer of \<^verbatim>\<open>inet_ntoa\<close>.
\<close>

theorem hipftlog_fields:
  "\<exists>a f. split_fields (butlast (hipftlog h src_last now src dst blockcount bytecount errs)) =
       [log_time now, a, c_int (ntohs h (sin_port src)), a, c_int (ntohs h (sin_port dst)), f 0, f 1, f 2]
     \<and> a \<in> {inet_ntoa (sin_addr src), inet_ntoa (sin_addr dst)}
     \<and> read_int (f 0) = blockcount \<and> read_int (f 1) = bytecount \<and> read_int (f (2 :: nat)) = errs"
proof -
  have p: "CHR '','' \<notin> set (printed_addr src_last src dst)"
    by (simp add: printed_addr_def no_comma)
  let ?line = "log_time now @ '','' @ printed_addr src_last src dst @ '','' @ c_int (ntohs h (sin_port src)) @ '',''
     @ printed_addr src_last src dst @ '','' @ c_int (ntohs h (sin_port dst)) @ '',''
     @ c_int blockcount @ '','' @ c_int bytecount @ '','' @ c_int errs"
  have "split_fields ?line = [log_time now, printed_addr src_last src dst, c_int (ntohs h (sin_port src)),
      printed_addr src_last src dst, c_int (ntohs h (sin_port dst)), c_int blockcount, c_int bytecount, c_int errs]"
    by (simp only: split_line p simp_thms)
  moreover have "butlast (hipftlog h src_last now src dst blockcount bytecount errs) = ?line"
    by (simp add: hipftlog_def butlast_append)
  moreover have "printed_addr src_last src dst \<in> {inet_ntoa (sin_addr src), inet_ntoa (sin_addr dst)}"
    by (simp add: printed_addr_def)
  ultimately show ?thesis
    by (intro exI [of _ "printed_addr src_last src dst"] exI [of _ "\<lambda>k. c_int ([blockcount, bytecount, errs] ! k)"])
      (simp add: read_int_c_int)
qed

text \<open>
  A line of the client's error log can be read back: when the texts hold no comma, its fields are the peer, the
  block number, the type, subtype and specific text and the hexadecimal dump, from which the packet is
  recovered byte for byte, and one empty field at the end. The proposed common logger puts the same fields
  on standard output but the dump on standard error, so its line has no packet.
\<close>

theorem log_error_roundtrip:
  assumes "CHR '','' \<notin> set ty" "CHR '','' \<notin> set sub" "CHR '','' \<notin> set spec"
  shows "\<exists>n dump. split_fields (butlast (log_error_text peer bcount ty (Some sub) (Some spec) (Some pkt))) =
       [inet_ntoa (sin_addr peer), n, ty, sub, spec, dump, []]
     \<and> read_int n = bcount \<and> undump dump = pkt
     \<and> split_fields (butlast (fst (log_network_errors log_flags now place level peer bcount ty (Some sub) (Some spec) (Some pkt)))) =
       [inet_ntoa (sin_addr peer), n, ty, sub, spec, [], []]"
proof -
  have f: "enabled log_flags NETWORK_DEBUG"
    by (simp add: enabled_def log_flags_def BASIC_DEBUG_def NETWORK_DEBUG_def SERVER_DEBUG_def PARSE_MSG_DEBUG_def)
  let ?l = "\<lambda>d. inet_ntoa (sin_addr peer) @ '','' @ c_int bcount @ '','' @ ty @ '','' @ sub @ '','' @ spec @ '','' @ d @ '','' @ []"
  have split: "split_fields (?l d) = [inet_ntoa (sin_addr peer), c_int bcount, ty, sub, spec, d, []]" if "CHR '','' \<notin> set d" for d
    by (simp only: split_line assms that split_fields.simps(1) simp_thms)
  have "butlast (log_error_text peer bcount ty (Some sub) (Some spec) (Some pkt)) = ?l (hex_dump pkt)"
    by (simp add: log_error_text_def butlast_append)
  moreover have "butlast (fst (log_network_errors log_flags now place level peer bcount ty (Some sub) (Some spec) (Some pkt))) = ?l []"
    by (simp add: log_network_errors_def f butlast_append)
  ultimately show ?thesis
    using split [of "hex_dump pkt"] split [of "[]"] no_comma_hex [of pkt]
    by (intro exI [of _ "c_int bcount"] exI [of _ "hex_dump pkt"]) (simp only: read_int_c_int undump_hex simp_thms list.set empty_iff not_False_eq_True)
qed

theorem log_error_roundtrip_witness:
  "\<exists>n dump. split_fields (butlast (log_error_text \<lparr>sin_addr = (10, 0, 0, 7), sin_port = 5\<rparr> 3 ''msg'' (Some ''parse'') (Some ''x'') (Some [0xDE, 1]))) =
       [inet_ntoa (sin_addr \<lparr>sin_addr = (10, 0, 0, 7), sin_port = 5\<rparr>), n, ''msg'', ''parse'', ''x'', dump, []]
     \<and> read_int n = 3 \<and> undump dump = [0xDE, 1]
     \<and> split_fields (butlast (fst (log_network_errors log_flags ''now'' ''f'' 2 \<lparr>sin_addr = (10, 0, 0, 7), sin_port = 5\<rparr> 3 ''msg''
          (Some ''parse'') (Some ''x'') (Some [0xDE, 1])))) =
       [inet_ntoa (sin_addr \<lparr>sin_addr = (10, 0, 0, 7), sin_port = 5\<rparr>), n, ''msg'', ''parse'', ''x'', [], []]"
  by (rule log_error_roundtrip) simp_all

end
