(* ===== verification/Arg_Scan.thy ===== *)
theory Arg_Scan
  imports Log_Format_Correct
begin

text \<open>
  The arguments of the two channel programs: \<^verbatim>\<open>atoi\<close> and \<^verbatim>\<open>sscanf\<close> with \<^verbatim>\<open>%d\<close>. White space and a sign are skipped, digits are
  read up to the first other character; no digit at all is a failure of \<^verbatim>\<open>sscanf\<close> and 0 for \<^verbatim>\<open>atoi\<close>. A value
  that is no 32-bit \<^verbatim>\<open>int\<close>, for which the C standard requires nothing, is cut to one.
\<close>

definition is_space :: "uchar8 \<Rightarrow> bool" where
  "is_space b \<longleftrightarrow> b \<in> {9, 10, 11, 12, 13, 32}"

definition is_digit :: "uchar8 \<Rightarrow> bool" where
  "is_digit b \<longleftrightarrow> 48 \<le> b \<and> b \<le> 57"

fun scan_digits :: "bytes \<Rightarrow> int \<Rightarrow> int" where
  "scan_digits [] acc = acc"
| "scan_digits (b # bs) acc = (if is_digit b then scan_digits bs (10 * acc + (uint b - 48)) else acc)"

definition scan_nat :: "bytes \<Rightarrow> int option" where
  "scan_nat bs = (case bs of [] \<Rightarrow> None | b # _ \<Rightarrow> if is_digit b then Some (scan_digits bs 0) else None)"

definition scan_int :: "bytes \<Rightarrow> int option" where
  "scan_int bs =
     (case dropWhile is_space bs of
        [] \<Rightarrow> None
      | b # rest \<Rightarrow>
          if b = 45 then map_option uminus (scan_nat rest)
          else if b = 43 then scan_nat rest
          else scan_nat (b # rest))"

definition as_int :: "int \<Rightarrow> int" where
  "as_int n = sint (word_of_int n :: 32 word)"

definition atoi :: "bytes \<Rightarrow> int" where
  "atoi bs = (case scan_int bs of None \<Rightarrow> 0 | Some n \<Rightarrow> as_int n)"

definition sscanf_d :: "bytes \<Rightarrow> int option" where
  "sscanf_d bs = map_option as_int (scan_int bs)"

subsection \<open>Numbers in decimal\<close>

definition ascii :: "string \<Rightarrow> bytes" where
  "ascii s = map (\<lambda>c. word_of_nat (of_char c)) s"

lemma ascii_append [simp]: "ascii (s @ t) = ascii s @ ascii t"
  by (simp add: ascii_def)

lemma ascii_digit: "k < 10 \<Longrightarrow> ascii [digit k] = [word_of_nat (48 + k)]"
  by (simp add: ascii_def of_char_digit)

lemma digit_byte:
  assumes "k < 10"
  shows "is_digit (word_of_nat (48 + k))" "uint (word_of_nat (48 + k) :: uchar8) = 48 + int k"
    "(word_of_nat (48 + k) :: uchar8) \<notin> {9, 10, 11, 12, 13, 32, 43, 45}"
proof -
  have u: "unat (word_of_nat (48 + k) :: uchar8) = 48 + k"
    using assms by (simp add: unat_of_nat take_bit_nat_eq_self del: of_nat_add)
  show "is_digit (word_of_nat (48 + k))"
    using assms unfolding is_digit_def word_le_nat_alt u by simp
  show "uint (word_of_nat (48 + k) :: uchar8) = 48 + int k"
    using u by (simp add: uint_nat)
  show "(word_of_nat (48 + k) :: uchar8) \<notin> {9, 10, 11, 12, 13, 32, 43, 45}"
    unfolding insert_iff empty_iff word_unat_eq_iff u using assms by simp
qed

lemma scan_digits_dec: "scan_digits (ascii (dec n) @ bs) 0 = scan_digits bs (int n)"
proof (induction n arbitrary: bs rule: dec.induct)
  case (1 n)
  show ?case
  proof (cases "n < 10")
    case True
    then show ?thesis
      using digit_byte [OF True] ascii_digit [OF True] by (subst dec.simps) simp
  next
    case False
    have m: "n mod 10 < 10" by simp
    have "scan_digits (ascii (dec n) @ bs) 0 = scan_digits (ascii [digit (n mod 10)] @ bs) (int (n div 10))"
      using 1 [OF False, of "ascii [digit (n mod 10)] @ bs"] False by (subst dec.simps) simp
    also have "\<dots> = scan_digits bs (10 * int (n div 10) + int (n mod 10))"
      using digit_byte [OF m] ascii_digit [OF m] by simp
    also have "10 * int (n div 10) + int (n mod 10) = int n"
      by (simp flip: of_nat_mult of_nat_add add: zdiv_int zmod_int)
    finally show ?thesis .
  qed
qed

lemma dec_first: obtains k s where "k < 10" "ascii (dec n) = word_of_nat (48 + k) # s"
proof (cases "dec n")
  case (Cons c s)
  then obtain k where "k < 10" "c = digit k" using dec_chars [of c n] by auto
  then show thesis
    using that [of k "ascii s"] ascii_digit [of k] Cons by (simp add: ascii_def)
qed simp

lemma scan_nat_dec: "scan_nat (ascii (dec n)) = Some (int n)"
proof -
  obtain k s where "k < 10" "ascii (dec n) = word_of_nat (48 + k) # s" by (rule dec_first)
  then show ?thesis
    using digit_byte(1) [of k] scan_digits_dec [of n "[]"] by (simp add: scan_nat_def del: of_nat_add)
qed

lemma scan_int_c_int: "scan_int (ascii (c_int n)) = Some n"
proof (cases "n < 0")
  case True
  then show ?thesis
    using scan_nat_dec [of "nat (- n)"] by (simp add: c_int_def scan_int_def ascii_def is_space_def)
next
  case False
  obtain k s where k: "k < 10" "ascii (dec (nat n)) = word_of_nat (48 + k) # s" by (rule dec_first)
  have "\<not> is_space (word_of_nat (48 + k))" "(word_of_nat (48 + k) :: uchar8) \<noteq> 45" "(word_of_nat (48 + k) :: uchar8) \<noteq> 43"
    using digit_byte(3) [OF k(1)] by (simp_all add: is_space_def)
  then show ?thesis
    using False scan_nat_dec [of "nat n"] by (simp add: c_int_def scan_int_def k(2))
qed

lemma as_int_id: "- (2 ^ 31) \<le> n \<Longrightarrow> n < 2 ^ 31 \<Longrightarrow> as_int n = n"
  by (simp add: as_int_def signed_of_int signed_take_bit_int_eq_self)

lemma atoi_c_int: "- (2 ^ 31) \<le> n \<Longrightarrow> n < 2 ^ 31 \<Longrightarrow> atoi (ascii (c_int n)) = n \<and> sscanf_d (ascii (c_int n)) = Some n"
  by (simp add: atoi_def sscanf_d_def scan_int_c_int as_int_id)

end
