(* ===== verification/Client_Main.thy ===== *)
theory Client_Main
  imports Msg_Types Arg_Scan
begin

text \<open>
  The main program of \<^verbatim>\<open>src/justin-snapshot/drv/client.c\<close>: its arguments, the connection, and the cycle of downloads. What the
  system answers (the descriptor of the socket, whether the host is known and whether it accepts the connection,
  whether the output file opens) is an argument, and so are the received messages and the random numbers; \<open>ids k\<close>
  is the number drawn in cycle \<open>k\<close>. The result of a run is the list of messages sent, the outcome and content of
  each written file, and the exit code, unless the program waits for a message.
\<close>

record client_env =
  socket_fd :: int
  host_known :: "bytes \<Rightarrow> bool"
  connects :: "bytes \<Rightarrow> uint16 \<Rightarrow> bool"
  file_opens :: bool

datatype run = Exit int | Waiting

subsection \<open>One download\<close>

text \<open>Sequencing of operations that may wait for a message.\<close>

definition then_do ::
    "(msg_t list \<times> 'a outcome) c_result \<Rightarrow> (msg_t list \<Rightarrow> 'a \<Rightarrow> (msg_t list \<times> 'b outcome) c_result)
     \<Rightarrow> (msg_t list \<times> 'b outcome) c_result" where
  "then_do r k = c_bind r (\<lambda>(sent, res). case res of Blocked \<Rightarrow> Inr (sent, Blocked) | Returned x \<Rightarrow> k sent x)"

definition client_cycle ::
    "uint64 option \<Rightarrow> bool \<Rightarrow> (nat \<Rightarrow> uint64) \<Rightarrow> uint64 \<Rightarrow> bytes \<Rightarrow> inbox \<Rightarrow> msg_t list
     \<Rightarrow> (msg_t list \<times> ((bool \<times> bytes) \<times> inbox) outcome) c_result" where
  "client_cycle stale opens rnds sid file rs sent =
     (let flen = word_of_nat (length file) in
      then_do (establish_channel stale rnds sid 0 MAX_SIZE file flen rs sent) (\<lambda>sent (temp, oid, rs).
      c_bind (ready_channel rnds sid oid MAX_SIZE file flen sent) (\<lambda>sent.
      then_do (gather_file opens rnds sid oid (ucast MAX_SIZE) temp rs sent) (\<lambda>sent (ok, f, rs).
      then_do (cease_channel rnds sid oid rs sent) (\<lambda>sent rs. Inr (sent, Returned ((ok, f), rs)))))))"

lemma then_do_simps [simp]:
  "then_do (Inl e) k = Inl e" "then_do (Inr (sent, Blocked)) k = Inr (sent, Blocked)"
  "then_do (Inr (sent, Returned x)) k = k sent x"
  by (simp_all add: then_do_def)

lemma then_do_Returned_iff:
  "then_do r k = Inr (s, Returned y) \<longleftrightarrow> (\<exists>s1 x. r = Inr (s1, Returned x) \<and> k s1 x = Inr (s, Returned y))"
proof (cases r)
  case (Inr q)
  then show ?thesis by (cases q; cases "snd q") auto
qed simp

lemma establish_loop_rest:
  "establish_loop stale rnds sid oid ms file fl rs sent = Inr (sent', Returned (n, oid', rs')) \<Longrightarrow> length rs' < length rs"
  by (induction rs arbitrary: sent) (fastforce simp: c_result_iff split: option.splits if_splits)+

lemma gather_packets_rest:
  "gather_packets n k rs f sec = Inr (Returned (ok, f', sec', rs')) \<Longrightarrow> length rs' \<le> length rs"
  by (induction rs arbitrary: k f sec) (fastforce simp: c_result_iff split: option.splits if_splits)+

lemma gather_again_rest:
  "gather_again rnds sid oid ms n rs f sec sent = Inr (sent', Returned (ok, d, rs')) \<Longrightarrow> length rs' \<le> length rs"
  by (induction rs arbitrary: f sec sent) (fastforce simp: c_result_iff split: option.splits if_splits)+

lemma gather_file_rest:
  assumes "gather_file opens rnds sid oid ms n rs sent = Inr (sent', Returned (ok, d, rs'))"
  shows "length rs' \<le> length rs"
proof (cases "n = 0")
  case False
  then obtain res where res: "gather_packets n 0 rs (fopen_wb opens) create_section = Inr res"
    using assms by (auto simp: gather_file_def c_result_iff)
  then show ?thesis
    using assms False gather_packets_rest [of n 0 rs "fopen_wb opens" create_section]
    by (cases res) (auto simp: gather_file_def split: if_splits dest!: gather_again_rest)
qed (use assms in \<open>simp add: gather_file_def\<close>)

lemma cease_channel_rest:
  "cease_channel rnds sid oid rs sent = Inr (sent', Returned rs') \<Longrightarrow> length rs' < length rs"
  by (cases rs) (auto simp: cease_channel_def c_result_iff split: option.splits)

lemma client_cycle_rest:
  assumes "client_cycle stale opens rnds sid file rs sent = Inr (sent', Returned (f, rs'))"
  shows "length rs' < length rs"
proof -
  let ?fl = "word_of_nat (length file)"
  obtain s1 n oid rs1 s2 s3 ok d rs2 where
    "establish_channel stale rnds sid 0 MAX_SIZE file ?fl rs sent = Inr (s1, Returned (n, oid, rs1))"
    and 2: "gather_file opens rnds sid oid (ucast MAX_SIZE) n rs1 s2 = Inr (s3, Returned (ok, d, rs2))"
    "cease_channel rnds sid oid rs2 s3 = Inr (sent', Returned rs')"
    using assms by (auto simp: client_cycle_def Let_def c_result_iff then_do_Returned_iff)
  then have "length rs1 < length rs"
    using establish_loop_rest by (fastforce simp: establish_channel_def c_result_iff)
  then show ?thesis
    using gather_file_rest [OF 2(1)] cease_channel_rest [OF 2(2)] by linarith
qed

text \<open>The cycle. Every round that ends has received a message, so the number of messages bounds the rounds.\<close>

function client_loop ::
    "uint64 option \<Rightarrow> bool \<Rightarrow> (nat \<Rightarrow> uint64) \<Rightarrow> (nat \<Rightarrow> uint64) \<Rightarrow> bytes \<Rightarrow> int \<Rightarrow> bool \<Rightarrow> nat \<Rightarrow> inbox \<Rightarrow> msg_t list
     \<Rightarrow> (bool \<times> bytes) list \<Rightarrow> (msg_t list \<times> (bool \<times> bytes) list \<times> run) c_result" where
  "client_loop stale opens rnds ids file numDownloads runForever cycle rs sent files =
     (if int cycle < numDownloads \<or> runForever then
        (case client_cycle stale opens rnds (ids cycle) file rs sent of
           Inl e \<Rightarrow> Inl e
         | Inr (sent', Blocked) \<Rightarrow> Inr (sent', files, Waiting)
         | Inr (sent', Returned (f, rs')) \<Rightarrow>
             client_loop stale opens rnds ids file numDownloads runForever (Suc cycle) rs' sent' (files @ [f]))
      else c_bind (cease_connection rnds sent) (\<lambda>sent. Inr (sent, files, Exit 0)))"
  by pat_completeness auto
termination
  by (relation "measure (\<lambda>(stale, opens, rnds, ids, file, n, fe, cycle, rs, sent, files). length rs)")
    (auto simp: client_cycle_rest)

declare client_loop.simps [simp del]

definition channel_client_main ::
    "uint64 option \<Rightarrow> client_env \<Rightarrow> (nat \<Rightarrow> uint64) \<Rightarrow> (nat \<Rightarrow> uint64) \<Rightarrow> bytes list \<Rightarrow> inbox
     \<Rightarrow> (msg_t list \<times> (bool \<times> bytes) list \<times> run) c_result" where
  "channel_client_main stale env rnds ids argv rs =
     (if length argv \<noteq> 5 then Inr ([], [], Exit (-1))
      else
        (let numDownloads = atoi (argv ! 4) in
         if numDownloads < 0 then Inr ([], [], Exit (-4))
         else (case sscanf_d (argv ! 2) of
             None \<Rightarrow> Inr ([], [], Exit (-2))
           | Some port \<Rightarrow>
               if socket_fd env \<le> 0 then Inr ([], [], Exit (-3))
               else if \<not> host_known env (argv ! 1) then Inr ([], [], Exit (-4))
               else if \<not> connects env (argv ! 1) (word_of_int port) then Inr ([], [], Exit (-5))
               else client_loop stale (file_opens env) rnds ids (argv ! 3) numDownloads (numDownloads = 0) 0 rs [] [])))"

subsection \<open>Cycles\<close>

text \<open>The arguments are good for \<open>k\<close> downloads and the connection is made.\<close>

definition started :: "client_env \<Rightarrow> bytes list \<Rightarrow> nat \<Rightarrow> bool" where
  "started env argv k \<longleftrightarrow> length argv = 5 \<and> atoi (argv ! 4) = int k \<and> length (argv ! 3) < 65536 \<and> 0 < socket_fd env \<and> file_opens env
     \<and> host_known env (argv ! 1) \<and> (\<exists>port. sscanf_d (argv ! 2) = Some port \<and> connects env (argv ! 1) (word_of_int port))"

lemma client_main_started:
  "started env argv k \<Longrightarrow> channel_client_main stale env rnds ids argv rs = client_loop stale True rnds ids (argv ! 3) (int k) (k = 0) 0 rs [] []"
  by (auto simp: started_def channel_client_main_def Let_def)

text \<open>The messages of the client: the two that open a channel, and the ones that close the channel and the connection.\<close>

definition syn_msg :: "uint64 \<Rightarrow> uint64 \<Rightarrow> uint64 \<Rightarrow> bytes \<Rightarrow> msg_t" where
  "syn_msg rnd sid rid nm =
     formed_msg (form_head rnd sid rid (chan_code CONTROL) (data_code SYN) (ucast MAX_SIZE) (word_of_nat (length nm))) nm"

lemma syn_msg_sent:
  assumes "length nm < 65536"
  shows "send_control rnds sent sid rid SYN (ucast MAX_SIZE) nm (word_of_nat (length nm)) = Inr (sent @ [syn_msg (rnds (length sent)) sid rid nm])"
    "verify_msg (syn_msg rnd sid rid nm) = Inr True"
proof -
  have u: "unat (word_of_nat (length nm) :: uint32) = length nm"
    using assms by (simp add: unat_of_nat32)
  show "send_control rnds sent sid rid SYN (ucast MAX_SIZE) nm (word_of_nat (length nm)) = Inr (sent @ [syn_msg (rnds (length sent)) sid rid nm])"
    using form_msg_eq [of "word_of_nat (length nm)" nm] assms by (simp add: send_control_def syn_msg_def u)
  show "verify_msg (syn_msg rnd sid rid nm) = Inr True"
    unfolding syn_msg_def by (rule formed_verifies) (simp_all add: u assms)
qed

lemma syn_msg_fields [simp]:
  "sendID (head (syn_msg rnd sid rid nm)) = sid" "recvID (head (syn_msg rnd sid rid nm)) = rid"
  "chanType (head (syn_msg rnd sid rid nm)) = chan_code CONTROL" "dataType (head (syn_msg rnd sid rid nm)) = data_code SYN"
  "segmentNum (head (syn_msg rnd sid rid nm)) = 8000" "content (body (syn_msg rnd sid rid nm)) = nm"
  "contentLength (head (syn_msg rnd sid rid nm)) = word_of_nat (length nm)"
  by (simp_all add: syn_msg_def formed_msg_def form_head_def MAX_SIZE_def)

lemma control_msg_sent: "send_control rnds sent sid rid dt n [] 0 = Inr (sent @ [control_msg (rnds (length sent)) sid rid dt n []])"
  using form_msg_eq [of 0 "[]"] by (simp add: send_control_def control_msg_def)

lemma control_msg_facts [simp]:
  "sendID (head (control_msg rnd sid rid dt n c)) = sid" "recvID (head (control_msg rnd sid rid dt n c)) = rid"
  "chanType (head (control_msg rnd sid rid dt n c)) = chan_code CONTROL" "dataType (head (control_msg rnd sid rid dt n c)) = data_code dt"
  "segmentNum (head (control_msg rnd sid rid dt n c)) = n" "verify_msg (control_msg rnd sid rid dt n []) = Inr True"
proof -
  show "verify_msg (control_msg rnd sid rid dt n []) = Inr True"
    unfolding control_msg_def by (rule formed_verifies) simp_all
qed (simp_all add: control_msg_def formed_msg_def form_head_def)

definition syn_msgs :: "(nat \<Rightarrow> uint64) \<Rightarrow> uint64 \<Rightarrow> uint64 \<Rightarrow> bytes \<Rightarrow> msg_t list" where
  "syn_msgs rnds sid oid nm = [syn_msg (rnds 0) sid 0 nm, syn_msg (rnds 1) sid oid nm]"

text \<open>The first download of a client whose request is answered with the number of a channel; \<open>v\<close> is what the freed request is found to hold.\<close>

lemma client_waits_for:
  assumes "started env argv k" "verify_msg ack = Inr True" "sendID (head ack) \<noteq> 0"
    "sent = syn_msgs rnds (ids 0) (sendID (head ack)) (argv ! 3)"
    "gather_file True rnds (ids 0) (sendID (head ack)) (ucast MAX_SIZE) v rs sent = Inr (sent, Blocked)"
  shows "channel_client_main (Some v) env rnds ids argv (Some ack # rs) = Inr (sent, [], Waiting)"
proof -
  have nm: "length (argv ! 3) < 65536" using assms(1) by (simp add: started_def)
  have "client_cycle (Some v) True rnds (ids 0) (argv ! 3) (Some ack # rs) [] = Inr (sent, Blocked)"
    using assms(2-5) by (simp add: syn_msgs_def client_cycle_def establish_channel_def ready_channel_def syn_msg_sent(1) [OF nm])
  then show ?thesis
    by (subst client_main_started [OF assms(1)], subst client_loop.simps) auto
qed

lemma client_ends_with:
  assumes "started env argv 1" "verify_msg ack = Inr True" "sendID (head ack) \<noteq> 0"
    "sent = syn_msgs rnds (ids 0) (sendID (head ack)) (argv ! 3)"
    "gather_file True rnds (ids 0) (sendID (head ack)) (ucast MAX_SIZE) v rs sent = Inr (sent, Returned (ok, f, Some m # rs'))"
    "verify_msg m = Inr b"
  shows "channel_client_main (Some v) env rnds ids argv (Some ack # rs) =
     Inr (sent @ [control_msg (rnds 2) (ids 0) (sendID (head ack)) FIN 0 [], control_msg (rnds 3) 0 0 FIN 0 []], [(ok, f)], Exit 0)"
proof -
  have nm: "length (argv ! 3) < 65536" using assms(1) by (simp add: started_def)
  have "client_cycle (Some v) True rnds (ids 0) (argv ! 3) (Some ack # rs) [] =
      Inr (sent @ [control_msg (rnds 2) (ids 0) (sendID (head ack)) FIN 0 []], Returned ((ok, f), rs'))"
    using assms(2-6) by (simp add: syn_msgs_def client_cycle_def establish_channel_def ready_channel_def syn_msg_sent(1) [OF nm] cease_channel_def
        control_msg_sent numeral_2_eq_2)
  then show ?thesis
    by (subst client_main_started [OF assms(1)], subst client_loop.simps)
      (simp add: client_loop.simps [of "Some v" True rnds ids _ _ _ "Suc 0"] cease_connection_def control_msg_sent assms(4) syn_msgs_def numeral_3_eq_3)
qed

text \<open>As many packets as the client waits for, or more, and fewer.\<close>

lemma gather_file_prefix:
  assumes "0 < n" "n < length ms" "length ms < 2 ^ 64" "\<forall>m \<in> set ms. intact m"
  shows "gather_file True rnds sid oid ss (word_of_nat n) (map Some ms @ rs) sent =
     Inr (sent, Returned (True, concat (map (\<lambda>m. content (body m)) (take (Suc n) ms)), map Some (drop (Suc n) ms) @ rs))"
proof -
  have "\<forall>m \<in> set (take (Suc n) ms). intact m" using assms(4) by (meson in_set_takeD)
  then have "gather_file True rnds sid oid ss (word_of_nat n) (map Some (take (Suc n) ms) @ map Some (drop (Suc n) ms) @ rs) sent =
      Inr (sent, Returned (True, concat (map (\<lambda>m. content (body m)) (take (Suc n) ms)), map Some (drop (Suc n) ms) @ rs))"
    using assms(1-3) by (intro gather_file_intact) simp_all
  moreover have "map Some (take (Suc n) ms) @ map Some (drop (Suc n) ms) @ rs = map Some ms @ rs"
    by (simp flip: append_assoc map_append)
  ultimately show ?thesis by simp
qed

lemma gather_file_waits:
  assumes "0 < n" "n < 2 ^ 64" "\<forall>m \<in> set ms. intact m" "length ms \<le> n"
  shows "gather_file True rnds sid oid ss (word_of_nat n) (map Some ms) sent = Inr (sent, Blocked)"
proof -
  have "(word_of_nat n :: uint64) \<noteq> 0"
    using assms(1,2) unat_of_nat64 [of n] by auto
  moreover have "gather_packets (word_of_nat n) 0 (map Some ms) (Some (at_end [])) create_section = Inr Blocked"
    using gather_intact [OF assms(2,3), of 0 "[]" "[]" create_section] word_le_upto [OF assms(4,2)] assms(4) by simp
  ultimately show ?thesis by (simp add: gather_file_def)
qed

subsection \<open>The messages of a run\<close>

lemma then_do_sent:
  assumes "then_do r k = Inr (s, res)" "\<And>s1 x. r = Inr (s1, x) \<Longrightarrow> P s1" "\<And>s1 x. P s1 \<Longrightarrow> k s1 x = Inr (s, res) \<Longrightarrow> P s"
  shows "P s"
proof (cases r)
  case (Inr q)
  then show ?thesis using assms by (cases q; cases "snd q") auto
qed (use assms(1) in simp)

lemma client_cycle_typed:
  assumes "length file < 65536" "client_cycle stale opens rnds sid file rs sent = Inr (sent', r)" "list_all well_typed sent"
  shows "list_all well_typed sent'"
proof -
  have fl: "unat (word_of_nat (length file) :: uint32) \<le> length file" "unat (word_of_nat (length file) :: uint32) < 65536"
    using assms(1) by (simp_all add: unat_of_nat32)
  show ?thesis
    using assms(2) unfolding client_cycle_def Let_def
  proof (rule then_do_sent)
    fix s1 x assume "establish_channel stale rnds sid 0 MAX_SIZE file (word_of_nat (length file)) rs sent = Inr (s1, x)"
    then show "list_all well_typed s1"
      using assms(3) by (auto simp: establish_channel_def c_result_iff dest: establish_typed [OF fl] send_control_typed [OF _ fl])
  next
    fix s1 and x :: "uint64 \<times> uint64 \<times> inbox"
    assume ty: "list_all well_typed s1"
      and k: "(case x of (temp, oid, rs) \<Rightarrow> c_bind (ready_channel rnds sid oid MAX_SIZE file (word_of_nat (length file)) s1) (\<lambda>sent.
        then_do (gather_file opens rnds sid oid (ucast MAX_SIZE) temp rs sent) (\<lambda>sent (ok, f, rs).
        then_do (cease_channel rnds sid oid rs sent) (\<lambda>sent rs. Inr (sent, Returned ((ok, f), rs)))))) = Inr (sent', r)"
    obtain temp oid rs1 where x: "x = (temp, oid, rs1)" by (cases x)
    then obtain s2 where s2: "list_all well_typed s2" "then_do (gather_file opens rnds sid oid (ucast MAX_SIZE) temp rs1 s2) (\<lambda>sent (ok, f, rs).
        then_do (cease_channel rnds sid oid rs sent) (\<lambda>sent rs. Inr (sent, Returned ((ok, f), rs)))) = Inr (sent', r)"
      using k send_control_typed [OF _ fl ty] by (auto simp: ready_channel_def c_result_iff) blast
    from s2(2) show "list_all well_typed sent'"
      by (rule then_do_sent)
        (use s2(1) in \<open>auto dest: gather_file_typed cease_channel_typed elim!: then_do_sent split: prod.splits\<close>)
  qed
qed

lemma client_loop_typed:
  "length file < 65536 \<Longrightarrow> client_loop stale opens rnds ids file n forever c rs sent files = Inr (sent', files', r)
   \<Longrightarrow> list_all well_typed sent \<Longrightarrow> list_all well_typed sent'"
proof (induction rs arbitrary: c sent files rule: measure_induct_rule [of length])
  case (less rs)
  show ?case
  proof (cases "int c < n \<or> forever")
    case True
    then obtain s1 o1 where cyc: "client_cycle stale opens rnds (ids c) file rs sent = Inr (s1, o1)"
      using less.prems(2) by (subst (asm) client_loop.simps) (auto split: sum.splits)
    note ty = client_cycle_typed [OF less.prems(1) cyc less.prems(3)]
    show ?thesis
    proof (cases o1)
      case Blocked
      then show ?thesis using less.prems(2) True ty by (subst (asm) client_loop.simps) (simp add: cyc)
    next
      case (Returned q)
      obtain f rs' where q: "q = (f, rs')" by (cases q)
      have "length rs' < length rs" using client_cycle_rest cyc Returned q by blast
      moreover have "client_loop stale opens rnds ids file n forever (Suc c) rs' s1 (files @ [f]) = Inr (sent', files', r)"
        using less.prems(2) True by (subst (asm) client_loop.simps) (simp add: cyc Returned q)
      ultimately show ?thesis using less.IH less.prems(1) ty by blast
    qed
  next
    case False
    then show ?thesis
      using less.prems(2,3) by (subst (asm) client_loop.simps) (auto simp: cease_connection_def c_result_iff dest: send_empty_typed)
  qed
qed

subsection \<open>Properties\<close>

text \<open>A message that the client takes for a damaged answer.\<close>

definition damaged :: "msg_t option \<Rightarrow> bool" where
  "damaged r \<longleftrightarrow> (case r of None \<Rightarrow> False | Some m \<Rightarrow> verify_msg m = Inr False)"

lemma establish_strict:
  assumes "length nm < 65536"
  shows "case dropWhile damaged rs of
       [] \<Rightarrow> (\<exists>sent'. establish_loop None rnds sid oid MAX_SIZE nm (word_of_nat (length nm)) rs sent = Inr (sent', Blocked)
          \<and> map (\<lambda>m. dataType (head m)) sent' = map (\<lambda>m. dataType (head m)) sent @ replicate (length rs) (data_code RTS))
     | None # _ \<Rightarrow> establish_loop None rnds sid oid MAX_SIZE nm (word_of_nat (length nm)) rs sent = Inl Null_Deref
     | Some m # _ \<Rightarrow> establish_loop None rnds sid oid MAX_SIZE nm (word_of_nat (length nm)) rs sent =
         Inl (case verify_msg m of Inl e \<Rightarrow> e | Inr _ \<Rightarrow> Use_After_Free)"
proof (induction rs arbitrary: sent)
  case (Cons r rs)
  show ?case
  proof (cases "damaged r")
    case True
    then obtain m where m: "r = Some m" "verify_msg m = Inr False" by (auto simp: damaged_def split: option.splits)
    obtain rts where rts: "send_control rnds sent sid oid RTS (ucast MAX_SIZE) nm (word_of_nat (length nm)) = Inr (sent @ [rts])"
      "dataType (head rts) = data_code RTS"
      using send_control_Inr [OF assms, of rnds sent sid oid RTS] by blast
    show ?thesis
      using Cons.IH [of "sent @ [rts]"] True m rts by (auto simp del: dropWhile_eq_Nil_conv split: list.splits option.splits)
  next
    case False
    then show ?thesis by (auto simp: damaged_def split: option.splits sum.splits)
  qed
qed simp

definition sample_env :: client_env where
  "sample_env = \<lparr>socket_fd = 3, host_known = (\<lambda>_. True), connects = (\<lambda>_ p. p = 9999), file_opens = True\<rparr>"

definition sample_argv :: "bytes list" where
  "sample_argv = [[99], [104], [57, 57, 57, 57], [97], [50]]"

lemma sample_started: "started sample_env sample_argv 2"
  by (simp add: started_def sample_env_def sample_argv_def atoi_def sscanf_d_def scan_int_def scan_nat_def is_space_def is_digit_def as_int_def)

definition sample_packet :: msg_t where
  "sample_packet = segment_message 7 sample_chan [1, 2, 3] 0"

lemma sample_packet_facts: "intact sample_packet" "sendID (head sample_packet) \<noteq> 0"
  unfolding sample_packet_def
  by (rule segment_intact, simp add: sample_chan_def) (simp add: segment_message_def formed_msg_def form_head_def sample_chan_def)

text \<open>
  C39. The client never finishes a download where reading freed memory stops the program. This is what a client with good arguments
  and a connection does for every sequence of received messages: it asks again after each damaged answer; if nothing more
  arrives, it waits, having sent its request and one repetition per damaged answer, and no file; the first null message ends it with a
  null dereference, and the first answer that verifies ends it with a read of the freed request, before any packet is looked at.
\<close>

theorem client_never_finishes:
  assumes "started env argv k"
  shows "case dropWhile damaged rs of
       [] \<Rightarrow> (\<exists>sent. channel_client_main None env rnds ids argv rs = Inr (sent, [], Waiting)
          \<and> map (\<lambda>m. dataType (head m)) sent = data_code SYN # replicate (length rs) (data_code RTS))
     | None # _ \<Rightarrow> channel_client_main None env rnds ids argv rs = Inl Null_Deref
     | Some m # _ \<Rightarrow> channel_client_main None env rnds ids argv rs = Inl (case verify_msg m of Inl e \<Rightarrow> e | Inr _ \<Rightarrow> Use_After_Free)"
proof -
  have nm: "length (argv ! 3) < 65536" using assms by (simp add: started_def)
  let ?syn = "syn_msg (rnds 0) (ids 0) 0 (argv ! 3)"
  let ?r = "establish_loop None rnds (ids 0) 0 MAX_SIZE (argv ! 3) (word_of_nat (length (argv ! 3))) rs [?syn]"
  have "channel_client_main None env rnds ids argv rs = (case ?r of Inl e \<Rightarrow> Inl e | Inr (sent, Blocked) \<Rightarrow> Inr (sent, [], Waiting))"
    if "\<nexists>sent x. ?r = Inr (sent, Returned x)"
    using that by (subst client_main_started [OF assms], subst client_loop.simps)
      (auto simp: client_cycle_def establish_channel_def syn_msg_sent(1) [OF nm] split: sum.splits outcome.splits)
  then show ?thesis
    using establish_strict [OF nm, where rs = rs and rnds = rnds and sid = "ids 0" and oid = 0 and sent = "[?syn]"] by (fastforce simp del: dropWhile_eq_Nil_conv split: list.splits option.splits)
qed

theorem client_never_finishes_witness:
  "(\<exists>sent. channel_client_main None sample_env (\<lambda>_. 7) (\<lambda>_. 100) sample_argv [Some sample_damaged] = Inr (sent, [], Waiting) \<and> length sent = 2)
   \<and> channel_client_main None sample_env (\<lambda>_. 7) (\<lambda>_. 100) sample_argv [Some sample_damaged, Some sample_packet] = Inl Use_After_Free"
proof -
  have d: "damaged (Some sample_damaged)" "\<not> damaged (Some sample_packet)" "verify_msg sample_packet = Inr True"
    using sample_damaged_fails sample_packet_facts by (simp_all add: damaged_def intact_def)
  have "\<exists>sent. channel_client_main None sample_env (\<lambda>_. 7) (\<lambda>_. 100) sample_argv [Some sample_damaged] = Inr (sent, [], Waiting)
      \<and> map (\<lambda>m. dataType (head m)) sent = [data_code SYN, data_code RTS]"
    using client_never_finishes [OF sample_started, where rs = "[Some sample_damaged]" and rnds = "\<lambda>_. 7" and ids = "\<lambda>_. 100"] d by simp
  then have "\<exists>sent. channel_client_main None sample_env (\<lambda>_. 7) (\<lambda>_. 100) sample_argv [Some sample_damaged] = Inr (sent, [], Waiting) \<and> length sent = 2"
    by (metis length_Cons length_map list.size(3) numeral_2_eq_2)
  then show ?thesis
    using client_never_finishes [OF sample_started, where rs = "[Some sample_damaged, Some sample_packet]" and rnds = "\<lambda>_. 7" and ids = "\<lambda>_. 100"] d by simp
qed

text \<open>
  Where the freed request is still intact, the client takes its own maximal segment size 8000 for the number of packets: after
  the whole of any shorter file has arrived intact it waits for ever, with nothing reported and no channel closed.
\<close>

theorem client_waits:
  assumes "started env argv k" "verify_msg answer = Inr True" "sendID (head answer) \<noteq> 0" "list_all intact ms" "length ms \<le> 8000"
  shows "\<exists>req rdy. channel_client_main (Some (ucast MAX_SIZE)) env rnds ids argv (Some answer # map Some ms) = Inr ([req, rdy], [], Waiting)"
proof -
  have size: "ucast MAX_SIZE = (word_of_nat 8000 :: uint64)" by (simp add: MAX_SIZE_def)
  have "gather_file True rnds (ids 0) (sendID (head answer)) (ucast MAX_SIZE) (ucast MAX_SIZE) (map Some ms) s = Inr (s, Blocked)" for s
    unfolding size using assms(4,5) by (intro gather_file_waits) (simp_all add: list_all_iff)
  then show ?thesis
    using client_waits_for [OF assms(1-3) refl, of rnds ids "ucast MAX_SIZE" "map Some ms"] by (auto simp: syn_msgs_def)
qed

theorem client_waits_witness:
  "\<exists>req rdy. channel_client_main (Some (ucast MAX_SIZE)) sample_env (\<lambda>_. 7) (\<lambda>_. 100) sample_argv (Some sample_packet # map Some [sample_packet]) =
     Inr ([req, rdy], [], Waiting)"
  by (rule client_waits [OF sample_started]) (use sample_packet_facts in \<open>simp_all add: intact_def\<close>)

end
