(* ===== verification/Table_Print.thy ===== *)
theory Table_Print
  imports Log_Format_Correct Section_Pieces Conn_Chan
begin

text \<open>
  The routines that print the tables: \<^verbatim>\<open>print_section\<close>, \<^verbatim>\<open>print_file_handle\<close>, \<^verbatim>\<open>print_dir_handle\<close>, \<^verbatim>\<open>print_connection\<close> and
  \<^verbatim>\<open>print_all_connections\<close>. The result is the text on standard output. Printing reads through the same pointers as every
  other operation, so it fails on an array that has been released. Peer addresses are not part
  of the tables of \<open>Conn_Chan\<close>; they are an argument here, by connection.
\<close>

definition nl :: string where
  "nl = [CHR 0x0A]"

definition c_lu :: "uint64 \<Rightarrow> string" where
  "c_lu n = dec (unat n)"

subsection \<open>Sections\<close>

definition print_piece :: "nat \<Rightarrow> piece_t \<Rightarrow> string" where
  "print_piece i p =
     ''   '' @ c_lu (word_of_nat i + 1) @ ''| l:'' @ c_lu (lowBound p) @ '',h:'' @ c_lu (highBound p) @ nl"

fun print_pieces :: "nat \<Rightarrow> piece_t list \<Rightarrow> string" where
  "print_pieces i [] = ''''"
| "print_pieces i (p # ps) = print_piece i p @ print_pieces (Suc i) ps"

definition print_section :: "section_t \<Rightarrow> string c_result" where
  "print_section sec =
     (let header = ''Section'' @ nl @ ''-------'' @ nl @ ''# pieces: '' @ c_lu (word_of_nat (length (pieces sec))) @ nl
                   @ ''pieces:'' @ nl in
      if pieces sec \<noteq> [] then
        (case piecesPtr sec of
           Null_Array \<Rightarrow> Inl Null_Deref
         | Freed_Array \<Rightarrow> Inl Use_After_Free
         | Live_Array \<Rightarrow> Inr (header @ print_pieces 0 (pieces sec)))
      else Inr (header @ ''   NULL'' @ nl))"

subsection \<open>Files\<close>

definition print_file_handle :: "file_handle_t \<Rightarrow> string" where
  "print_file_handle fhandle =
     ''File Handle'' @ nl
     @ [CHR 0x09] @ ''filename: '' @ print_string (fileName fhandle) @ '' | '' @ c_lu (word_of_nat (length (fileName fhandle))) @ nl
     @ [CHR 0x09] @ ''fullpath: '' @ print_string (path fhandle) @ '' | '' @ c_lu (word_of_nat (length (path fhandle))) @ nl
     @ [CHR 0x09] @ ''size: '' @ c_lu (fileSize fhandle) @ nl
     @ [CHR 0x09] @ ''status: '' @ (if pointerStatus fhandle then ''valid'' else ''corrupted'') @ nl"

definition print_dir_handle :: "dir_handle_t \<Rightarrow> string" where
  "print_dir_handle dhandle =
     ''Directory '' @ [CHR 0x27] @ print_string (dir dhandle) @ [CHR 0x27] @ nl
     @ concat (map (\<lambda>fh. ''  - '' @ print_string (fileName fh) @ '' | '' @ c_lu (fileSize fh) @ nl) (handles dhandle))"

subsection \<open>Connections\<close>

definition print_channel :: "nat \<Rightarrow> channel_t \<Rightarrow> string" where
  "print_channel i ch =
     ''   * channel '' @ c_lu (word_of_nat i) @ nl
     @ ''     thread:'' @ c_int (sint (chan_thread ch)) @ nl
     @ ''     selfID:'' @ c_lu (selfID ch) @ '' | otherID:'' @ c_lu (otherID ch) @ nl
     @ ''     maxSize:'' @ c_lu (maxSize ch) @ nl
     @ ''     file:'' @ (case chan_handle ch of Some fh \<Rightarrow> print_string (fileName fh) | None \<Rightarrow> ''none'') @ nl"

text \<open>
  The test \<^verbatim>\<open>(*totalConnections)-1 < index\<close> is unsigned, so an empty table passes every index. \<open>ptr\<close> is the state of
  the array pointer, which matters only when the table is empty.
\<close>

definition print_connection ::
    "host \<Rightarrow> (nat \<Rightarrow> sockaddr_in) \<Rightarrow> array_ptr \<Rightarrow> conn_table \<Rightarrow> uint64 \<Rightarrow> string c_result" where
  "print_connection h addrs ptr t index =
     (let header = ''Connection '' @ c_lu index @ nl in
      if word_of_nat (length (conns t)) - 1 < index then Inr (header @ ''  NULL | Does not Exist'' @ nl)
      else if conns t = [] then
        Inl (case ptr of Null_Array \<Rightarrow> Null_Deref | Freed_Array \<Rightarrow> Use_After_Free | Live_Array \<Rightarrow> OOB_Read)
      else c_bind (c_guard (unat index < length (conns t)) OOB_Read) (\<lambda>_.
        (let c = conns t ! unat index; a = addrs (unat index) in
         Inr (header @ ''  sock:'' @ c_int (conn_sock c) @ nl
           @ ''  address:'' @ inet_ntoa (sin_addr a) @ '' | port:'' @ c_int (ntohs h (sin_port a)) @ nl
           @ ''  channels amount:'' @ c_lu (word_of_nat (length (chans c))) @ nl
           @ ''  channels:'' @ nl
           @ (if chans c \<noteq> []
              then concat (map (\<lambda>i. print_channel i (chans c ! i)) [0..<length (chans c)])
              else ''   NULL'' @ nl)))))"

fun print_connections ::
    "host \<Rightarrow> (nat \<Rightarrow> sockaddr_in) \<Rightarrow> array_ptr \<Rightarrow> conn_table \<Rightarrow> nat list \<Rightarrow> string c_result" where
  "print_connections h addrs ptr t [] = Inr ''''"
| "print_connections h addrs ptr t (i # is) =
     c_bind (print_connection h addrs ptr t (word_of_nat i)) (\<lambda>s.
     c_bind (print_connections h addrs ptr t is) (\<lambda>r. Inr (s @ r)))"

definition print_all_connections ::
    "host \<Rightarrow> (nat \<Rightarrow> sockaddr_in) \<Rightarrow> array_ptr \<Rightarrow> conn_table \<Rightarrow> string c_result" where
  "print_all_connections h addrs ptr t =
     c_bind (if conns t = [] then Inr (''NULL'' @ nl)
             else print_connections h addrs ptr t [0..<length (conns t)]) (\<lambda>s.
     Inr (''All Channels:'' @ nl @ s))"

subsection \<open>Reading a printed section\<close>

fun split_lines :: "string \<Rightarrow> string \<Rightarrow> string list" where
  "split_lines acc [] = []"
| "split_lines acc (c # s) = (if c = CHR 0x0A then acc # split_lines [] s else split_lines (acc @ [c]) s)"

definition read_piece :: "string \<Rightarrow> piece_t" where
  "read_piece line =
     (let s = drop 4 (dropWhile (\<lambda>c. c \<noteq> CHR ''|'') line) in
      \<lparr>lowBound = word_of_nat (read_dec (takeWhile (\<lambda>c. c \<noteq> CHR '','') s) 0),
       highBound = word_of_nat (read_dec (drop 3 (dropWhile (\<lambda>c. c \<noteq> CHR '','') s)) 0)\<rparr>)"

definition read_section :: "string \<Rightarrow> piece_t list" where
  "read_section s = (let ls = drop 4 (split_lines [] s) in if ls = [''   NULL''] then [] else map read_piece ls)"

lemma split_lines_cons: "CHR 0x0A \<notin> set l \<Longrightarrow> split_lines acc (l @ nl @ s) = (acc @ l) # split_lines [] s"
  by (induction l arbitrary: acc) (auto simp: nl_def)

lemma dec_no: "c \<in> {CHR 0x0A, CHR '','', CHR '' ''} \<Longrightarrow> c \<notin> set (dec n)"
  by (rule dec_no_sign) auto

lemma dec_no_bar: "CHR ''|'' \<notin> set (dec n)"
proof
  assume "CHR ''|'' \<in> set (dec n)"
  then obtain k where k: "k < 10" "CHR ''|'' = digit k" using dec_chars by blast
  have "(of_char (CHR ''|'') :: nat) = 48 + k"
    unfolding k(2) by (rule of_char_digit [OF k(1)])
  then show False using k(1) by simp
qed

lemma take_drop_until:
  "z \<notin> set a \<Longrightarrow> takeWhile (\<lambda>c. c \<noteq> z) (a @ z # b) = a" "z \<notin> set a \<Longrightarrow> dropWhile (\<lambda>c. c \<noteq> z) (a @ z # b) = z # b"
  by (induction a) auto

lemma read_print_piece:
  "read_piece (''   '' @ c_lu n @ ''| l:'' @ c_lu (lowBound p) @ '',h:'' @ c_lu (highBound p)) = p"
  using take_drop_until(2) [of "CHR ''|''" "''   '' @ c_lu n"] take_drop_until [of "CHR '',''" "c_lu (lowBound p)"]
  by (simp add: read_piece_def c_lu_def dec_no_bar dec_no read_dec_dec)

lemma read_print_pieces: "map read_piece (split_lines [] (print_pieces i ps)) = ps"
proof (induction ps arbitrary: i)
  case (Cons p ps)
  let ?l = "''   '' @ c_lu (word_of_nat i + 1) @ ''| l:'' @ c_lu (lowBound p) @ '',h:'' @ c_lu (highBound p)"
  have "CHR 0x0A \<notin> set ?l" by (simp add: c_lu_def dec_no)
  then have "split_lines [] (?l @ nl @ s) = ?l # split_lines [] s" for s
    using split_lines_cons [of ?l "[]"] by simp
  then show ?case
    using Cons read_print_piece [of "word_of_nat i + 1" p] by (simp add: print_piece_def)
qed simp

lemma print_pieces_not_NULL: "split_lines [] (print_pieces i ps) \<noteq> [''   NULL'']"
proof (cases ps)
  case (Cons p qs)
  let ?l = "''   '' @ c_lu (word_of_nat i + 1) @ ''| l:'' @ c_lu (lowBound p) @ '',h:'' @ c_lu (highBound p)"
  have "CHR 0x0A \<notin> set ?l" by (simp add: c_lu_def dec_no)
  then have "split_lines [] (print_pieces i ps) = ?l # split_lines [] (print_pieces (Suc i) qs)"
    using split_lines_cons [of ?l "[]" "print_pieces (Suc i) qs"] by (simp add: Cons print_piece_def)
  moreover have "CHR ''|'' \<in> set ?l" by simp
  then have "?l \<noteq> ''   NULL''" by force
  ultimately show ?thesis by simp
qed simp

lemma split_header:
  "split_lines [] ((''Section'' @ nl @ ''-------'' @ nl @ ''# pieces: '' @ c_lu n @ nl @ ''pieces:'' @ nl) @ s) =
     [''Section'', ''-------'', ''# pieces: '' @ c_lu n, ''pieces:''] @ split_lines [] s"
proof -
  have "CHR 0x0A \<notin> set (''# pieces: '' @ c_lu n)" by (simp add: c_lu_def dec_no)
  from split_lines_cons [OF this, of "[]" "''pieces:'' @ nl @ s"] show ?thesis
    by (simp add: nl_def)
qed

lemma print_section_reads:
  assumes "pieces sec = [] \<or> piecesPtr sec = Live_Array"
  shows "\<exists>s. print_section sec = Inr s \<and> read_section s = pieces sec"
proof (cases "pieces sec = []")
  case True
  then show ?thesis
    using split_header [of 0 "''   NULL'' @ nl"] by (simp add: print_section_def read_section_def nl_def)
next
  case False
  then show ?thesis
    using assms print_pieces_not_NULL [of 0 "pieces sec"]
    by (simp add: print_section_def read_section_def split_header [simplified] read_print_pieces)
qed

subsection \<open>Properties\<close>

text \<open>
  What \<^verbatim>\<open>print_section\<close> prints determines the section: whenever it prints, its pieces can be read back from the text, and
  it prints for every section whose array has not been released.
\<close>

theorem print_section_roundtrip:
  assumes "pieces sec = [] \<or> piecesPtr sec = Live_Array"
  shows "\<exists>s. print_section sec = Inr s \<and> read_section s = pieces sec"
  using assms by (rule print_section_reads)

theorem print_section_roundtrip_witness:
  "\<exists>s. print_section (add_to_section (add_to_section create_section 5) 9) = Inr s
     \<and> read_section s = [\<lparr>lowBound = 5, highBound = 5\<rparr>, \<lparr>lowBound = 9, highBound = 9\<rparr>]"
proof -
  have "pieces (add_to_section (add_to_section create_section 5) 9) = [\<lparr>lowBound = 5, highBound = 5\<rparr>, \<lparr>lowBound = 9, highBound = 9\<rparr>]"
    "piecesPtr (add_to_section (add_to_section create_section 5) 9) = Live_Array"
    by code_simp+
  then show ?thesis
    using print_section_roundtrip [of "add_to_section (add_to_section create_section 5) 9"] by simp
qed

lemma unsigned_check:
  assumes "n < 2 ^ 64" "0 < n"
  shows "\<not> (word_of_nat n - 1 < (index :: uint64)) \<longleftrightarrow> unat index < n"
proof -
  have "unat (word_of_nat n - 1 :: uint64) = n - 1"
    using assms unat_minus_one [of "word_of_nat n :: uint64"] unat_of_nat64 [OF assms(1)] by fastforce
  then show ?thesis using assms(2) by (auto simp: word_less_nat_alt)
qed

lemma print_connection_Inr:
  assumes "length (conns t) < 2 ^ 64" "conns t \<noteq> []"
  shows "\<exists>s. print_connection h addrs ptr t index = Inr s"
  using assms(2) unsigned_check [OF assms(1), of index]
  by (cases "word_of_nat (length (conns t)) - 1 < index") (simp_all add: print_connection_def Let_def)

lemma print_connections_Inr:
  assumes "length (conns t) < 2 ^ 64" "conns t \<noteq> []"
  shows "\<exists>ss. print_connections h addrs ptr t is = Inr (concat ss) \<and> length ss = length is
     \<and> list_all2 (\<lambda>i s. print_connection h addrs ptr t (word_of_nat i) = Inr s) is ss"
proof (induction "is")
  case (Cons i "is")
  then obtain ss where ss: "print_connections h addrs ptr t is = Inr (concat ss)" "length ss = length is"
    "list_all2 (\<lambda>i s. print_connection h addrs ptr t (word_of_nat i) = Inr s) is ss" by blast
  obtain s where "print_connection h addrs ptr t (word_of_nat i) = Inr s"
    using print_connection_Inr [OF assms] by blast
  then show ?case using ss by (intro exI [of _ "s # ss"]) simp
qed simp

text \<open>
  Printing all connections succeeds for every table, one entry per connection, but printing a single one is safe only for a
  table that is not empty: the bounds check subtracts 1 from 0 and passes every index, and the routine reads through the
  table's null or released pointer.
\<close>

theorem print_connection_safe:
  assumes "length (conns t) < 2 ^ 64"
  shows "(\<exists>ss. print_all_connections h addrs ptr t = Inr (''All Channels:'' @ nl @ concat ss) \<and> length ss = max 1 (length (conns t)))
     \<and> (conns t = [] \<longleftrightarrow> print_connection h addrs Null_Array t index = Inl Null_Deref)
     \<and> (conns t = [] \<longleftrightarrow> print_connection h addrs Freed_Array t index = Inl Use_After_Free)"
proof (cases "conns t = []")
  case True
  then show ?thesis
    by (auto simp: print_connection_def print_all_connections_def Let_def intro: exI [of _ "[''NULL'' @ nl]"])
next
  case False
  obtain ss where "print_connections h addrs ptr t [0..<length (conns t)] = Inr (concat ss)" "length ss = length (conns t)"
    using print_connections_Inr [OF assms False, of h addrs ptr "[0..<length (conns t)]"] by auto
  then have "print_all_connections h addrs ptr t = Inr (''All Channels:'' @ nl @ concat ss)" "length ss = max 1 (length (conns t))"
    using False by (simp_all add: print_all_connections_def max_absorb2 Suc_le_eq)
  moreover have "print_connection h addrs p t index \<noteq> Inl e" for p e
    using print_connection_Inr [OF assms False, of h addrs p index] by fastforce
  ultimately show ?thesis
    using False by blast
qed

theorem print_connection_safe_witness:
  "(\<exists>ss. print_all_connections Little_Host (\<lambda>_. \<lparr>sin_addr = (127, 0, 0, 1), sin_port = 1\<rparr>) Null_Array conn_init =
       Inr (''All Channels:'' @ nl @ concat ss) \<and> length ss = 1)
     \<and> print_connection Little_Host (\<lambda>_. \<lparr>sin_addr = (127, 0, 0, 1), sin_port = 1\<rparr>) Null_Array conn_init 7 = Inl Null_Deref"
  using print_connection_safe [of conn_init Little_Host "\<lambda>_. \<lparr>sin_addr = (127, 0, 0, 1), sin_port = 1\<rparr>" Null_Array 7]
  by (simp add: conn_init_def)

end
