(* ===== verification/Server_Main.thy ===== *)
theory Server_Main
  imports Msg_Types Arg_Scan Table_Print
begin

text \<open>
  The main program of \<^verbatim>\<open>src/justin-snapshot/drv/server.c\<close> around the handling of messages: opening the directory, the argument, the
  master socket, the set of descriptors given to \<^verbatim>\<open>select\<close>, and the endless loop. What the system calls return is an
  argument, by call. A descriptor set holds the descriptors from 0 to below \<open>FD_SETSIZE\<close>; \<^verbatim>\<open>FD_SET\<close> and \<^verbatim>\<open>FD_ISSET\<close> of another one leave
  it. When \<^verbatim>\<open>select\<close> fails it leaves its sets as they were, and the loop goes on with them.
\<close>

definition FD_SETSIZE :: int where
  "FD_SETSIZE = 1024"

subsection \<open>Setting up\<close>

record server_env =
  socket_ret :: int
  setsockopt_ret :: "int \<Rightarrow> int"
  bind_ret :: "int \<Rightarrow> uint16 \<Rightarrow> int"
  listen_ret :: "int \<Rightarrow> int"

datatype setup_alert = Socket_Not_Started | Options_Failed | Bind_Failed | Listen_Failed

datatype set_up = Returns int | Fails setup_alert | Listening int dir_handle_t

text \<open>
  The text on standard output and the state in which the set-up ends. \<open>argv ! 0\<close> exists when the program is started
  the usual way. The directory is opened before the arguments are looked at.
\<close>

definition server_setup :: "server_env \<Rightarrow> dir_handle_t c_result \<Rightarrow> bytes list \<Rightarrow> (string \<times> set_up) c_result" where
  "server_setup env opened argv =
     c_bind opened (\<lambda>dh.
     (let out = print_dir_handle dh @ nl in
      if length argv \<noteq> 2 then Inr (out @ ''usage: '' @ print_string (argv ! 0) @ '' port'' @ nl, Returns (-1))
      else (case sscanf_d (argv ! 1) of
          None \<Rightarrow> Inr (out, Returns (-2))
        | Some port \<Rightarrow>
            (let master = socket_ret env; p = word_of_int port :: uint16;
                 out' = out @ ''Listener on port '' @ c_int port @ nl in
             if master = 0 then Inr (out, Fails Socket_Not_Started)
             else if setsockopt_ret env master < 0 then Inr (out, Fails Options_Failed)
             else if bind_ret env master p < 0 then Inr (out, Fails Bind_Failed)
             else if listen_ret env master < 0 then Inr (out', Fails Listen_Failed)
             else Inr (out' @ ''Waiting for connections...'' @ nl, Listening master dh)))))"

subsection \<open>Waiting for activity\<close>

text \<open>The loop that fills the set; the result is the set and the highest descriptor (lines 107 to 119).\<close>

fun watch_loop :: "int list \<Rightarrow> int list \<Rightarrow> int \<Rightarrow> (int list \<times> int) c_result" where
  "watch_loop [] fds max_sd = Inr (fds, max_sd)"
| "watch_loop (s # ss) fds max_sd =
     c_bind (if s > 0 then c_bind (c_guard (s < FD_SETSIZE) OOB_Write) (\<lambda>_. Inr (fds @ [s])) else Inr fds) (\<lambda>fds.
     watch_loop ss fds (if s > max_sd then s else max_sd))"

definition watch :: "int \<Rightarrow> conn_table \<Rightarrow> (int list \<times> int) c_result" where
  "watch master t =
     c_bind (c_guard (0 \<le> master \<and> master < FD_SETSIZE) OOB_Write) (\<lambda>_. watch_loop (map conn_sock (conns t)) [master] master)"

datatype select_result = Select_Ready "int set" | Select_Failed

text \<open>The descriptors for which \<^verbatim>\<open>FD_ISSET\<close> holds after \<^verbatim>\<open>select\<close> was asked about those below \<^verbatim>\<open>max_sd + 1\<close>.\<close>

definition selected :: "int list \<Rightarrow> int \<Rightarrow> select_result \<Rightarrow> int \<Rightarrow> bool" where
  "selected fds max_sd r s \<longleftrightarrow>
     s \<in> set fds \<and> (case r of Select_Ready active \<Rightarrow> s < max_sd + 1 \<and> s \<in> active | Select_Failed \<Rightarrow> True)"

subsection \<open>The loop\<close>

text \<open>What the world does in one round. A negative descriptor from \<^verbatim>\<open>accept\<close> ends the program.\<close>

record round_input =
  selects :: select_result
  accept_ret :: int
  receives :: "int \<Rightarrow> msg_t option"
  draws :: "nat \<Rightarrow> uint64"
  self_ids :: "nat \<Rightarrow> uint64"

datatype server_status = Serving | Accept_Exit

definition server_cycle ::
    "machine \<Rightarrow> dir_handle_t \<Rightarrow> int \<Rightarrow> round_input \<Rightarrow> conn_table \<Rightarrow> (server_status \<times> conn_table \<times> answers) c_result" where
  "server_cycle mc dh master inp t =
     c_bind (watch master t) (\<lambda>(fds, max_sd).
     (let ready = selected fds max_sd (selects inp) in
      if ready master then
        (if accept_ret inp < 0 then Inr (Accept_Exit, t, [])
         else c_bind (c_guard (accept_ret inp < FD_SETSIZE) OOB_Read) (\<lambda>_.
              c_bind (server_round mc dh (draws inp) (self_ids inp) ready (receives inp) (Some (accept_ret inp)) t) (\<lambda>(t, out).
              Inr (Serving, t, out))))
      else c_bind (server_round mc dh (draws inp) (self_ids inp) ready (receives inp) None t) (\<lambda>(t, out).
           Inr (Serving, t, out))))"

fun channel_server_run ::
    "machine \<Rightarrow> dir_handle_t \<Rightarrow> int \<Rightarrow> round_input list \<Rightarrow> conn_table \<Rightarrow> answers
     \<Rightarrow> (server_status \<times> conn_table \<times> answers) c_result" where
  "channel_server_run mc dh master [] t out = Inr (Serving, t, out)"
| "channel_server_run mc dh master (inp # inps) t out =
     c_bind (server_cycle mc dh master inp t) (\<lambda>(st, t, ans).
     if st = Accept_Exit then Inr (Accept_Exit, t, out @ ans)
     else channel_server_run mc dh master inps t (out @ ans))"

definition channel_server_main ::
    "server_env \<Rightarrow> machine \<Rightarrow> dir_handle_t c_result \<Rightarrow> bytes list \<Rightarrow> round_input list
     \<Rightarrow> (string \<times> set_up \<times> server_status \<times> conn_table \<times> answers) c_result" where
  "channel_server_main env mc opened argv inps =
     c_bind (server_setup env opened argv) (\<lambda>(out, st).
     case st of
       Listening master dh \<Rightarrow>
         c_bind (channel_server_run mc dh master inps conn_init []) (\<lambda>res. Inr (out, st, res))
     | _ \<Rightarrow> Inr (out, st, Serving, conn_init, []))"

subsection \<open>The descriptors that are watched\<close>

lemma watch_loop_Inr:
  assumes "watch_loop ss fds m = Inr (fds', m')"
  shows "fds' = fds @ filter (\<lambda>s. s > 0) ss \<and> m \<le> m' \<and> (\<forall>s \<in> set ss. s \<le> m' \<and> s < FD_SETSIZE)"
  using assms
proof (induction ss arbitrary: fds m)
  case (Cons s ss)
  then show ?case by (fastforce simp: c_result_iff FD_SETSIZE_def split: if_splits)
qed simp

lemma watch_loop_ok: "\<forall>s \<in> set ss. s < FD_SETSIZE \<Longrightarrow> \<exists>r. watch_loop ss fds m = Inr r"
  by (induction ss arbitrary: fds m) auto

lemma watch_Inr:
  assumes "watch master t = Inr (fds, max_sd)"
  shows "fds = master # filter (\<lambda>s. s > 0) (socks t)" "\<forall>s \<in> set fds. s < max_sd + 1" "\<forall>s \<in> set (socks t). s < FD_SETSIZE"
  using assms watch_loop_Inr [of "socks t" "[master]" master fds max_sd] by (auto simp: watch_def c_result_iff)

lemma watch_ok: "0 \<le> master \<Longrightarrow> master < FD_SETSIZE \<Longrightarrow> \<forall>s \<in> set (socks t). s < FD_SETSIZE \<Longrightarrow> \<exists>r. watch master t = Inr r"
  using watch_loop_ok [of "socks t" "[master]" master] by (simp add: watch_def)

subsection \<open>What a run keeps\<close>

text \<open>The invariant of the table, and every descriptor fits into a descriptor set.\<close>

definition run_ok :: "conn_table \<Rightarrow> bool" where
  "run_ok t \<longleftrightarrow> server_ok t \<and> (\<forall>s \<in> set (socks t). s < FD_SETSIZE)"

definition sized_input :: "round_input \<Rightarrow> bool" where
  "sized_input inp \<longleftrightarrow> (\<forall>s. pred_option layout_ok (receives inp s))"

lemma server_round_ok: "server_ok t \<Longrightarrow> server_round mc dh rnds ids ready recv s t = Inr (t', out) \<Longrightarrow> server_ok t'"
  using srv.step_inv [of t mc dh t'] unfolding server_step_def by blast

lemma server_cycle_round:
  assumes "server_cycle mc dh master inp t = Inr (Serving, t', out)"
  obtains ready s where "server_round mc dh (draws inp) (self_ids inp) ready (receives inp) s t = Inr (t', out)"
    "\<forall>x \<in> set_option s. 0 \<le> x \<and> x < FD_SETSIZE \<and> x = accept_ret inp" "\<forall>x \<in> set (socks t). x < FD_SETSIZE"
proof -
  obtain fds max_sd where w: "watch master t = Inr (fds, max_sd)"
    using assms by (auto simp: server_cycle_def c_result_iff)
  let ?ready = "selected fds max_sd (selects inp)"
  show thesis
  proof (cases "?ready master")
    case True
    then show thesis
      using assms that [of ?ready "Some (accept_ret inp)"] watch_Inr(3) [OF w]
      by (auto simp: server_cycle_def w Let_def c_result_iff split: if_splits)
  next
    case False
    then show thesis
      using assms that [of ?ready None] watch_Inr(3) [OF w] by (auto simp: server_cycle_def w Let_def c_result_iff)
  qed
qed

lemma server_cycle_keeps:
  assumes "server_cycle mc dh master inp t = Inr (st, t', out)" "server_ok t" "sized_input inp"
  shows "server_ok t' \<and> typed_answers {s. s < FD_SETSIZE} out \<and> (\<forall>s \<in> set (socks t'). s < FD_SETSIZE)"
proof (cases st)
  case Accept_Exit
  then have "t' = t \<and> out = []" "\<exists>r. watch master t = Inr r"
    using assms(1) by (auto simp: server_cycle_def Let_def c_result_iff split: if_splits)
  then show ?thesis
    using assms(2) watch_Inr(3) [of master t] by (fastforce simp: typed_answers_def)
next
  case Serving
  then obtain ready s where r: "server_round mc dh (draws inp) (self_ids inp) ready (receives inp) s t = Inr (t', out)"
    "\<forall>x \<in> set_option s. x < FD_SETSIZE" "\<forall>x \<in> set (socks t). x < FD_SETSIZE"
    using assms(1) server_cycle_round [of mc dh master inp t t' out] by metis
  have "typed_answers (set (socks t) \<union> set_option s) out" "set (socks t') \<subseteq> set (socks t) \<union> set_option s"
    using server_round_typed [OF _ r(1)] assms(3) by (auto simp: sized_input_def)
  then show ?thesis
    using r(2,3) server_round_ok [OF assms(2) r(1)] by (fastforce simp: typed_answers_def list_all_iff)
qed

lemma server_run_keeps:
  "channel_server_run mc dh master inps t out = Inr (st, t', out') \<Longrightarrow> server_ok t \<Longrightarrow> \<forall>s \<in> set (socks t). s < FD_SETSIZE
   \<Longrightarrow> list_all sized_input inps \<Longrightarrow> typed_answers {s. s < FD_SETSIZE} out
   \<Longrightarrow> run_ok t' \<and> typed_answers {s. s < FD_SETSIZE} out'"
proof (induction inps arbitrary: t out)
  case (Cons inp inps)
  obtain st1 t1 ans where c: "server_cycle mc dh master inp t = Inr (st1, t1, ans)"
    using Cons.prems(1) by (auto simp: c_result_iff)
  have k: "server_ok t1" "typed_answers {s. s < FD_SETSIZE} (out @ ans)" "\<forall>s \<in> set (socks t1). s < FD_SETSIZE"
    using server_cycle_keeps [OF c Cons.prems(2)] Cons.prems(4,5) by (auto simp: typed_answers_def)
  show ?case
    using Cons.IH [OF _ k(1,3) _ k(2)] Cons.prems(1,4) k by (auto simp: c run_ok_def split: if_splits)
qed (simp add: run_ok_def)

subsection \<open>Properties\<close>

text \<open>
  C6. The server program, from its start and for any number of rounds: as long as it runs, its channel counter is right, at most
  \<open>MAX_CHANNELS\<close> channels exist and each has a file, whatever clients send and however descriptors become ready. Every answer of the main loop is
  well typed, and so is every message that the thread of an open channel sends, for any requests it is given, when the client asked for segments below
  64 KiB.
\<close>

theorem server_main_typed:
  assumes "channel_server_main env mc opened argv inps = Inr (txt, st, status, t, out)" "list_all sized_input inps"
  shows "list_all (\<lambda>(s, m). well_typed m) out
     \<and> unat (totalChannels t) = sum_list (map (\<lambda>c. length (chans c)) (conns t)) \<and> totalChannels t \<le> MAX_CHANNELS
     \<and> list_all (\<lambda>c. list_all (\<lambda>ch. chan_handle ch \<noteq> None
         \<and> (unat (maxSize ch) < 65536 \<longrightarrow>
            (\<forall>g rnds evs st th ch' sent. fork_server_channel g rnds ch evs = Inr (st, th, ch', sent) \<longrightarrow> list_all well_typed sent)))
         (chans c)) (conns t)"
proof -
  have init: "run_ok conn_init" "typed_answers {s. s < FD_SETSIZE} []"
    by (simp_all add: run_ok_def server_ok_def counted_def channel_count_def conn_init_def typed_answers_def)
  obtain txt' st' where "server_setup env opened argv = Inr (txt', st')"
    using assms(1) by (auto simp: channel_server_main_def c_result_iff)
  then consider "t = conn_init" "out = []"
    | master dh where "channel_server_run mc dh master inps conn_init [] = Inr (status, t, out)"
    using assms(1) by (cases st') (auto simp: channel_server_main_def c_result_iff)
  then have "run_ok t \<and> typed_answers {s. s < FD_SETSIZE} out"
  proof cases
    case 2
    then show ?thesis
      using server_run_keeps [OF 2 _ _ assms(2) init(2)] init(1) by (auto simp: run_ok_def)
  qed (use init in simp)
  then have ok: "server_ok t" "typed_answers {s. s < FD_SETSIZE} out" by (simp_all add: run_ok_def)
  have "totalChannels t \<le> MAX_CHANNELS"
    using server_ok_count [OF ok(1)] ok(1) by (simp add: server_ok_def MAX_CHANNELS_def word_le_nat_alt)
  then show ?thesis
    using ok server_ok_count [OF ok(1)] thread_typed
    by (auto simp: server_ok_def typed_answers_def list_all_iff channel_count_def)
qed

text \<open>A client connects in the first round and asks for a file in the second.\<close>

definition sample_server :: server_env where
  "sample_server = \<lparr>socket_ret = 3, setsockopt_ret = (\<lambda>_. 0), bind_ret = (\<lambda>_ _. 0), listen_ret = (\<lambda>_. 0)\<rparr>"

definition sample_input :: round_input where
  "sample_input = \<lparr>selects = Select_Ready {3}, accept_ret = 5, receives = (\<lambda>_. None), draws = (\<lambda>_. 7), self_ids = (\<lambda>_. 300)\<rparr>"

definition sample_asking :: round_input where
  "sample_asking = \<lparr>selects = Select_Ready {5}, accept_ret = 0, receives = (\<lambda>_. Some sample_request), draws = (\<lambda>_. 9), self_ids = (\<lambda>_. 300)\<rparr>"

lemma sample_round:
  "handle_message sample_machine sample_dir 9 300 \<lparr>conns = [\<lparr>conn_sock = 5, chans = []\<rparr>], totalChannels = 0\<rparr> 0 (Some sample_request) =
     Inr (one_channel, [(5, control_msg 9 300 100 ACK 2 [])])"
proof -
  have "verify_msg sample_request = Inr True" unfolding sample_request_def by (rule formed_verifies) simp_all
  moreover have "channel_request sample_machine sample_dir 9 300 \<lparr>conns = [\<lparr>conn_sock = 5, chans = []\<rparr>], totalChannels = 0\<rparr> 0 sample_request =
     Inr (one_channel, [(5, control_msg 9 300 100 ACK 2 [])])"
    using channel_request_new [OF sample_asks, of 0 "\<lparr>conns = [\<lparr>conn_sock = 5, chans = []\<rparr>], totalChannels = 0\<rparr>" sample_machine]
    by (simp add: sample_simps MAX_CHANNELS_def find_existing_channel_def num_segments_in_file_handle_def Let_def)
  ultimately show ?thesis
    by (simp add: handle_message_def) (simp add: sample_request_def formed_msg_def form_head_def)
qed

lemma sample_server_runs:
  "channel_server_main sample_server sample_machine (Inr sample_dir) [[115], [57]] [sample_input, sample_asking] =
     Inr (print_dir_handle sample_dir @ nl @ ''Listener on port 9'' @ nl @ ''Waiting for connections...'' @ nl,
       Listening 3 sample_dir, Serving, one_channel, [(5, control_msg 9 300 100 ACK 2 [])])"
proof -
  have "sscanf_d [57] = Some 9" by (simp add: sscanf_d_def scan_int_def scan_nat_def is_space_def is_digit_def as_int_def)
  moreover have "c_int 9 = ''9''" by code_simp
  ultimately show ?thesis
    by (simp add: channel_server_main_def server_setup_def sample_server_def server_cycle_def watch_def FD_SETSIZE_def selected_def sample_input_def
        sample_asking_def conn_init_def server_round_def accept_connection_def new_connection_def grow_array_def Let_def sample_round one_channel_def)
qed

theorem server_main_typed_witness:
  "\<exists>txt. channel_server_main sample_server sample_machine (Inr sample_dir) [[115], [57]] [sample_input, sample_asking] =
       Inr (txt, Listening 3 sample_dir, Serving, one_channel, [(5, control_msg 9 300 100 ACK 2 [])])
     \<and> well_typed (control_msg 9 300 100 ACK 2 []) \<and> totalChannels one_channel = 1
     \<and> (\<forall>g rnds evs st th ch' sent. fork_server_channel g rnds (chans (conns one_channel ! 0) ! 0) evs = Inr (st, th, ch', sent)
          \<longrightarrow> list_all well_typed sent)"
proof -
  have s: "list_all sized_input [sample_input, sample_asking]"
    by (simp add: sized_input_def sample_input_def sample_asking_def sample_request_def wf_msg_layout wf_formed_msg)
  obtain c ch where c: "conns one_channel = [c]" "chans c = [ch]" "unat (maxSize ch) < 65536" "totalChannels one_channel = 1"
    by (simp add: sample_simps Let_def)
  show ?thesis
    using server_main_typed [OF sample_server_runs s] sample_server_runs c by auto
qed

text \<open>
  C26. Waiting: the set given to \<^verbatim>\<open>select\<close> can be built exactly when all descriptors are below 1024; it then holds the master socket
  and every open connection, and the bound passed along covers all of them. A connection whose descriptor is larger
  is accepted but leaves the descriptor set in the same round.
\<close>

theorem watch_exact:
  assumes "0 \<le> master" "master < FD_SETSIZE" "list_all (\<lambda>c. 0 < conn_sock c) (conns t)"
  shows "(if list_all (\<lambda>c. conn_sock c < FD_SETSIZE) (conns t)
       then \<exists>fds max_sd. watch master t = Inr (fds, max_sd) \<and> fds = master # map conn_sock (conns t) \<and> list_all (\<lambda>s. s < max_sd + 1) fds
         \<and> (selected fds max_sd (selects inp) master \<and> FD_SETSIZE \<le> accept_ret inp \<longrightarrow> server_cycle mc dh master inp t = Inl OOB_Read)
       else \<nexists>r. watch master t = Inr r)"
proof (cases "list_all (\<lambda>c. conn_sock c < FD_SETSIZE) (conns t)")
  case True
  then obtain fds max_sd where w: "watch master t = Inr (fds, max_sd)"
    using watch_ok [OF assms(1,2), of t] by (auto simp: list_all_iff)
  have "filter (\<lambda>s. s > 0) (socks t) = socks t"
    using assms(3) by (simp add: filter_id_conv list_all_iff)
  then show ?thesis
    using True w watch_Inr(1,2) [OF w] by (auto simp: list_all_iff server_cycle_def Let_def FD_SETSIZE_def)
next
  case False
  then show ?thesis
    using watch_Inr(3) [of master t] by (fastforce simp: list_all_iff)
qed

theorem watch_exact_witness:
  "\<exists>fds max_sd. watch 3 \<lparr>conns = [\<lparr>conn_sock = 5, chans = []\<rparr>], totalChannels = 0\<rparr> = Inr (fds, max_sd) \<and> fds = [3, 5] \<and> 5 < max_sd + 1
     \<and> server_cycle sample_machine sample_dir 3 (sample_input\<lparr>selects := Select_Failed, accept_ret := 1024\<rparr>)
         \<lparr>conns = [\<lparr>conn_sock = 5, chans = []\<rparr>], totalChannels = 0\<rparr> = Inl OOB_Read"
  using watch_exact [of 3 "\<lparr>conns = [\<lparr>conn_sock = 5, chans = []\<rparr>], totalChannels = 0\<rparr>"
      "sample_input\<lparr>selects := Select_Failed, accept_ret := 1024\<rparr>" sample_machine sample_dir]
  by (auto simp: FD_SETSIZE_def selected_def)

text \<open>
  The check of the master socket is wrong: a failure of \<^verbatim>\<open>socket\<close> (the value -1) is not noticed and shows up as a failure to set
  options on it, while the check reports a failure for descriptor 0, which is valid. The directory is opened first: if
  that fails, a call without arguments fails too instead of printing the usage.
\<close>

theorem socket_failure_unnoticed:
  assumes "\<And>s. s < 0 \<Longrightarrow> setsockopt_ret env s < 0" "sscanf_d port = Some p"
  shows "(socket_ret env = -1 \<longrightarrow> (\<exists>txt. server_setup env (Inr dh) [prog, port] = Inr (txt, Fails Options_Failed)))
     \<and> (\<forall>txt. server_setup env (Inr dh) argv = Inr (txt, Fails Socket_Not_Started) \<longrightarrow> socket_ret env = 0)
     \<and> server_setup env (Inl e) argv = Inl e"
  using assms by (auto simp: server_setup_def Let_def split: if_splits option.splits)

theorem socket_failure_unnoticed_witness:
  "\<exists>txt. server_setup (sample_server\<lparr>socket_ret := -1, setsockopt_ret := (\<lambda>s. if s < 0 then -1 else 0)\<rparr>) (Inr sample_dir) [[115], [57]] =
     Inr (txt, Fails Options_Failed)"
proof -
  have "sscanf_d [57] = Some 9" by (simp add: sscanf_d_def scan_int_def scan_nat_def is_space_def is_digit_def as_int_def)
  from socket_failure_unnoticed [OF _ this, of "sample_server\<lparr>socket_ret := -1, setsockopt_ret := (\<lambda>s. if s < 0 then -1 else 0)\<rparr>"
      sample_dir "[115]" "[]" OOB_Read]
  show ?thesis by simp
qed

end
