(* ===== verification/Msg_Print.thy ===== *)
theory Msg_Print
  imports Message_Correct Table_Print
begin

text \<open>
  The printing of messages: \<^verbatim>\<open>print_msg\<close> and \<^verbatim>\<open>print_msg_header\<close> of \<^verbatim>\<open>message.c\<close> with the tables of names they use. The bodies stand between
  \<^verbatim>\<open>#ifdef NOTDEF\<close> and \<^verbatim>\<open>#ifdef DEBUG2\<close>; whether the macro is defined is an argument. A table of names has one entry for every
  enumerator up to the largest one it mentions, and no name for an enumerator it leaves out.
\<close>

definition NAME_CHANNEL_TYPE :: "string option list" where
  "NAME_CHANNEL_TYPE = [Some ''Data'', Some ''Control'']"

definition NAME_DATA_TYPE :: "string option list" where
  "NAME_DATA_TYPE = [Some ''Synchronize'', Some ''Acknowledge'', Some ''Retransmission'', None, Some ''Finish'']"

definition name_of :: "string option list \<Rightarrow> uint8 \<Rightarrow> string c_result" where
  "name_of names i =
     (if unat i < length names then (case names ! unat i of Some s \<Rightarrow> Inr s | None \<Rightarrow> Inl Null_Deref) else Inl OOB_Read)"

definition c_u :: "uint32 \<Rightarrow> string" where
  "c_u n = dec (unat n)"

text \<open>Header and trailer are printed alike.\<close>

definition print_ht :: "msg_header_t \<Rightarrow> string c_result" where
  "print_ht h =
     c_bind (name_of NAME_DATA_TYPE (dataType h)) (\<lambda>dt.
     c_bind (name_of NAME_CHANNEL_TYPE (chanType h)) (\<lambda>ct.
     Inr (''   | (ID '' @ c_lu (sendID h) @ '') to (ID '' @ c_lu (recvID h) @ '')'' @ nl
       @ ''   | '' @ dt @ '' | '' @ ct @ nl
       @ ''   | segment '' @ c_lu (segmentNum h) @ nl
       @ ''   | lengths:'' @ nl
       @ ''   |   total:'' @ c_u (totalLength h) @ '', body:'' @ c_u (bodyLength h) @ '', content:'' @ c_u (contentLength h)
         @ '', parity:'' @ c_u (parityLength h) @ nl
       @ ''   | ID: '' @ c_u (msgID h) @ nl
       @ ''   | CRC: '' @ c_lu (crc h) @ nl)))"

definition print_body :: "msg_t \<Rightarrow> bool \<Rightarrow> bool \<Rightarrow> bool \<Rightarrow> string c_result" where
  "print_body src printContent printvParity printhParity =
     c_bind (if printContent
             then c_bind (mem_read 0 (unat (contentLength (head src))) (content (body src))) (\<lambda>c. Inr (''   | content: '' @ print_hex c))
             else Inr (''   | content'' @ nl)) (\<lambda>s1.
     c_bind (if printvParity
             then (case vparityData (body src) of
                     v0 # v1 # v2 # v3 # _ \<Rightarrow>
                       Inr (''   | vparity: ('' @ c_lu v0 @ '', '' @ c_lu v1 @ '', '' @ c_lu v2 @ '', '' @ c_lu v3 @ '')'' @ nl)
                   | _ \<Rightarrow> Inl OOB_Read)
             else Inr (''   | vparity'' @ nl)) (\<lambda>s2.
     c_bind (if printhParity
             then c_bind (mem_read 0 (unat (ucast (parityLength (head src)) - compute_vparity_length)) (hparityData (body src))) (\<lambda>p.
                  Inr (''   | hparity: '' @ print_hex p))
             else Inr (''   | hparity'' @ nl)) (\<lambda>s3.
     Inr (s1 @ s2 @ s3))))"

definition print_msg :: "bool \<Rightarrow> msg_t \<Rightarrow> bool \<Rightarrow> bool \<Rightarrow> bool \<Rightarrow> string c_result" where
  "print_msg notdef src printContent printvParity printhParity =
     (if notdef then
        c_bind (print_ht (head src)) (\<lambda>s1.
        c_bind (print_body src printContent printvParity printhParity) (\<lambda>s2.
        c_bind (print_ht (trail src)) (\<lambda>s3.
        Inr (''Message'' @ nl @ ''-------'' @ nl @ ''header:'' @ nl @ s1 @ ''body:'' @ nl @ s2 @ ''trailer:'' @ nl @ s3))))
      else Inr '''')"

definition print_msg_header :: "bool \<Rightarrow> msg_header_t \<Rightarrow> string" where
  "print_msg_header debug2 mhp =
     (if debug2
      then ''SID='' @ c_lu (sendID mhp) @ '', RID='' @ c_lu (recvID mhp) @ '', MsgID='' @ c_u (msgID mhp)
        @ '', chanType='' @ dec (unat (chanType mhp)) @ nl
      else '''')"

subsection \<open>What is printed\<close>

definition has_names :: "msg_header_t \<Rightarrow> bool" where
  "has_names h \<longleftrightarrow> (\<exists>ct. chanType h = chan_code ct) \<and> (\<exists>dt. dt \<noteq> NACK \<and> dataType h = data_code dt)"

lemma chan_named: "(\<exists>s. name_of NAME_CHANNEL_TYPE i = Inr s) \<longleftrightarrow> (\<exists>ct. i = chan_code ct)"
proof
  assume "\<exists>s. name_of NAME_CHANNEL_TYPE i = Inr s"
  then have "unat i < 2" by (auto simp: name_of_def NAME_CHANNEL_TYPE_def split: if_splits)
  then have "unat i = unat (chan_code DATA) \<or> unat i = unat (chan_code CONTROL)" by auto
  then show "\<exists>ct. i = chan_code ct" by (auto simp only: word_unat_eq_iff [symmetric])
next
  assume "\<exists>ct. i = chan_code ct"
  then obtain ct where "i = chan_code ct" ..
  then show "\<exists>s. name_of NAME_CHANNEL_TYPE i = Inr s"
    by (cases ct) (simp_all add: name_of_def NAME_CHANNEL_TYPE_def)
qed

lemma data_named: "(\<exists>s. name_of NAME_DATA_TYPE i = Inr s) \<longleftrightarrow> (\<exists>dt. dt \<noteq> NACK \<and> i = data_code dt)"
proof
  assume s: "\<exists>s. name_of NAME_DATA_TYPE i = Inr s"
  then have "unat i < 5" "unat i \<noteq> 3" by (auto simp: name_of_def NAME_DATA_TYPE_def split: if_splits)
  then have "unat i \<in> {unat (data_code SYN), unat (data_code ACK), unat (data_code RTS), unat (data_code FIN)}" by auto
  then have "i \<in> {data_code SYN, data_code ACK, data_code RTS, data_code FIN}" by (auto simp only: word_unat_eq_iff [symmetric] insert_iff empty_iff)
  then show "\<exists>dt. dt \<noteq> NACK \<and> i = data_code dt" by blast
next
  assume "\<exists>dt. dt \<noteq> NACK \<and> i = data_code dt"
  then obtain dt where "dt \<noteq> NACK" "i = data_code dt" by blast
  then show "\<exists>s. name_of NAME_DATA_TYPE i = Inr s"
    by (cases dt) (simp_all add: name_of_def NAME_DATA_TYPE_def)
qed

lemma print_ht_iff: "(\<exists>s. print_ht h = Inr s) \<longleftrightarrow> has_names h"
  using chan_named [of "chanType h"] data_named [of "dataType h"] by (auto simp: print_ht_def has_names_def c_result_iff)

lemma print_body_ok: "wf_msg m \<Longrightarrow> \<exists>s. print_body m c v p = Inr s"
proof -
  assume wf: "wf_msg m"
  have "unat (ucast (parityLength (head m)) - compute_vparity_length) = unat (ucast (parityLength (head m)) :: uint64) - 32"
    using wf by (subst unat_sub) (auto simp: wf_msg_def compute_vparity_length_def word_le_nat_alt)
  then have "unat (ucast (parityLength (head m)) - compute_vparity_length) = length (hparityData (body m))"
    using wf by (simp add: wf_msg_def)
  moreover have "length (vparityData (body m)) = Suc (Suc (Suc (Suc 0)))"
    using wf by (simp add: wf_msg_def)
  then obtain v0 v1 v2 v3 where "vparityData (body m) = [v0, v1, v2, v3]"
    by (auto simp: length_Suc_conv)
  ultimately show ?thesis
    using wf by (simp add: print_body_def wf_msg_def mem_read_def)
qed

subsection \<open>Properties\<close>

text \<open>
  Printing a formed message: the routine as it is built prints nothing; with its body switched on it prints every message whose
  types have names, and fails for all others. A refusal (type \<open>NACK\<close>), which the server sends, has no name in the table: printing one
  dereferences a null pointer, and a type beyond the enumeration reads behind the table.
\<close>

theorem print_msg_exact:
  assumes "wf_msg m"
  shows "((\<exists>s. print_msg notdef m c v p = Inr s) \<longleftrightarrow> (notdef \<longrightarrow> has_names (head m) \<and> has_names (trail m)))
     \<and> (dataType (head m) = data_code NACK \<longrightarrow> print_msg True m c v p = Inl Null_Deref)
     \<and> (5 \<le> dataType (head m) \<longrightarrow> print_msg True m c v p = Inl OOB_Read)"
proof (intro conjI impI)
  show "(\<exists>s. print_msg notdef m c v p = Inr s) \<longleftrightarrow> (notdef \<longrightarrow> has_names (head m) \<and> has_names (trail m))"
    using print_body_ok [OF assms, of c v p] by (auto simp: print_msg_def c_result_iff simp flip: print_ht_iff)
  show "dataType (head m) = data_code NACK \<Longrightarrow> print_msg True m c v p = Inl Null_Deref"
    by (simp add: print_msg_def print_ht_def name_of_def NAME_DATA_TYPE_def)
  show "5 \<le> dataType (head m) \<Longrightarrow> print_msg True m c v p = Inl OOB_Read"
    by (simp add: print_msg_def print_ht_def name_of_def NAME_DATA_TYPE_def word_le_nat_alt)
qed

theorem print_msg_exact_witness:
  "\<exists>s. print_msg True (formed_msg (form_head 7 100 200 (chan_code DATA) (data_code SYN) 0 3) [1, 2, 3]) True True True = Inr s"
proof -
  let ?m = "formed_msg (form_head 7 100 200 (chan_code DATA) (data_code SYN) 0 3) [1, 2, 3]"
  have "wf_msg ?m" by (rule wf_formed_msg) simp_all
  moreover have "has_names (head ?m)" "has_names (trail ?m)"
    by (auto simp: has_names_def formed_msg_def form_head_def intro: exI [of _ DATA] exI [of _ SYN])
  ultimately show ?thesis using print_msg_exact [of ?m True] by blast
qed

end
