(* ===== verification/Test_Driver.thy ===== *)
theory Test_Driver
  imports Cobs_Unit Random_Uint Msg_Print Socket_Msg File_Handle_Correct
begin

text \<open>
  The tests of \<^verbatim>\<open>src/justin-snapshot/drv/test.c\<close>. The result of a test is the text it prints after its title. Two calls of the file
  cannot be built: \<^verbatim>\<open>compute_buff_length\<close>, whose definition the preprocessor removes, is taken from the text that is removed;
  \<^verbatim>\<open>msg_from_bytes\<close>, called without its length, stands behind an overrun of a buffer and is not reached.
\<close>

subsection \<open>The tests\<close>

text \<open>Memory from \<^verbatim>\<open>malloc\<close> holds \<open>g1\<close> and \<open>g2\<close>; a routine that writes more bytes than were allocated is \<open>OOB_Write\<close>.\<close>

definition cobs_lengths :: "bytes \<Rightarrow> string c_result" where
  "cobs_lengths cobs_data =
     c_bind (cobs_encoded_length_from_encoded cobs_data) (\<lambda>e.
     c_bind (cobs_decoded_length_from_encoded cobs_data) (\<lambda>d.
     Inr (''COBS Length from COBS: '' @ dec e @ nl @ ''RAW Length from COBS: '' @ dec d @ nl)))"

definition cobs_testing :: "garbage \<Rightarrow> garbage \<Rightarrow> string c_result" where
  "cobs_testing g1 g2 =
     (let raw_size = 255; raw_data = replicate raw_size 97; cobs_size = cobs_encoded_length_from_decoded raw_data in
      c_bind (overlay (malloc_bytes g1 cobs_size) (cobs_encode g1 raw_data)) (\<lambda>cobs_data.
      c_bind (cobs_lengths cobs_data) (\<lambda>lens.
      c_bind (cobs_verify cobs_data cobs_size) (\<lambda>ok.
      c_bind (cobs_decode cobs_data cobs_size) (\<lambda>d.
      c_bind (overlay (malloc_bytes g2 raw_size) d) (\<lambda>raw_data'.
      Inr (''Special Character for COBS: '' @ c_hex_2 SPECIAL_CHAR @ nl
        @ ''RAW Size: '' @ dec raw_size @ nl @ ''COBS Size: '' @ dec cobs_size @ nl
        @ ''RAW: '' @ print_hex raw_data @ ''COBS: '' @ print_hex cobs_data
        @ lens @ (if ok then ''Valid COBS'' else ''Invalid COBS'') @ nl
        @ ''Decoded COBS (RAW): '' @ print_hex raw_data' @ lens)))))))"

definition byte_testing ::
    "(uint32 \<Rightarrow> 's) \<Rightarrow> ('s \<Rightarrow> nat \<times> 's) \<Rightarrow> uint64 \<Rightarrow> 's rng \<Rightarrow> host \<Rightarrow> garbage \<Rightarrow> string c_result" where
  "byte_testing srnd rnd time st h g =
     c_bind (generate_random_uint srnd rnd time st 100 (- 1 - 1)) (\<lambda>(num, st).
     (let i = hton64 h num; intbytes = object_bytes h i; temp = ntoh64 h (object_word h intbytes) in
      c_bind (combine_voids g [97, 98] 2 [99, 100] 2) (\<lambda>b3.
      Inr (''Int ('' @ c_lu num @ '') Hex: '' @ print_hex intbytes @ ''int from bytes: '' @ c_lu temp @ nl
        @ ''Byte Combine (a,b)+(c,d): '' @ print_hex b3))))"

definition section_testing :: "string c_result" where
  "section_testing =
     (let sec1 = foldl add_to_section create_section [5, 6, 7, 8];
          sec2 = add_to_section sec1 1;
          sec3 = delete_from_section sec2 6;
          sec4 = foldl add_to_section sec3 [6, 2, 3, 4] in
      c_bind (print_section sec1) (\<lambda>s1.
      c_bind (print_section sec2) (\<lambda>s2.
      c_bind (print_section sec3) (\<lambda>s3.
      c_bind (print_section sec4) (\<lambda>s4.
      c_bind (free_section sec4) (\<lambda>_.
      Inr (s1 @ nl @ s2 @ nl @ s3 @ nl @ s4 @ nl)))))))"

definition BUFFER_CHUNK_SIZE :: uint64 where
  "BUFFER_CHUNK_SIZE = 32"

definition compute_buff_length :: "uint64 \<Rightarrow> uint64 \<Rightarrow> uint64 c_result" where
  "compute_buff_length numBytes byteChunk =
     (if byteChunk = 0 then Inl Div_By_Zero
      else Inr (numBytes + (if numBytes mod byteChunk = 0 then 0 else byteChunk - numBytes mod byteChunk)))"

definition parity_testing :: "string c_result" where
  "parity_testing =
     (let size = 32; data = replicate size 97; vpart = compute_vparity data; hpart = compute_hparity data; temp = 561 in
      c_bind (check_hparity data hpart) (\<lambda>hok.
      c_bind (compute_buff_length temp BUFFER_CHUNK_SIZE) (\<lambda>buff.
      Inr (concat (map (\<lambda>i. ''Vdata: '' @ c_lu (vpart ! i) @ nl) [0..<4])
        @ (if check_vparity data vpart then ''VALID Vdata'' else ''CORRUPTED Vdata'') @ nl
        @ (if hok then ''VALID Hdata'' else ''CORRUPTED Hdata'') @ nl
        @ ''Vdata Size: '' @ c_lu compute_vparity_length @ '', Hdata Size: '' @ c_lu (compute_hparity_length (word_of_nat size)) @ nl
        @ ''Buff Length of '' @ c_lu temp @ '' is '' @ c_lu buff @ ''.'' @ nl
        @ ''uint64 to uint32: '' @ c_u (ucast temp) @ nl))))"

text \<open>The test of the messages up to the call that is not reached; what is printed before it is the result.\<close>

definition message_testing :: "bool \<Rightarrow> uint64 \<Rightarrow> host \<Rightarrow> garbage \<Rightarrow> garbage \<Rightarrow> string c_result" where
  "message_testing notdef rnd h g1 g2 =
     c_bind (form_msg rnd 100 200 (chan_code DATA) (data_code SYN) 0 (replicate 10 97) 10) (\<lambda>src.
     c_bind (print_msg notdef src True True True) (\<lambda>s0.
     c_bind (msg_to_bytes h src) (\<lambda>bytes.
     (let encoded_size = cobs_encoded_length_from_decoded bytes in
      c_bind (overlay (malloc_bytes g1 encoded_size) (cobs_encode g1 bytes)) (\<lambda>encoded_bytes.
      c_bind (cobs_decode encoded_bytes encoded_size) (\<lambda>d.
      c_bind (overlay (malloc_bytes g2 (length bytes)) d) (\<lambda>_.
      Inr (s0 @ nl @ nl @ nl @ ''Message Bytes: ('' @ dec (length bytes) @ '') '' @ print_hex bytes
        @ nl @ ''Sent Bytes including COBS: ('' @ dec encoded_size @ '') '' @ print_hex encoded_bytes @ nl @ nl @ nl))))))))"

text \<open>
  No channel of the test has a thread, so closing one joins the thread with number 0. The addresses of the
  connections were never set; they are an argument.
\<close>

definition connchan_testing :: "host \<Rightarrow> (nat \<Rightarrow> sockaddr_in) \<Rightarrow> machine \<Rightarrow> string c_result" where
  "connchan_testing h addrs mc =
     c_bind (new_connection (slots mc) conn_init) (\<lambda>t.
     c_bind (new_connection (slots mc) t) (\<lambda>t.
     c_bind (new_connection (slots mc) t) (\<lambda>t.
     c_bind (new_channel (slots mc) t 0) (\<lambda>t.
     c_bind (new_channel (slots mc) t 1) (\<lambda>t.
     c_bind (new_channel (slots mc) t 1) (\<lambda>t.
     c_bind (print_all_connections h addrs Live_Array t) (\<lambda>s1.
     c_bind (end_all_connections mc t) (\<lambda>t'.
     c_bind (print_all_connections h addrs Freed_Array t') (\<lambda>s2.
     Inr (''total connects: '' @ dec (length (conns t)) @ '' | total channels: '' @ c_lu (totalChannels t) @ nl @ s1 @ nl @ nl
       @ ''ending things...'' @ nl
       @ ''total connects: '' @ dec (length (conns t')) @ '' | total channels: '' @ c_lu (totalChannels t') @ nl @ s2))))))))))"

definition file_testing :: "garbage \<Rightarrow> file_system \<Rightarrow> dir_system \<Rightarrow> dir_system \<Rightarrow> string c_result" where
  "file_testing g fs ds1 ds2 =
     c_bind (open_dir_handle g fs ds1 ds2 (map (\<lambda>c. word_of_nat (of_char c)) ''./files/input'')) (\<lambda>dhandle.
     c_bind (close_dir_handle dhandle) (\<lambda>_. Inr (print_dir_handle dhandle)))"

text \<open>The program runs the tests one after the other; \<open>heap\<close> is what the memory of each test holds.\<close>

definition test_main ::
    "(uint32 \<Rightarrow> 's) \<Rightarrow> ('s \<Rightarrow> nat \<times> 's) \<Rightarrow> uint64 \<Rightarrow> 's rng \<Rightarrow> uint64 \<Rightarrow> host \<Rightarrow> (nat \<Rightarrow> garbage) \<Rightarrow> (nat \<Rightarrow> sockaddr_in) \<Rightarrow> machine
     \<Rightarrow> file_system \<Rightarrow> dir_system \<Rightarrow> dir_system \<Rightarrow> string c_result" where
  "test_main srnd rnd time st msg_rnd h heap addrs mc fs ds1 ds2 =
     c_bind (cobs_testing (heap 0) (heap 1)) (\<lambda>s1.
     c_bind (byte_testing srnd rnd time st h (heap 2)) (\<lambda>s2.
     c_bind parity_testing (\<lambda>s3.
     c_bind (message_testing False msg_rnd h (heap 3) (heap 4)) (\<lambda>s4.
     c_bind (connchan_testing h addrs mc) (\<lambda>s5.
     c_bind section_testing (\<lambda>s6.
     c_bind (file_testing (heap 5) fs ds1 ds2) (\<lambda>s7.
     Inr (s1 @ s2 @ s3 @ s4 @ s5 @ s6 @ s7))))))))"

subsection \<open>What the tests print\<close>

lemma lengths_of_encoded:
  "\<exists>s. cobs_lengths (cobs_encode g src) = Inr s"
proof -
  have v: "cobs_valid (cobs_blocks [] src)" by (rule cobs_blocks_valid) simp_all
  have e: "cobs_encoded_length_from_encoded (cobs_blocks [] src @ [0]) = Inr (Suc (length (cobs_blocks [] src)))"
    using encoded_length_scan [OF cobs_blocks_no_zero [of "[]" src], of "[]"] by simp
  obtain d where "cobs_decoded_length_from_encoded (cobs_blocks [] src @ [0]) = Inr d"
    by (rule cobs_valid_block [OF v, of "[]"]) blast
  with e show ?thesis by (simp add: cobs_lengths_def cobs_encode_blocks)
qed

text \<open>
  The test of the framing writes past its buffer: it counts the delimiter in the length it passes to the decoder, which writes one byte
  more than the test allocated because the data end in an open block. The verification before it reports the frame as invalid for the
  same reason.
\<close>

lemma cobs_testing_overruns:
  "cobs_testing g1 g2 = Inl OOB_Write"
  "cobs_verify (cobs_encode g (replicate 255 97)) (cobs_encoded_length_from_decoded (replicate 255 97)) = Inr False"
proof -
  let ?raw = "replicate 255 97 :: bytes"
  let ?w = "cobs_blocks [] ?raw"
  have open_block: "trailing_run 0 ?raw = 1" by code_simp
  have size: "cobs_encoded_length_from_decoded ?raw = Suc (length ?w)"
    using length_cobs_blocks [of "[]" ?raw] from_decoded_loop_acc [of ?raw 0 "length ?raw + 2"] open_block
    by (simp add: cobs_encoded_length_from_decoded_def)
  have enc: "cobs_encode g ?raw = ?w @ [0]" for g by (rule cobs_encode_blocks)
  have dec: "cobs_decode (?w @ [0]) (Suc (length ?w)) = Inr (?raw @ [0])"
    using decode_blocks_terminated [of "[]" ?raw "[]"] open_block by (simp add: cobs_decode_def)
  have "\<not> cobs_valid (?w @ [0])" using cobs_valid_no_zero [of "?w @ [0]"] by auto
  then have ver: "cobs_verify (?w @ [0]) (Suc (length ?w)) = Inr False" by (simp add: cobs_verify_valid)
  then show "cobs_verify (cobs_encode g ?raw) (cobs_encoded_length_from_decoded ?raw) = Inr False"
    by (simp only: enc size)
  obtain s where "cobs_lengths (?w @ [0]) = Inr s" using lengths_of_encoded [of g1 ?raw] by (auto simp: enc)
  then show "cobs_testing g1 g2 = Inl OOB_Write"
    unfolding cobs_testing_def Let_def enc size
    by (simp add: overlay_def malloc_bytes_def ver dec del: replicate.simps)
qed

text \<open>The program as a whole therefore stops being defined in its first test, for every host, heap and file system.\<close>

lemma test_main_overruns: "test_main srnd rnd time st msg_rnd h heap addrs mc fs ds1 ds2 = Inl OOB_Write"
  by (simp add: test_main_def cobs_testing_overruns(1))

text \<open>The test of the byte order prints the same number twice, on every host, and the combined bytes.\<close>

lemma byte_testing_agrees:
  "\<exists>num. byte_testing srnd rnd time st h g =
     Inr (''Int ('' @ c_lu num @ '') Hex: '' @ print_hex (be_bytes num) @ ''int from bytes: '' @ c_lu num @ nl
       @ ''Byte Combine (a,b)+(c,d): 61 62 63 64 '' @ nl)"
proof -
  have "c_hex_2 97 = ''61''" "c_hex_2 98 = ''62''" "c_hex_2 99 = ''63''" "c_hex_2 100 = ''64''" by code_simp+
  then have "print_hex [97, 98, 99, 100] = ''61 62 63 64 '' @ nl" by (simp add: print_hex_def nl_def)
  moreover have "combine_voids g [97, 98] 2 [99, 100] 2 = Inr [97, 98, 99, 100]"
    by (simp add: combine_voids_def mem_read_def mem_write_def malloc_bytes_def Let_def upt_rec)
  ultimately show ?thesis
    by (auto simp: byte_testing_def generate_random_uint_def Let_def split: prod.split)
qed

text \<open>The test of the sections prints the sets it builds, merged into as few pieces as possible.\<close>

lemma section_testing_prints:
  "\<exists>s1 s2 s3 s4. section_testing = Inr (s1 @ nl @ s2 @ nl @ s3 @ nl @ s4 @ nl)
     \<and> map (map (\<lambda>p. (lowBound p, highBound p)) \<circ> read_section) [s1, s2, s3, s4] =
         [[(5, 8)], [(1, 1), (5, 8)], [(1, 1), (5, 5), (7, 8)], [(1, 8)]]"
proof -
  let ?a = "foldl add_to_section create_section [5, 6, 7, 8]"
  let ?b = "add_to_section ?a 1"
  let ?c = "delete_from_section ?b 6"
  let ?d = "foldl add_to_section ?c [6, 2, 3, 4]"
  have ps: "map (\<lambda>sec. map (\<lambda>p. (lowBound p, highBound p)) (pieces sec)) [?a, ?b, ?c, ?d] =
      [[(5, 8)], [(1, 1), (5, 8)], [(1, 1), (5, 5), (7, 8)], [(1, 8)]]"
    by code_simp
  have live: "map piecesPtr [?a, ?b, ?c, ?d] = [Live_Array, Live_Array, Live_Array, Live_Array]" by code_simp
  have free: "free_section ?d = Inr ()" by code_simp
  obtain s1 s2 s3 s4 where s: "print_section ?a = Inr s1" "read_section s1 = pieces ?a" "print_section ?b = Inr s2" "read_section s2 = pieces ?b"
    "print_section ?c = Inr s3" "read_section s3 = pieces ?c" "print_section ?d = Inr s4" "read_section s4 = pieces ?d"
    using print_section_reads [of ?a] print_section_reads [of ?b] print_section_reads [of ?c] print_section_reads [of ?d] live
    unfolding list.map list.inject by blast
  have "section_testing = Inr (s1 @ nl @ s2 @ nl @ s3 @ nl @ s4 @ nl)"
    unfolding section_testing_def Let_def by (simp only: s free c_bind_simps)
  moreover have "map (map (\<lambda>p. (lowBound p, highBound p)) \<circ> read_section) [s1, s2, s3, s4] =
      map (\<lambda>sec. map (\<lambda>p. (lowBound p, highBound p)) (pieces sec)) [?a, ?b, ?c, ?d]"
    by (simp only: s list.map o_apply)
  ultimately show ?thesis using ps by metis
qed

text \<open>The test of the parities finds them valid, with one byte of horizontal parity for the 32 bytes of data.\<close>

lemma parity_testing_valid:
  "\<exists>v. parity_testing = Inr (v @ ''VALID Vdata'' @ nl @ ''VALID Hdata'' @ nl @ ''Vdata Size: 32, Hdata Size: 1'' @ nl
     @ ''Buff Length of 561 is 576.'' @ nl @ ''uint64 to uint32: 561'' @ nl)"
proof -
  let ?d = "replicate 32 97 :: bytes"
  have ok: "check_hparity ?d (compute_hparity ?d) = Inr True" "check_vparity ?d (compute_vparity ?d)"
    using check_compute_hparity [of ?d ?d] by (simp_all add: check_compute_vparity)
  have n: "c_lu 32 = ''32''" "c_lu 1 = ''1''" "c_lu 561 = ''561''" "c_lu 576 = ''576''" "c_u 561 = ''561''"
    by (simp_all add: c_lu_def c_u_def dec.simps digit_def char_of_def bit_0)
  have l: "compute_hparity_length 32 = 1" "compute_vparity_length = 32" by code_simp+
  have b: "compute_buff_length 561 BUFFER_CHUNK_SIZE = Inr 576" by code_simp
  show ?thesis
    by (intro exI [of _ "concat (map (\<lambda>i. ''Vdata: '' @ c_lu (compute_vparity ?d ! i) @ nl) [0..<4])"])
      (simp add: parity_testing_def Let_def ok n l b del: upt.simps)
qed

text \<open>
  The test of the messages overruns its buffer whatever the heap holds: the predicted size of a frame is one byte too large for a
  message, so the decoder takes the delimiter for a block and writes one byte too many, unless the byte behind the delimiter makes it read
  outside the frame before.
\<close>

lemma message_testing_overruns: "message_testing False rnd h g1 g2 \<in> {Inl OOB_Write, Inl OOB_Read}"
proof -
  define m where "m = formed_msg (form_head rnd 100 200 (chan_code DATA) (data_code SYN) 0 10) (replicate 10 97)"
  have f: "form_msg rnd 100 200 (chan_code DATA) (data_code SYN) 0 (replicate 10 97) 10 = Inr m"
    using form_msg_eq [of 10 "replicate 10 97"] by (simp add: m_def)
  have wf: "wf_msg m" unfolding m_def by (rule wf_formed_msg) simp_all
  have tr: "trailing_run 0 (msg_wire m) = 0" by (rule last_msg_wire(3)) (simp add: m_def formed_msg_def form_head_def)
  let ?w = "cobs_blocks [] (msg_wire m)"
  have size: "cobs_encoded_length_from_decoded (msg_wire m) = length ?w + 2"
    using length_cobs_blocks [of "[]" "msg_wire m"] from_decoded_loop_acc [of "msg_wire m" 0 "length (msg_wire m) + 2"] tr
    by (simp add: cobs_encoded_length_from_decoded_def)
  define x where "x = g1 (Suc (length ?w))"
  have ov: "overlay (malloc_bytes g1 (length ?w + 2)) (cobs_encode g1 (msg_wire m)) = Inr (?w @ [0, x])"
    by (simp add: overlay_def malloc_bytes_def cobs_encode_blocks x_def drop_map)
  have "cobs_decode_loop [0, x] 2 = (case cobs_decode_loop [x] 1 of Inl e \<Rightarrow> Inl e | Inr r \<Rightarrow> Inr (0 # r))"
    by (subst cobs_decode_loop.simps) (simp add: SPECIAL_CHAR_def mem_read_def split: sum.split)
  moreover have "cobs_decode_loop [x] 1 \<in> {Inl OOB_Read, Inr []}"
    by (subst cobs_decode_loop.simps) (auto simp: SPECIAL_CHAR_def mem_read_def Let_def)
  ultimately have "cobs_decode (?w @ [0, x]) (length ?w + 2) \<in> {Inl OOB_Read, Inr (msg_wire m @ [0])}"
    using decode_blocks_then [of "[]" "msg_wire m" 2 "[0, x]"] tr by (auto simp: cobs_decode_def)
  moreover have "overlay (malloc_bytes g2 (length (msg_wire m))) (msg_wire m @ [0]) = Inl OOB_Write"
    by (simp add: overlay_def malloc_bytes_def)
  ultimately show ?thesis
    unfolding message_testing_def f c_bind_simps print_msg_def if_False msg_to_bytes_wire [OF wf] Let_def size ov
    by (elim insertE emptyE) (simp_all only: c_bind_simps insert_iff simp_thms)
qed

text \<open>The test of the tables never ends well: without spare room behind its arrays it writes past one, with room it joins no thread.\<close>

lemma connchan_testing_fails:
  "(\<And>n. slots mc n = n) \<Longrightarrow> connchan_testing h addrs mc = Inl OOB_Write"
  "(\<And>n. n < slots mc n) \<Longrightarrow> connchan_testing h addrs mc = Inl Null_Deref"
proof -
  show "connchan_testing h addrs mc = Inl OOB_Write" if "\<And>n. slots mc n = n"
    by (simp add: connchan_testing_def new_connection_def grow_array_def conn_init_def that)
  assume room: "\<And>n. n < slots mc n"
  let ?b = "blank_channel" and ?c = "\<lambda>chs. \<lparr>conn_sock = 0, chans = chs\<rparr>" and ?u = "slots mc"
  let ?t = "\<lparr>conns = [?c [?b], ?c [?b, ?b], ?c []], totalChannels = 3\<rparr>"
  have "c_bind (new_connection ?u conn_init) (\<lambda>t. c_bind (new_connection ?u t) (\<lambda>t. c_bind (new_connection ?u t) (\<lambda>t.
      c_bind (new_channel ?u t 0) (\<lambda>t. c_bind (new_channel ?u t 1) (\<lambda>t. c_bind (new_channel ?u t 1) f))))) = f ?t" for f :: "_ \<Rightarrow> string c_result"
    using room by (simp add: new_connection_def new_channel_def grow_array_def conn_init_def)
  moreover obtain s where "print_all_connections h addrs Live_Array ?t = Inr s"
    using print_connection_safe [of ?t h addrs Live_Array] by auto
  moreover have "end_all_connections mc ?t = Inl Null_Deref"
    by (simp add: end_all_connections_def end_connection_def end_channels.simps end_channel_def pthread_join_def blank_channel_def)
  ultimately show "connchan_testing h addrs mc = Inl Null_Deref"
    unfolding connchan_testing_def by simp
qed

lemma file_testing_prints:
  assumes "list_all entry_name (files_of l)" "ds (d @ [47]) = Some l" "list_all (\<lambda>nm. fs ((d @ [47]) @ nm) \<noteq> None) (files_of l)"
    "d = map (\<lambda>c. word_of_nat (of_char c)) ''./files/input''"
  shows "\<exists>dh. file_testing g fs ds ds = Inr (print_dir_handle dh) \<and> map fileName (handles dh) = files_of l"
proof -
  have d: "0 \<notin> set d" "length d < 2 ^ 62" by (simp_all add: assms(4))
  have "map fileName (map (ready_handle fs (d @ [47])) (files_of l)) = files_of l" by (simp add: ready_handle_def o_def)
  then show ?thesis
    unfolding file_testing_def close_dir_handle_def assms(4) [symmetric]
    by (simp add: open_dir_entries [where ds = ds, OF assms(1) d assms(2,3)] close_loop_ready [OF assms(3)] del: map_map)
      (metis dir_handle_t.select_convs(1))
qed

end
