(* ===== verification/Spec2Isabelle.thy ===== *)
theory Spec2Isabelle
  imports Random_Uint Frame_Codec Unit_Tests Transfer_Server_Correct Recv_Sketch Msg_Heap Chan_Race Chan_Life Wire_Transfer Client_Main Server_Main Test_Driver
begin

text \<open>
  \<^bold>\<open>The program.\<close> The repository holds two file transfer programs over TCP that share a message library
  (\<^verbatim>\<open>src/justin-snapshot/src\<close>). The \<^emph>\<open>block transfer\<close> (\<^verbatim>\<open>src/server\<close>, \<^verbatim>\<open>src/client\<close>): the server forks a child per connection,
  which reads every file of a directory in blocks of 4096 bytes and sends each block as one message; the client
  splits the stream at the delimiters, decodes and verifies every message, counts the valid blocks and classifies the
  damaged ones. The \<^emph>\<open>channel transfer\<close> (\<^verbatim>\<open>src/justin-snapshot/drv\<close>): a client asks for a file by name, the server opens a
  channel whose thread sends the segments of the file, and damaged segments are asked for again. In both, a message
  is a header, a content with vertical and horizontal parity and a trailer that repeats the header; it is written in
  network byte order and framed with consistent overhead byte stuffing (COBS), so that a zero byte ends it.

  \<^bold>\<open>Conventions.\<close> Machine integers are words of their width. An operation with undefined behaviour in C returns a
  \<open>c_error\<close> (\<open>HipFT_Prelude\<close>); a result \<open>Inr x\<close> therefore also states that no memory error happened. Memory that C
  does not initialise holds arbitrary bytes \<open>g\<close>. What comes from outside (random numbers, the file system, results of
  system calls, what \<^verbatim>\<open>recv_msg\<close> returns, what the main loop does while a thread runs, how many slots an allocation
  really has, what a read of released memory yields) is an argument, so the theorems hold for all of it. Allocation
  succeeds. Values are immutable; where ownership of memory matters (\<open>Msg_Heap\<close>, \<open>Chan_Race\<close>, \<open>Chan_Life\<close>, the array of a section) the
  live blocks are part of the state.

  \<^bold>\<open>Theories and sources.\<close>
  \<^item> \<open>HipFT_Prelude\<close>: types, errors, buffers, array copies, word lemmas. \<open>Codec\<close>: the locales of the shared interfaces
    (codec, stack of codecs, delimited stream, transport over a limited link, preserved predicate). \<open>Number_Set\<close>: the locale of a set of numbers that is
    emptied from its least element.
  \<^item> \<open>Byte_Help\<close>, \<open>Byte_Order\<close>, \<open>Random_Uint\<close>: \<^verbatim>\<open>byte_help.c\<close>, \<^verbatim>\<open>byte_order.c\<close>, \<^verbatim>\<open>stdtypes.c\<close>.
  \<^item> \<open>Cobs\<close>, \<open>Cobs_Correct\<close>: \<^verbatim>\<open>cobs.c\<close>. Every routine is related to a description of the code as blocks: round trips, the
    equivalence of the two verifiers, memory safety of decoding, bounds.
  \<^item> \<open>Msg_Parity\<close>: \<^verbatim>\<open>parity.c\<close>, with exact characterisations of what each parity accepts.
  \<^item> \<open>Message\<close>, \<open>Message_Correct\<close>: \<^verbatim>\<open>message.c\<close>. The parser and the verifier are characterised exactly; a message survives the
    way between hosts of different byte order, and a single flipped bit cannot change what a verified message says.
    \<open>Msg_Heap\<close>: the same construction and parsing with the blocks they allocate, and \<^verbatim>\<open>free_msg\<close>: every message is released
    completely and once, and what a failed parse leaves behind. \<open>Msg_Print\<close>: the printing of messages, which succeeds exactly
    for types that have a name.
  \<^item> \<open>Section_Pieces\<close>, \<open>Section_Correct\<close>: \<^verbatim>\<open>section.c\<close> refines a set of numbers and interprets \<open>Number_Set\<close>.
  \<^item> \<open>Socket_IO\<close>, \<open>Socket_Msg\<close>, \<open>Frame_Codec\<close>: \<^verbatim>\<open>socket_help.c\<close>, \<^verbatim>\<open>socket_msg_help.c\<close>; exact input and output over any cutting of
    the transfers, delivery of a message, and the layers of the wire format as interpretations of \<open>Codec\<close>. \<open>Recv_Sketch\<close>: the
    receiver sketched in \<^verbatim>\<open>recv_msg.c\<close>, which delivers nothing.
  \<^item> \<open>Error_Util\<close>, \<open>Handle_Errors\<close>, \<open>Read_Blocks\<close>, \<open>Read_Blocks_Correct\<close>: the client of the block transfer; the receive loop is safe
    for blocks below 8192 bytes, and only for these.
  \<^item> \<open>File_Transfer\<close>, \<open>File_Transfer_Correct\<close>, \<open>Transfer_Server\<close>, \<open>Transfer_Server_Correct\<close>: its server and main programs
    (\<^verbatim>\<open>file_transfer.c\<close>, \<^verbatim>\<open>server.c\<close>, \<^verbatim>\<open>main.c\<close>), up to a whole session; the cleanup of children as a step relation.
  \<^item> \<open>Log_Format\<close>, \<open>Log_Format_Correct\<close>: the text of the log lines (\<^verbatim>\<open>log.c\<close>, \<^verbatim>\<open>handle_errors.c\<close>, \<^verbatim>\<open>logging.c\<close>).
    \<open>Table_Print\<close>: what the printing routines of \<^verbatim>\<open>section.c\<close>, \<^verbatim>\<open>file_handle.c\<close> and \<^verbatim>\<open>conn_chan.c\<close> write. \<open>Arg_Scan\<close>: \<^verbatim>\<open>atoi\<close> and \<^verbatim>\<open>sscanf\<close> on
    arguments.
  \<^item> \<open>File_Handle\<close>, \<open>File_Handle_Correct\<close>: \<^verbatim>\<open>file_handle.c\<close>; a directory is opened completely, segments reassemble the file.
  \<^item> \<open>Conn_Chan\<close>, \<open>Server_Driver\<close>, \<open>Server_Correct\<close>: \<^verbatim>\<open>conn_chan.c\<close> and the loop of \<^verbatim>\<open>drv/server.c\<close>, a record of connections and
    channels with one function per kind of message; its invariant over all reachable states (locale \<open>preserved\<close>) and
    the answers to requests.
  \<^item> \<open>Server_Thread\<close>, \<open>Server_Thread_Correct\<close>: the thread of a channel (\<^verbatim>\<open>server_help.c\<close>), one iteration per event of the main loop. \<open>Chan_Race\<close>:
    the hand-over of requests between main loop and thread access by access, with the schedules that break it and a
    discipline under which all schedules are safe. \<open>Chan_Life\<close>: the whole life of a channel, turn by turn, from its creation
    to \<^verbatim>\<open>pthread_join\<close> and release: the channel outlives its thread in every schedule, and closing it completes.
  \<^item> \<open>Client_Driver\<close>, \<open>Client_Correct\<close>: \<^verbatim>\<open>drv/client.c\<close>, with the output file as bytes and a position. \<open>Wire_Transfer\<close>: \<^verbatim>\<open>send_msg\<close> interprets
    the locale \<open>transport\<close>, which carries a download from the thread over the bytes of the socket to the file of the client.
  \<^item> \<open>Msg_Types\<close>: every message that server, thread and client send has the lengths and types its header announces. \<open>Server_Main\<close>,
    \<open>Client_Main\<close>: the two main programs around these operations: arguments, set-up, \<^verbatim>\<open>select\<close>, the endless loop of the server
    and the cycle of downloads of the client.
  \<^item> \<open>Cobs_Unit\<close>, \<open>Unit_Tests\<close>: the unit test program, proved to succeed. \<open>Test_Driver\<close>: the older tests of \<^verbatim>\<open>drv/test.c\<close>,
    four of which print what they should and three of which have undefined behaviour.
  \<^item> This theory: the protocol between channel client and channel server as a whole.

  \<^bold>\<open>Bounds and fuel.\<close> Most loops are structural or have a proved measure. The scan of the server's loop has the number of
  connections as fuel, enough because each step moves to the next index and no message adds a connection
  (\<open>poll_ends\<close>); closing all connections has the number of connections as fuel (\<open>end_all_Inr\<close>). The thread, the client
  and the server program run as long as the list of events, of received messages or of rounds lasts; the client's cycle ends
  because each download consumes a message. A thread that is told to end does so within eight turns (\<open>turns_left\<close>), of
  which the slowest path goes through a last iteration. Contents are below 65536 bytes, the limit of the
  parser; blocks up to 7700 bytes stay below the 8192 bytes that the receive buffer holds; files are below 4 GiB
  because offsets are cut to 32 bits, and below 2 GiB where the client seeks.

  \<^bold>\<open>Not modelled.\<close> Text that is no code: the old receiver in a comment of \<^verbatim>\<open>socket_msg_help.c\<close>; code that cannot be reached (the
  end of \<^verbatim>\<open>main\<close> in \<^verbatim>\<open>drv/server.c\<close>, \<^verbatim>\<open>randchange\<close>, the end of \<^verbatim>\<open>message_testing\<close>, which calls \<^verbatim>\<open>msg_from_bytes\<close> without its
  length); socket addresses outside of printing; signals other than \<^verbatim>\<open>SIGCHLD\<close>; interleavings inside the
  work of a thread (\<open>Chan_Life\<close> takes it as one turn, since it only reads fields of the channel that do not change any
  more); the text of the system log; the Python scripts, which share no code with the C programs.
\<close>

section \<open>Properties that span the components\<close>

subsection \<open>The protocol between client and server\<close>

lemma fork_after_ready:
  assumes "\<not> chan_ready ch" "\<not> chan_kill ch"
  shows "fork_server_channel g rnds ch (Make_Ready # evs) = fork_server_channel g rnds (ch\<lparr>chan_ready := True\<rparr>) evs"
proof -
  have "wait_ready (ch\<lparr>chan_ready := True\<rparr>) evs = (ch\<lparr>chan_ready := True\<rparr>, evs)"
    by (cases evs) simp_all
  then show ?thesis
    using assms by (simp add: fork_server_channel_def)
qed

text \<open>
  The three messages of the client at the server: the request opens a channel on a connection that has none, the second message makes it ready, and
  the last one closes it.
\<close>

definition opened_table :: "conn_table \<Rightarrow> nat \<Rightarrow> channel_t \<Rightarrow> conn_table" where
  "opened_table t i ch = \<lparr>conns = (conns t)[i := (conns t ! i)\<lparr>chans := [ch]\<rparr>], totalChannels = totalChannels t + 1\<rparr>"

lemma request_handled:
  assumes "length nm < 65536" "file_handle_for_file dh nm = Inr (Some fh)" "i < length (conns t)" "chans (conns t ! i) = []"
    "totalChannels t < MAX_CHANNELS" "0 < sid" "num_segments_in_file_handle fh 8000 = Inr n"
  shows "handle_message mc dh rnd self_id t i (Some (syn_msg r sid 0 nm)) =
     Inr (opened_table t i (new_chan mc (conns t ! i) (head (syn_msg r sid 0 nm)) self_id fh),
       [(conn_sock (conns t ! i), control_msg rnd self_id sid ACK n [])])"
proof -
  have "asks_for dh (syn_msg r sid 0 nm) fh"
    using assms(1,2) by (simp add: asks_for_def unat_of_nat32)
  from channel_request_new [OF this assms(3,5), of mc rnd self_id]
  have "channel_request mc dh rnd self_id t i (syn_msg r sid 0 nm) =
      Inr (opened_table t i (new_chan mc (conns t ! i) (head (syn_msg r sid 0 nm)) self_id fh),
       [(conn_sock (conns t ! i), control_msg rnd self_id sid ACK n [])])"
    using assms(4,7) by (simp add: find_existing_channel_def opened_table_def)
  then show ?thesis
    using assms(6) syn_msg_sent(2) [OF assms(1)] by (simp add: handle_message_def word_gt_0)
qed

lemma ready_handled:
  assumes "length nm < 65536" "i < length (conns t)" "selfID ch = oid" "0 < sid" "0 < oid"
  shows "handle_message mc dh rnd self_id (opened_table t i ch) i (Some (syn_msg r sid oid nm)) =
     Inr (opened_table t i (ch\<lparr>chan_ready := True\<rparr>), [])"
proof -
  have "find_existing_channel (conns (opened_table t i ch) ! i) sid oid = Some 0"
    using assms(2,3) by (simp add: find_existing_channel_def opened_table_def)
  then show ?thesis
    using assms syn_msg_sent(2) [OF assms(1)] by (simp add: handle_message_def word_gt_0 opened_table_def set_channel_def)
qed

lemma fin_handled:
  assumes "i < length (conns t)" "chans (conns t ! i) = []" "selfID ch = oid" "0 < sid" "0 < oid"
  shows "handle_message mc dh rnd self_id (opened_table t i ch) i (Some (control_msg r sid oid FIN 0 [])) =
     c_bind (pthread_join mc (ch\<lparr>chan_kill := True\<rparr>)) (\<lambda>_. Inr (t, [(conn_sock (conns t ! i), control_msg rnd 0 sid FIN 0 [])]))"
proof -
  have "find_existing_channel (conns (opened_table t i ch) ! i) sid oid = Some 0"
    using assms(1,3) by (simp add: find_existing_channel_def opened_table_def)
  moreover have "(conns t)[i := (conns t ! i)\<lparr>chans := []\<rparr>] = conns t"
    using assms(2) by (metis connection_t.surjective connection_t.update_convs(2) list_update_id)
  ultimately have "close_request mc (opened_table t i ch) i rnd (head (control_msg r sid oid FIN 0 [])) =
      c_bind (pthread_join mc (ch\<lparr>chan_kill := True\<rparr>)) (\<lambda>_. Inr (t, [(conn_sock (conns t ! i), control_msg rnd 0 sid FIN 0 [])]))"
    using assms(1) reply_eq [of "[]" 0]
    by (cases "pthread_join mc (ch\<lparr>chan_kill := True\<rparr>)") (simp_all add: close_request_def end_channel_def opened_table_def)
  then show ?thesis
    using assms(4,5) by (simp add: handle_message_def word_gt_0)
qed

text \<open>What the client makes of the packets of a file when the freed request is found to hold \<open>v\<close>.\<close>

lemma client_outcome:
  assumes "started env argv 1" "verify_msg ack = Inr True" "sendID (head ack) \<noteq> 0" "serves ch 8000 d" "verify_msg bye = Inr True"
    and out: "out = packets rnds2 ch d" and sent: "sent = syn_msgs rnds (ids 0) (sendID (head ack)) (argv ! 3)"
  shows "if word_of_nat (count 8000 d) < v
     then channel_client_main (Some v) env rnds ids argv (Some ack # map Some out) = Inr (sent, [], Waiting)
     else channel_client_main (Some v) env rnds ids argv (Some ack # map Some out @ [Some bye]) =
       Inr (sent @ [control_msg (rnds 2) (ids 0) (sendID (head ack)) FIN 0 [], control_msg (rnds 3) 0 0 FIN 0 []],
         [(v \<noteq> 0, if v = 0 then [] else take ((unat v + 1) * 8000) d)], Exit 0)"
proof -
  have n: "count 8000 d < 2 ^ 32" using assms(4) by (rule servesE)
  have ms: "length out = Suc (count 8000 d)" "\<forall>m \<in> set out. intact m"
    using packets_length [OF assms(4)] packets_intact [OF assms(4)] by (auto simp: out)
  have v: "word_of_nat (unat v) = v" by simp
  have less: "word_of_nat (count 8000 d) < v \<longleftrightarrow> count 8000 d < unat v" using n by (simp add: word_less_nat_alt unat_of_nat64)
  have tail: "\<exists>m rs'. map Some ms' @ [Some bye] = Some m # rs' \<and> verify_msg m = Inr True" if "set ms' \<subseteq> set out" for ms'
    using that ms(2) assms(5) by (cases ms') (auto simp: intact_def)
  consider "count 8000 d < unat v" | "v = 0" | "0 < unat v" "unat v \<le> count 8000 d" by (meson not_le unat_gt_0)
  then show ?thesis
  proof cases
    case 1
    then have "gather_file True rnds (ids 0) (sendID (head ack)) (ucast MAX_SIZE) v (map Some out) sent = Inr (sent, Blocked)"
      using gather_file_waits [of "unat v" out rnds "ids 0" "sendID (head ack)" "ucast MAX_SIZE" sent] ms unat64_bound [of v] by simp
    from client_waits_for [where ids = ids, OF assms(1-3) sent this] 1 show ?thesis by (simp add: less)
  next
    case 2
    obtain m rs' where m: "map Some out @ [Some bye] = Some m # rs'" "verify_msg m = Inr True" using tail [of out] by blast
    have "gather_file True rnds (ids 0) (sendID (head ack)) (ucast MAX_SIZE) 0 (map Some out @ [Some bye]) sent =
        Inr (sent, Returned (False, [], Some m # rs'))"
      by (simp add: gather_file_def m(1))
    from client_ends_with [where ids = ids, OF assms(1-3) sent this m(2)] 2 show ?thesis by simp
  next
    case 3
    obtain m rs' where m: "map Some (drop (Suc (unat v)) out) @ [Some bye] = Some m # rs'" "verify_msg m = Inr True"
      using tail [OF set_drop_subset, of "Suc (unat v)"] by blast
    have "gather_file True rnds (ids 0) (sendID (head ack)) (ucast MAX_SIZE) v (map Some out @ [Some bye]) sent =
        Inr (sent, Returned (True, take ((unat v + 1) * 8000) d, Some m # rs'))"
      using gather_file_prefix [OF 3(1), of out rnds "ids 0" "sendID (head ack)" "ucast MAX_SIZE" "[Some bye]" sent] 3(2) n ms
        packets_contents(1) [OF assms(4) 3(2), of rnds2] m(1) by (simp add: out)
    from client_ends_with [where ids = ids, OF assms(1-3) sent this m(2)] 3 show ?thesis by (auto simp: less)
  qed
qed

text \<open>
  C2. The protocol, end to end, between the client program and the server, for one download of a file of the server over a connection without
  channels. The client sends its request and waits; the server opens a channel and announces the number \<open>n\<close> of segments. The client does not
  read that number: it reads the request it has freed. Where that stops the program, the answer ends the client. Where the read finds a value
  \<open>v\<close>, the client makes the channel ready, the thread sends the file in \<open>n + 1\<close> packets, and all depends on \<open>v\<close>: if it is greater than \<open>n\<close>, the client
  waits for ever with the whole file received (memory that is left as it was gives 8000, the client's own segment size); if it is
  0, it reports that there is no such file; otherwise it reports success after \<open>v + 1\<close> packets, which is the file
  if \<open>v\<close> is \<open>n\<close> and only its beginning if \<open>v\<close> is smaller. In the last two cases it closes the channel, the server waits for the thread, which then
  ends without an error, removes the channel and answers, and the client exits with 0.
\<close>

theorem protocol_download:
  assumes "started env argv 1" "file_handle_for_file dh (argv ! 3) = Inr (Some fh)" "ready_on fh d" "length d < 2 ^ 32"
    and "i < length (conns t)" "chans (conns t ! i) = []" "totalChannels t < MAX_CHANNELS" "0 < ids 0" "0 < self_id"
  shows "\<exists>req ack t1 ch n. n = length (segments 8000 d)
     \<and> channel_client_main stale env rnds ids argv [] = Inr ([req], [], Waiting)
     \<and> handle_message mc dh rnd self_id t i (Some req) = Inr (t1, [(conn_sock (conns t ! i), ack)])
     \<and> chans (conns t1 ! i) = [ch] \<and> segmentNum (head ack) = word_of_nat n
     \<and> (case stale of
          None \<Rightarrow> channel_client_main stale env rnds ids argv [Some ack] = Inl Use_After_Free
        | Some v \<Rightarrow> \<exists>rdy t2 th th' out.
            handle_message mc dh rnd' self_id' t1 i (Some rdy) = Inr (t2, []) \<and> chans (conns t2 ! i) = [apply_event Make_Ready ch]
          \<and> fork_server_channel g rnds2 ch (Make_Ready # replicate (n + 2) Quiet) = Inr (Running, th, apply_event Make_Ready ch, out)
          \<and> (if word_of_nat n < v
             then channel_client_main stale env rnds ids argv (Some ack # map Some out) = Inr ([req, rdy], [], Waiting)
             else \<exists>fin quit bye.
                channel_client_main stale env rnds ids argv (Some ack # map Some out @ [Some bye]) =
                  Inr ([req, rdy, fin, quit], [(v \<noteq> 0, if v = 0 then [] else take ((unat v + 1) * 8000) d)], Exit 0)
              \<and> fork_server_channel g rnds2 ch (Make_Ready # replicate (n + 2) Quiet @ [Kill]) =
                  Inr (Ended, th', (apply_event Make_Ready ch)\<lparr>chan_kill := True\<rparr>, out)
              \<and> handle_message mc dh rnd'' self_id'' t2 i (Some fin) =
                  c_bind (pthread_join mc ((apply_event Make_Ready ch)\<lparr>chan_kill := True\<rparr>)) (\<lambda>_. Inr (t, [(conn_sock (conns t ! i), bye)]))))"
proof -
  let ?nm = "argv ! 3" and ?sid = "ids 0" and ?n = "length (segments 8000 d)"
  define req where "req = syn_msg (rnds 0) ?sid 0 ?nm"
  define rdy where "rdy = syn_msg (rnds 1) ?sid self_id ?nm"
  define ch where "ch = new_chan mc (conns t ! i) (head req) self_id fh"
  define ack where "ack = control_msg rnd self_id ?sid ACK (word_of_nat ?n) []"
  define out where "out = packets rnds2 (ch\<lparr>chan_ready := True\<rparr>) d"
  have nm: "length ?nm < 65536" using assms(1) by (simp add: started_def)
  have ch: "serves (ch\<lparr>chan_ready := True\<rparr>) 8000 d" "chan_handle ch = Some fh" "maxSize ch = 8000" "selfID ch = self_id"
    "\<not> chan_ready ch" "\<not> chan_kill ch" "\<not> chan_data ch"
    using assms(3,4) by (simp_all add: serves_def ch_def new_chan_def req_def blank_channel_def Let_def)
  note whole = thread_whole_file [OF ch(1), of g rnds2 0 "[]"] thread_killed [OF ch(1), of g rnds2]
  have n: "count 8000 d = ?n" by (simp add: count_def)
  have "num_segments_in_file_handle fh 8000 = Inr (word_of_nat ?n)" using ch(1,2) n by (rule_tac servesE [OF ch(1)]) simp
  note req = request_handled [OF nm assms(2,5-8) this, of mc rnd self_id "rnds 0", folded req_def, folded ch_def ack_def]
  note rdy = ready_handled [OF nm assms(5) ch(4) assms(8,9), of mc dh rnd' self_id' "rnds 1", folded rdy_def]
  have run: "fork_server_channel g rnds2 ch (Make_Ready # replicate (?n + 2) Quiet) = Inr (Running, all_sent (ch\<lparr>chan_ready := True\<rparr>) d, apply_event Make_Ready ch, out)"
    "fork_server_channel g rnds2 ch (Make_Ready # replicate (?n + 2) Quiet @ [Kill]) =
       Inr (Ended, all_sent (ch\<lparr>chan_ready := True\<rparr>) d, (apply_event Make_Ready ch)\<lparr>chan_kill := True\<rparr>, out)"
    using whole ch(3,6,7) n by (simp_all add: fork_after_ready ch(5,6) out_def packets_def del: replicate.simps upt_Suc segments_length)
  have ack: "verify_msg ack = Inr True" "sendID (head ack) = self_id" "sendID (head ack) \<noteq> 0" using assms(9) by (auto simp: ack_def)
  have sent: "syn_msgs rnds ?sid (sendID (head ack)) ?nm = [req, rdy]" by (simp add: syn_msgs_def ack req_def rdy_def)
  have client: "channel_client_main stale env rnds ids argv [] = Inr ([req], [], Waiting)"
    "stale = None \<Longrightarrow> channel_client_main stale env rnds ids argv [Some ack] = Inl Use_After_Free"
    using ack(1) by (simp_all add: client_main_started [OF assms(1)] client_loop.simps client_cycle_def establish_channel_def syn_msg_sent(1) [OF nm] req_def)
  have table: "chans (conns (opened_table t i c) ! i) = [c]" for c using assms(5) by (simp add: opened_table_def)
  show ?thesis
  proof (cases stale)
    case None
    then show ?thesis
      using req client table by (intro exI [of _ req] exI [of _ ack] exI [of _ "opened_table t i ch"] exI [of _ ch] exI [of _ ?n]) (simp add: ack_def)
  next
    case (Some v)
    let ?fin = "control_msg (rnds 2) ?sid self_id FIN 0 []" and ?quit = "control_msg (rnds 3) 0 0 FIN 0 []" and ?bye = "control_msg rnd'' 0 ?sid FIN 0 []"
    note fin = fin_handled [OF assms(5,6) _ assms(8,9), of "ch\<lparr>chan_ready := True\<rparr>" mc dh rnd'' self_id'' "rnds 2"]
    have outcome: "if word_of_nat ?n < v then channel_client_main stale env rnds ids argv (Some ack # map Some out) = Inr ([req, rdy], [], Waiting)
        else channel_client_main stale env rnds ids argv (Some ack # map Some out @ [Some ?bye]) =
          Inr ([req, rdy, ?fin, ?quit], [(v \<noteq> 0, if v = 0 then [] else take ((unat v + 1) * 8000) d)], Exit 0)"
      using client_outcome [where ids = ids, OF assms(1) ack(1,3) ch(1) _ out_def sent [symmetric], of ?bye v] by (simp add: Some ack(2) n)
    have "if word_of_nat ?n < v then channel_client_main stale env rnds ids argv (Some ack # map Some out) = Inr ([req, rdy], [], Waiting)
        else \<exists>fin quit bye.
            channel_client_main stale env rnds ids argv (Some ack # map Some out @ [Some bye]) =
              Inr ([req, rdy, fin, quit], [(v \<noteq> 0, if v = 0 then [] else take ((unat v + 1) * 8000) d)], Exit 0)
          \<and> fork_server_channel g rnds2 ch (Make_Ready # replicate (?n + 2) Quiet @ [Kill]) =
              Inr (Ended, all_sent (ch\<lparr>chan_ready := True\<rparr>) d, (apply_event Make_Ready ch)\<lparr>chan_kill := True\<rparr>, out)
          \<and> handle_message mc dh rnd'' self_id'' (opened_table t i (ch\<lparr>chan_ready := True\<rparr>)) i (Some fin) =
              c_bind (pthread_join mc ((apply_event Make_Ready ch)\<lparr>chan_kill := True\<rparr>)) (\<lambda>_. Inr (t, [(conn_sock (conns t ! i), bye)]))"
    proof (cases "word_of_nat ?n < v")
      case False
      show ?thesis
        unfolding if_not_P [OF False]
        by (rule exI [of _ ?fin], rule exI [of _ ?quit], rule exI [of _ ?bye])
          (use False outcome run(2) fin ch(4) in \<open>simp del: replicate.simps segments_length\<close>)
    qed (use outcome in simp)
    then show ?thesis
      unfolding Some option.case using req rdy client(1) [unfolded Some] run(1) table [of ch] table [of "ch\<lparr>chan_ready := True\<rparr>"]
      by (intro exI [of _ req] exI [of _ ack] exI [of _ "opened_table t i ch"] exI [of _ ch] exI [of _ ?n] exI [of _ rdy]
          exI [of _ "opened_table t i (ch\<lparr>chan_ready := True\<rparr>)"] exI [of _ "all_sent (ch\<lparr>chan_ready := True\<rparr>) d"] exI [of _ out] conjI)
        (simp_all add: ack_def Some del: replicate.simps segments_length)
  qed
qed

text \<open>One download of a file of three bytes, which is one segment: the three ways in which it can go.\<close>

definition one_download :: "bytes list" where
  "one_download = sample_argv[4 := [49]]"

lemma one_download_started: "started sample_env one_download 1" "one_download ! 3 = [97]"
  using sample_started
  by (simp_all add: started_def one_download_def sample_argv_def atoi_def sscanf_d_def scan_int_def scan_nat_def is_space_def is_digit_def as_int_def)

theorem protocol_download_witness:
  "(\<exists>ack. segmentNum (head ack) = 1 \<and> channel_client_main None sample_env (\<lambda>_. 7) (\<lambda>_. 100) one_download [Some ack] = Inl Use_After_Free)
   \<and> (\<exists>ack out sent bye. segmentNum (head ack) = 1
        \<and> channel_client_main (Some 1) sample_env (\<lambda>_. 7) (\<lambda>_. 100) one_download (Some ack # map Some out @ [Some bye]) =
            Inr (sent, [(True, [1, 2, 3])], Exit 0))
   \<and> (\<exists>ack out sent. segmentNum (head ack) = 1
        \<and> channel_client_main (Some 8000) sample_env (\<lambda>_. 7) (\<lambda>_. 100) one_download (Some ack # map Some out) = Inr (sent, [], Waiting))"
proof -
  have dir: "file_handle_for_file sample_dir (one_download ! 3) = Inr (Some sample_handle)" "ready_on sample_handle [1, 2, 3]"
    by (simp_all add: one_download_started(2) sample_dir_def sample_handle_def file_handle_for_file_def compare_bytes_eq ready_on_def)
  note p = protocol_download [OF one_download_started(1) dir, of 0 "\<lparr>conns = [\<lparr>conn_sock = 5, chans = []\<rparr>], totalChannels = 0\<rparr>" "\<lambda>_. 100" 300
      _ "\<lambda>_. 7" sample_machine 9 8 301 "\<lambda>_. 0" "\<lambda>_. 6" 7 302]
  have "\<exists>ack. segmentNum (head ack) = 1 \<and> channel_client_main None sample_env (\<lambda>_. 7) (\<lambda>_. 100) one_download [Some ack] = Inl Use_After_Free"
    using p [of None] by (simp add: MAX_CHANNELS_def) blast
  moreover have "\<exists>ack out sent bye. segmentNum (head ack) = 1
      \<and> channel_client_main (Some 1) sample_env (\<lambda>_. 7) (\<lambda>_. 100) one_download (Some ack # map Some out @ [Some bye]) =
          Inr (sent, [(True, [1, 2, 3])], Exit 0)"
    using p [of "Some 1"] by (simp add: MAX_CHANNELS_def) blast
  moreover have "\<exists>ack out sent. segmentNum (head ack) = 1
      \<and> channel_client_main (Some 8000) sample_env (\<lambda>_. 7) (\<lambda>_. 100) one_download (Some ack # map Some out) = Inr (sent, [], Waiting)"
    using p [of "Some 8000"] by (simp add: MAX_CHANNELS_def) blast
  ultimately show ?thesis by blast
qed

subsection \<open>The receiver of this revision\<close>

text \<open>
  C37. In this revision \<^verbatim>\<open>recv_msg\<close> returns nothing: the client dereferences the null message while it opens a channel. The server takes
  every message for a disconnect: it waits for the threads of the connection's channels, and stops with the error of the first that cannot be
  joined, if there is one; otherwise it closes and releases the connection, without an answer, and then prints the address inside the released
  connection, so that it goes on only where such a read does no harm.
\<close>

theorem nothing_received:
  assumes "length nm < 65536" "i < length (conns t)"
  shows "establish_channel stale rnds sid oid MAX_SIZE nm (word_of_nat (length nm)) (recv_msg s # rs) [] = Inl Null_Deref
     \<and> (if list_all (\<lambda>ch. pthread_join mc (ch\<lparr>chan_kill := True\<rparr>) = Inr ()) (chans (conns t ! i))
        then \<exists>t'. conns t' = take i (conns t) @ drop (Suc i) (conns t)
          \<and> totalChannels t' = totalChannels t - word_of_nat (length (chans (conns t ! i)))
          \<and> handle_message mc dh rnd self_id t i (recv_msg (conn_sock (conns t ! i))) = c_bind (freed_read mc) (\<lambda>_. Inr (t', []))
        else \<exists>ch e. ch \<in> set (chans (conns t ! i)) \<and> pthread_join mc (ch\<lparr>chan_kill := True\<rparr>) = Inl e
          \<and> handle_message mc dh rnd self_id t i (recv_msg (conn_sock (conns t ! i))) = Inl e)"
  using syn_msg_sent(1) [OF assms(1)] end_connection_result [OF assms(2), of mc]
  by (auto simp: establish_channel_def handle_message_def recv_msg_def disconnect_def joinable_def [abs_def] split: if_splits)

theorem nothing_received_witness:
  "establish_channel None (\<lambda>_. 7) 100 0 MAX_SIZE [97] (word_of_nat (length [97 :: uchar8])) (recv_msg 3 # []) [] = Inl Null_Deref
     \<and> handle_message sample_machine sample_dir 9 300 (two_channels 12) 1 (recv_msg (conn_sock (conns (two_channels 12) ! 1))) = Inl Use_After_Free
     \<and> handle_message sample_machine sample_dir 9 300 (two_channels 0) 1 (recv_msg (conn_sock (conns (two_channels 0) ! 1))) = Inl Null_Deref"
  using nothing_received [of "[97]" 1 "two_channels 12" None "\<lambda>_. 7" 100 0 3 "[]" sample_machine sample_dir 9 300]
    nothing_received [of "[97]" 1 "two_channels 0" None "\<lambda>_. 7" 100 0 3 "[]" sample_machine sample_dir 9 300]
  by (auto simp: two_channels_def pthread_join_def sample_machine_def)

end
